(* ===== verification/Prelude.thy ===== *)
theory Prelude
  imports Main "HOL-Library.Word"
begin

unbundle bit_operations_syntax

text \<open>
  Shared vocabulary of the development: machine integers, the kernel's error
  codes (\<^verbatim>\<open>src/inc/error.h\<close>), overflow-checked arithmetic
  (\<^verbatim>\<open>src/inc/safeint.h\<close>), the rounding macros (\<^verbatim>\<open>src/inc/intmacro.h\<close>), and the
  monad in which every stateful kernel function is written.

  A kernel function with state \<open>'s\<close> and result \<open>'a\<close> is an
  \<open>'s \<Rightarrow> 'a outcome \<times> 's\<close>. \<open>Ret\<close> is a normal return, \<open>Err e\<close> is the C
  convention of returning \<^verbatim>\<open>-E_...\<close> (the state keeps every change made before the
  return), \<open>Panic\<close> is \<^verbatim>\<open>panic()\<close> or a failed \<^verbatim>\<open>assert()\<close>, and \<open>NoFuel\<close> marks a
  bounded model of an unbounded C loop that has used up its bound.
\<close>

named_theorems kdefs \<open>definitions of the monad's primitives\<close>
named_theorems kwp \<open>weakest-precondition equations\<close>
named_theorems kkeep \<open>operations that keep a state predicate\<close>

type_synonym u8 = "8 word"
type_synonym u32 = "32 word"
type_synonym u64 = "64 word"

subsection \<open>Integer helpers\<close>

definition ROUNDDOWN :: "u64 \<Rightarrow> u64 \<Rightarrow> u64" where
  "ROUNDDOWN a n = a - a mod n"

definition ROUNDUP :: "u64 \<Rightarrow> u64 \<Rightarrow> u64" where
  "ROUNDUP a n = ROUNDDOWN (a + n - 1) n"

text \<open>The second component is the overflow flag \<^verbatim>\<open>*of\<close>.\<close>

definition safe_add64 :: "u64 \<Rightarrow> u64 \<Rightarrow> u64 \<times> bool" where
  "safe_add64 a b = (let r = a + b in (r, r < a \<or> r < b))"

definition safe_mul64 :: "u64 \<Rightarrow> u64 \<Rightarrow> u64 \<times> bool" where
  "safe_mul64 a b = (let r = a * b in (r, b \<noteq> 0 \<and> r div b \<noteq> a))"

subsection \<open>Error codes\<close>

datatype err =
    E_UNSPEC | E_INVAL | E_NO_MEM | E_RESTART | E_NOT_FOUND | E_LABEL | E_BUSY
  | E_NO_SPACE | E_AGAIN | E_IO | E_FIXED_QUOTA | E_VAR_QUOTA | E_RESOURCE
  | E_BAD_TYPE | E_READ_ONLY | E_RANGE | E_EOF | E_MAX_OPEN | E_BAD_OP
  | E_EXISTS | E_NOT_DIR

datatype 'a outcome = Ret 'a | Err err | Panic | NoFuel

type_synonym ('s, 'a) km = "'s \<Rightarrow> 'a outcome \<times> 's"

subsection \<open>The monad\<close>

definition kret :: "'a \<Rightarrow> ('s, 'a) km" where
  [kdefs]: "kret a s = (Ret a, s)"

definition kerr :: "err \<Rightarrow> ('s, 'a) km" where
  [kdefs]: "kerr e s = (Err e, s)"

definition kpanic :: "('s, 'a) km" where
  [kdefs]: "kpanic s = (Panic, s)"

definition knofuel :: "('s, 'a) km" where
  [kdefs]: "knofuel s = (NoFuel, s)"

definition kget :: "('s \<Rightarrow> 'a) \<Rightarrow> ('s, 'a) km" where
  [kdefs]: "kget f s = (Ret (f s), s)"

definition kmod :: "('s \<Rightarrow> 's) \<Rightarrow> ('s, unit) km" where
  [kdefs]: "kmod f s = (Ret (), f s)"

definition kbind :: "('s, 'a) km \<Rightarrow> ('a \<Rightarrow> ('s, 'b) km) \<Rightarrow> ('s, 'b) km" where
  [kdefs]: "kbind m f s =
     (case m s of
        (Ret a, s') \<Rightarrow> f a s'
      | (Err e, s') \<Rightarrow> (Err e, s')
      | (Panic, s') \<Rightarrow> (Panic, s')
      | (NoFuel, s') \<Rightarrow> (NoFuel, s'))"

text \<open>Inspecting the return code of a call, as \<^verbatim>\<open>r = f(); if (r < 0) ...\<close> does.\<close>

definition ktry :: "('s, 'a) km \<Rightarrow> (err + 'a \<Rightarrow> ('s, 'b) km) \<Rightarrow> ('s, 'b) km" where
  [kdefs]: "ktry m f s =
     (case m s of
        (Ret a, s') \<Rightarrow> f (Inr a) s'
      | (Err e, s') \<Rightarrow> f (Inl e) s'
      | (Panic, s') \<Rightarrow> (Panic, s')
      | (NoFuel, s') \<Rightarrow> (NoFuel, s'))"

definition kassert :: "bool \<Rightarrow> ('s, unit) km" where
  [kdefs]: "kassert b = (if b then kret () else kpanic)"

definition kthen :: "('s, 'a) km \<Rightarrow> ('s, 'b) km \<Rightarrow> ('s, 'b) km" where
  [kdefs]: "kthen m k = kbind m (\<lambda>_. k)"

definition kwhen :: "bool \<Rightarrow> ('s, unit) km \<Rightarrow> ('s, unit) km" where
  [kdefs]: "kwhen b m = (if b then m else kret ())"

text \<open>Loops over a list of indices: run a body for each, search for a first hit, thread a value.\<close>

primrec kfor :: "('b \<Rightarrow> ('s, unit) km) \<Rightarrow> 'b list \<Rightarrow> ('s, unit) km" where
  "kfor f [] = kret ()"
| "kfor f (x # xs) = kthen (f x) (kfor f xs)"

primrec kfind :: "('b \<Rightarrow> ('s, 'a option) km) \<Rightarrow> 'b list \<Rightarrow> ('s, 'a option) km" where
  "kfind f [] = kret None"
| "kfind f (x # xs) = kbind (f x) (\<lambda>r. case r of Some a \<Rightarrow> kret (Some a) | None \<Rightarrow> kfind f xs)"

primrec kfold :: "('b \<Rightarrow> 'a \<Rightarrow> ('s, 'a) km) \<Rightarrow> 'b list \<Rightarrow> 'a \<Rightarrow> ('s, 'a) km" where
  "kfold f [] a = kret a"
| "kfold f (x # xs) a = kbind (f x a) (kfold f xs)"

primrec krepeat :: "nat \<Rightarrow> ('s, 'a) km \<Rightarrow> ('s, 'a list) km" where
  "krepeat 0 m = kret []"
| "krepeat (Suc n) m = kbind m (\<lambda>x. kbind (krepeat n m) (\<lambda>xs. kret (x # xs)))"

subsection \<open>Evaluation equations\<close>

lemma kret_apply: "kret a s = (Ret a, s)"
  by (simp add: kdefs)

lemma kerr_apply: "kerr e s = (Err e, s)"
  by (simp add: kdefs)

lemma kpanic_apply: "kpanic s = (Panic, s)"
  by (simp add: kdefs)

lemma knofuel_apply: "knofuel s = (NoFuel, s)"
  by (simp add: kdefs)

lemma kget_apply [simp]: "kget f s = (Ret (f s), s)"
  by (simp add: kdefs)

lemma kmod_apply [simp]: "kmod f s = (Ret (), f s)"
  by (simp add: kdefs)

lemma kbind_kret [simp]: "kbind (kret a) f = f a"
  by (simp add: kdefs fun_eq_iff)

lemma kbind_kerr [simp]: "kbind (kerr e) f = kerr e"
  by (simp add: kdefs fun_eq_iff)

lemma kbind_kpanic [simp]: "kbind kpanic f = kpanic"
  by (simp add: kdefs fun_eq_iff)

lemma kbind_knofuel [simp]: "kbind knofuel f = knofuel"
  by (simp add: kdefs fun_eq_iff)

lemma kbind_kret_right [simp]: "kbind m kret = m"
  by (simp add: kdefs fun_eq_iff split: prod.split outcome.split)

lemma kbind_assoc: "kbind (kbind m f) g = kbind m (\<lambda>a. kbind (f a) g)"
  by (simp add: kdefs fun_eq_iff split: prod.split outcome.split)

lemma kbind_get: "kbind (kget g) f s = f (g s) s"
  by (simp add: kdefs)

lemma kbind_mod: "kbind (kmod g) f s = f () (g s)"
  by (simp add: kdefs)

lemma kthen_mod: "kthen (kmod g) k s = k (g s)"
  by (simp add: kdefs)

lemma kthen_ret [simp]: "kthen (kret a) k = k"
  by (simp add: kthen_def)

lemma kthen_err [simp]: "kthen (kerr e) k = kerr e"
  by (simp add: kthen_def)

lemma kthen_panic [simp]: "kthen kpanic k = kpanic"
  by (simp add: kthen_def)

lemma kassert_True [simp]: "kassert True = kret ()"
  by (simp add: kassert_def)

lemma kassert_False [simp]: "kassert False = kpanic"
  by (simp add: kassert_def)

lemma kwhen_simps [simp]: "kwhen True m = m" "kwhen False m = kret ()"
  by (simp_all add: kwhen_def)

lemma ktry_ret [simp]: "ktry (kret a) f = f (Inr a)"
  by (simp add: kdefs fun_eq_iff)

lemma ktry_err [simp]: "ktry (kerr e) f = f (Inl e)"
  by (simp add: kdefs fun_eq_iff)

lemma kbind_run: "m s = (Ret a, s') \<Longrightarrow> kbind m f s = f a s'"
  by (simp add: kbind_def)

lemma kthen_run: "m s = (Ret a, s') \<Longrightarrow> kthen m k s = k s'"
  by (simp add: kthen_def kbind_def)

lemma kthen_case:
  "kthen m k s = (case m s of
        (Ret a, s') \<Rightarrow> k s'
      | (Err e, s') \<Rightarrow> (Err e, s')
      | (Panic, s') \<Rightarrow> (Panic, s')
      | (NoFuel, s') \<Rightarrow> (NoFuel, s'))"
  by (simp add: kthen_def kbind_def)

lemmas kcase = kthen_case kbind_def ktry_def

lemma kbind_RetE:
  assumes "kbind m f s = (Ret b, t)"
  obtains a s' where "m s = (Ret a, s')" and "f a s' = (Ret b, t)"
  using assms by (auto simp: kbind_def split: prod.splits outcome.splits)

lemma kthen_RetE:
  assumes "kthen m k s = (Ret b, t)"
  obtains a s' where "m s = (Ret a, s')" and "k s' = (Ret b, t)"
  using assms by (auto simp: kthen_def elim: kbind_RetE)

subsection \<open>Weakest preconditions\<close>

definition wp :: "('s, 'a) km \<Rightarrow> ('a outcome \<Rightarrow> 's \<Rightarrow> bool) \<Rightarrow> 's \<Rightarrow> bool" where
  "wp m Q s = (case m s of (r, s') \<Rightarrow> Q r s')"

definition wpk :: "('a \<Rightarrow> ('s, 'b) km) \<Rightarrow> ('b outcome \<Rightarrow> 's \<Rightarrow> bool) \<Rightarrow> 'a outcome \<Rightarrow> 's \<Rightarrow> bool" where
  "wpk f Q r s = (case r of Ret a \<Rightarrow> wp (f a) Q s | Err e \<Rightarrow> Q (Err e) s
                   | Panic \<Rightarrow> Q Panic s | NoFuel \<Rightarrow> Q NoFuel s)"

lemma wp_kret [kwp]: "wp (kret a) Q s = Q (Ret a) s"
  by (simp add: wp_def kret_def)

lemma wp_kerr [kwp]: "wp (kerr e) Q s = Q (Err e) s"
  by (simp add: wp_def kerr_def)

lemma wp_kpanic [kwp]: "wp kpanic Q s = Q Panic s"
  by (simp add: wp_def kpanic_def)

lemma wp_kget [kwp]: "wp (kget f) Q s = Q (Ret (f s)) s"
  by (simp add: wp_def)

lemma wp_kmod [kwp]: "wp (kmod f) Q s = Q (Ret ()) (f s)"
  by (simp add: wp_def)

lemma wp_kbind [kwp]: "wp (kbind m f) Q s = wp m (wpk f Q) s"
  by (simp add: wp_def wpk_def kbind_def split: prod.split outcome.split)

lemma wpk_simps [kwp, simp]:
  "wpk f Q (Ret a) s = wp (f a) Q s"
  "wpk f Q (Err e) s = Q (Err e) s"
  "wpk f Q Panic s = Q Panic s"
  "wpk f Q NoFuel s = Q NoFuel s"
  by (simp_all add: wpk_def)

lemma wp_if [kwp]: "wp (if b then m else n) Q s = (if b then wp m Q s else wp n Q s)"
  by simp

lemma wp_mono: "wp m Q s \<Longrightarrow> (\<And>r t. Q r t \<Longrightarrow> R r t) \<Longrightarrow> wp m R s"
  by (auto simp: wp_def split: prod.splits)

lemma wpI: "(\<And>r t. m s = (r, t) \<Longrightarrow> Q r t) \<Longrightarrow> wp m Q s"
  by (simp add: wp_def split: prod.split)

lemma wpD: "wp m Q s \<Longrightarrow> m s = (r, t) \<Longrightarrow> Q r t"
  by (simp add: wp_def)

subsection \<open>Predicates kept by an operation, whatever its outcome\<close>

definition keeps :: "('s \<Rightarrow> bool) \<Rightarrow> ('s, 'a) km \<Rightarrow> bool" where
  "keeps I m \<longleftrightarrow> (\<forall>s. I s \<longrightarrow> I (snd (m s)))"

lemma keepsI: "(\<And>s r t. I s \<Longrightarrow> m s = (r, t) \<Longrightarrow> I t) \<Longrightarrow> keeps I m"
  by (metis keeps_def prod.collapse)

lemma keepsD: "keeps I m \<Longrightarrow> I s \<Longrightarrow> m s = (r, t) \<Longrightarrow> I t"
  by (metis keeps_def snd_conv)

lemma keeps_kret [kkeep]: "keeps I (kret a)"
  by (simp add: keeps_def kret_def)

lemma keeps_kerr [kkeep]: "keeps I (kerr e)"
  by (simp add: keeps_def kerr_def)

lemma keeps_kpanic [kkeep]: "keeps I kpanic"
  by (simp add: keeps_def kpanic_def)

lemma keeps_knofuel [kkeep]: "keeps I knofuel"
  by (simp add: keeps_def knofuel_def)

lemma keeps_kget [kkeep]: "keeps I (kget f)"
  by (simp add: keeps_def)

lemma keeps_kassert [kkeep]: "keeps I (kassert b)"
  by (cases b) (simp_all add: kkeep)

lemma keeps_kmod: "(\<And>s. I s \<Longrightarrow> I (f s)) \<Longrightarrow> keeps I (kmod f)"
  by (simp add: keeps_def)

lemma keeps_kbind [kkeep]: "keeps I m \<Longrightarrow> (\<And>a. keeps I (f a)) \<Longrightarrow> keeps I (kbind m f)"
  unfolding keeps_def kbind_def by (auto split: prod.split outcome.split)

lemma keeps_ktry [kkeep]: "keeps I m \<Longrightarrow> (\<And>a. keeps I (f a)) \<Longrightarrow> keeps I (ktry m f)"
  unfolding keeps_def ktry_def by (auto split: prod.split outcome.split)

lemma keeps_kthen [kkeep]: "keeps I m \<Longrightarrow> keeps I k \<Longrightarrow> keeps I (kthen m k)"
  by (simp add: kthen_def kkeep)

lemma keeps_kwhen [kkeep]: "(b \<Longrightarrow> keeps I m) \<Longrightarrow> keeps I (kwhen b m)"
  by (simp add: kwhen_def kkeep)

lemma keeps_if [kkeep]:
  "(b \<Longrightarrow> keeps I m) \<Longrightarrow> (\<not> b \<Longrightarrow> keeps I n) \<Longrightarrow> keeps I (if b then m else n)"
  by simp

lemma keeps_case_option [kkeep]:
  "keeps I m \<Longrightarrow> (\<And>a. keeps I (f a)) \<Longrightarrow> keeps I (case x of None \<Rightarrow> m | Some a \<Rightarrow> f a)"
  by (cases x) auto

lemma keeps_case_sum [kkeep]:
  "(\<And>a. keeps I (f a)) \<Longrightarrow> (\<And>b. keeps I (g b)) \<Longrightarrow> keeps I (case x of Inl a \<Rightarrow> f a | Inr b \<Rightarrow> g b)"
  by (cases x) auto

lemma keeps_case_prod [kkeep]:
  "(\<And>a b. keeps I (f a b)) \<Longrightarrow> keeps I (case x of (a, b) \<Rightarrow> f a b)"
  by (cases x) auto

lemma keeps_let [kkeep]: "(\<And>x. keeps I (f x)) \<Longrightarrow> keeps I (let x = a in f x)"
  by simp

lemma keeps_kfor [kkeep]: "(\<And>x. keeps I (f x)) \<Longrightarrow> keeps I (kfor f xs)"
  by (induction xs) (simp_all add: kkeep)

lemma keeps_kfind [kkeep]:
  assumes "\<And>x. keeps I (f x)"
  shows "keeps I (kfind f xs)"
  by (induction xs) (auto intro!: kkeep assms)

lemma keeps_kfold [kkeep]: "(\<And>x a. keeps I (f x a)) \<Longrightarrow> keeps I (kfold f xs a)"
  by (induction xs arbitrary: a) (auto intro!: kkeep)

subsection \<open>What the integer helpers compute\<close>

lemma unat_less_exp: "unat (w :: 'a :: len word) < 2 ^ LENGTH('a)"
  by (rule unsigned_less)

lemma unat_add_carry:
  "unat (a + b :: 'a :: len word) = (if unat a + unat b < 2 ^ LENGTH('a) then unat a + unat b
     else unat a + unat b - 2 ^ LENGTH('a))"
proof (cases "unat a + unat b < 2 ^ LENGTH('a)")
  case True
  then show ?thesis by (simp add: unat_word_ariths)
next
  case False
  have "unat a + unat b - 2 ^ LENGTH('a) < 2 ^ LENGTH('a)"
    using unat_less_exp [of a] unat_less_exp [of b] by linarith
  then have "(unat a + unat b) mod 2 ^ LENGTH('a) = unat a + unat b - 2 ^ LENGTH('a)"
    using False by (simp add: le_mod_geq)
  then show ?thesis using False by (simp add: unat_word_ariths)
qed

lemma safe_add64_exact:
  assumes "safe_add64 a b = (r, ov)"
  shows "ov = (2 ^ 64 \<le> unat a + unat b) \<and> (\<not> ov \<longrightarrow> unat r = unat a + unat b)"
proof -
  have r: "r = a + b" and ov: "ov = (unat (a + b) < unat a \<or> unat (a + b) < unat b)"
    using assms by (auto simp: safe_add64_def Let_def word_less_nat_alt)
  have "unat a < 2 ^ 64" "unat b < 2 ^ 64"
    using unat_less_exp [of a] unat_less_exp [of b] by simp_all
  then show ?thesis
    unfolding r ov unat_add_carry by auto
qed

lemma safe_mul64_exact:
  assumes "safe_mul64 a b = (r, ov)"
  shows "ov = (2 ^ 64 \<le> unat a * unat b) \<and> (\<not> ov \<longrightarrow> unat r = unat a * unat b)"
proof (cases "b = 0")
  case True
  then show ?thesis using assms by (auto simp: safe_mul64_def)
next
  case False
  then have b: "0 < unat b" by (simp add: unat_gt_0)
  have r: "unat r = unat a * unat b mod 2 ^ 64" and ov: "ov = (r div b \<noteq> a)"
    using assms False by (auto simp: safe_mul64_def Let_def unat_word_ariths)
  have div: "unat (r div b) = unat r div unat b" by (simp add: unat_div)
  show ?thesis
  proof (cases "unat a * unat b < 2 ^ 64")
    case True
    then show ?thesis using r ov div b by (simp add: word_unat_eq_iff)
  next
    case False
    have "unat r < 2 ^ 64" using unat_less_exp [of r] by simp
    then have "unat r < unat a * unat b" using False by linarith
    then have "unat r div unat b < unat a" using b by (simp add: less_mult_imp_div_less)
    then have "r div b \<noteq> a" using div by (metis nat_less_le)
    then show ?thesis using ov False by simp
  qed
qed

end
