(* ===== verification/Bf60.thy ===== *)
theory Bf60
  imports Prelude
begin

unbundle bit_operations_syntax

text \<open>
  The block cipher of \<^verbatim>\<open>src/lib/bf60.c\<close>: Blowfish with a 64-bit, a 60-bit and a
  61-bit block. The kernel enciphers a counter with the 61-bit variant to name its
  objects (\<^verbatim>\<open>handle_alloc\<close>) and its snapshots (\<^verbatim>\<open>pstate_ts_alloc\<close>).

  A round is generalised over the masks of the two halves, so that the Feistel
  argument is made once: deciphering undoes enciphering on the pair of halves for
  every width. What the three block widths do with the halves differs, and the 61-bit
  variant splits its block at bit 29 instead of bit 31; the lemmas at the end say
  exactly which values it confuses.
\<close>

subsection \<open>Key material\<close>

record bf_ctx =
  bf_P :: "u32 list"
  bf_S :: "u32 list list"

definition JOS_BF_N :: nat where
  "JOS_BF_N = 16"

definition bf_F :: "bf_ctx \<Rightarrow> u32 \<Rightarrow> u32" where
  "bf_F bfc x =
     ((bf_S bfc ! 0 ! unat (drop_bit 24 x) + bf_S bfc ! 1 ! unat (drop_bit 16 x AND 0xff))
       XOR bf_S bfc ! 2 ! unat (drop_bit 8 x AND 0xff)) + bf_S bfc ! 3 ! unat (x AND 0xff)"

text \<open>
  The loop body of the enciphering loops: two half-rounds, \<open>ml\<close> and \<open>mr\<close> being the masks
  the C code applies to what is mixed into the left and into the right half.
\<close>

fun bf_enc_rounds :: "bf_ctx \<Rightarrow> u32 \<Rightarrow> u32 \<Rightarrow> nat list \<Rightarrow> u32 \<times> u32 \<Rightarrow> u32 \<times> u32" where
  "bf_enc_rounds bfc ml mr [] (xl, xr) = (xl, xr)"
| "bf_enc_rounds bfc ml mr (i # is) (xl, xr) =
     (let xl1 = xl XOR (bf_P bfc ! i AND ml);
          xr1 = xr XOR (bf_F bfc xl1 AND mr);
          xr2 = xr1 XOR (bf_P bfc ! (i + 1) AND mr);
          xl2 = xl1 XOR (bf_F bfc xr2 AND ml)
      in bf_enc_rounds bfc ml mr is (xl2, xr2))"

fun bf_dec_rounds :: "bf_ctx \<Rightarrow> u32 \<Rightarrow> u32 \<Rightarrow> nat list \<Rightarrow> u32 \<times> u32 \<Rightarrow> u32 \<times> u32" where
  "bf_dec_rounds bfc ml mr [] (xl, xr) = (xl, xr)"
| "bf_dec_rounds bfc ml mr (i # is) (xl, xr) =
     (let xl1 = xl XOR (bf_P bfc ! i AND ml);
          xr1 = xr XOR (bf_F bfc xl1 AND mr);
          xr2 = xr1 XOR (bf_P bfc ! (i - 1) AND mr);
          xl2 = xl1 XOR (bf_F bfc xr2 AND ml)
      in bf_dec_rounds bfc ml mr is (xl2, xr2))"

text \<open>The values of \<open>i\<close> at the head of each iteration of the two loops.\<close>

definition enc_indices :: "nat list" where
  "enc_indices = map (\<lambda>k. 2 * k) [0..<JOS_BF_N div 2]"

definition dec_indices :: "nat list" where
  "dec_indices = map (\<lambda>k. JOS_BF_N + 1 - 2 * k) [0..<JOS_BF_N div 2]"

subsection \<open>The ciphers\<close>

definition bf_encipher :: "bf_ctx \<Rightarrow> u32 \<times> u32 \<Rightarrow> u32 \<times> u32" where
  "bf_encipher bfc x =
     (case bf_enc_rounds bfc (-1) (-1) enc_indices x of
        (xl, xr) \<Rightarrow> (xr XOR bf_P bfc ! (JOS_BF_N + 1), xl XOR bf_P bfc ! JOS_BF_N))"

definition bf_decipher :: "bf_ctx \<Rightarrow> u32 \<times> u32 \<Rightarrow> u32 \<times> u32" where
  "bf_decipher bfc x =
     (case bf_dec_rounds bfc (-1) (-1) dec_indices x of
        (xl, xr) \<Rightarrow> (xr XOR bf_P bfc ! 0, xl XOR bf_P bfc ! 1))"

definition bf60_encipher :: "bf_ctx \<Rightarrow> u64 \<Rightarrow> u64" where
  "bf60_encipher bfc val =
     (let xl0 = ucast (drop_bit 30 val) AND (0x3fffffff :: u32);
          xr0 = ucast val AND (0x3fffffff :: u32)
      in case bf_enc_rounds bfc 0x3fffffff 0x3fffffff enc_indices (xl0, xr0) of
           (xl, xr) \<Rightarrow>
             push_bit 30 (ucast (xr XOR (bf_P bfc ! (JOS_BF_N + 1) AND 0x3fffffff)))
               OR ucast (xl XOR (bf_P bfc ! JOS_BF_N AND 0x3fffffff)))"

definition bf60_decipher :: "bf_ctx \<Rightarrow> u64 \<Rightarrow> u64" where
  "bf60_decipher bfc val =
     (let xl0 = ucast (drop_bit 30 val) AND (0x3fffffff :: u32);
          xr0 = ucast val AND (0x3fffffff :: u32)
      in case bf_dec_rounds bfc 0x3fffffff 0x3fffffff dec_indices (xl0, xr0) of
           (xl, xr) \<Rightarrow>
             push_bit 30 (ucast (xr XOR (bf_P bfc ! 0 AND 0x3fffffff)))
               OR ucast (xl XOR (bf_P bfc ! 1 AND 0x3fffffff)))"

definition bf61_encipher :: "bf_ctx \<Rightarrow> u64 \<Rightarrow> u64" where
  "bf61_encipher bfc val =
     (let xl0 = ucast (drop_bit 29 val) AND (0x3fffffff :: u32);
          xr0 = ucast val AND (0x7fffffff :: u32)
      in case bf_enc_rounds bfc 0x3fffffff 0x7fffffff enc_indices (xl0, xr0) of
           (xl, xr) \<Rightarrow>
             push_bit 30 (ucast (xr XOR (bf_P bfc ! (JOS_BF_N + 1) AND 0x7fffffff)))
               OR ucast (xl XOR (bf_P bfc ! JOS_BF_N AND 0x3fffffff)))"

definition bf61_decipher :: "bf_ctx \<Rightarrow> u64 \<Rightarrow> u64" where
  "bf61_decipher bfc val =
     (let xl0 = ucast (drop_bit 30 val) AND (0x7fffffff :: u32);
          xr0 = ucast val AND (0x3fffffff :: u32)
      in case bf_dec_rounds bfc 0x7fffffff 0x3fffffff dec_indices (xl0, xr0) of
           (xl, xr) \<Rightarrow>
             push_bit 31 (ucast (xr XOR (bf_P bfc ! 0 AND 0x3fffffff)))
               OR ucast (xl XOR (bf_P bfc ! 1 AND 0x7fffffff)))"

definition bf64_encipher :: "bf_ctx \<Rightarrow> u64 \<Rightarrow> u64" where
  "bf64_encipher bfc val =
     (case bf_enc_rounds bfc (-1) (-1) enc_indices (ucast (drop_bit 32 val), ucast val) of
        (xl, xr) \<Rightarrow>
          push_bit 32 (ucast (xr XOR bf_P bfc ! (JOS_BF_N + 1)))
            OR ucast (xl XOR bf_P bfc ! JOS_BF_N))"

definition bf64_decipher :: "bf_ctx \<Rightarrow> u64 \<Rightarrow> u64" where
  "bf64_decipher bfc val =
     (case bf_dec_rounds bfc (-1) (-1) dec_indices (ucast (drop_bit 32 val), ucast val) of
        (xl, xr) \<Rightarrow>
          push_bit 32 (ucast (xr XOR bf_P bfc ! 0))
            OR ucast (xl XOR bf_P bfc ! 1))"

subsection \<open>Key schedule\<close>

text \<open>
  \<open>pihex\<close> is the constant table of \<^verbatim>\<open>src/inc/blowfish_data.h\<close>, an argument here: nothing
  below depends on its contents.
\<close>

definition bf_initstate :: "u32 list \<Rightarrow> bf_ctx" where
  "bf_initstate pihex =
     \<lparr> bf_P = take (JOS_BF_N + 2) pihex,
       bf_S = map (\<lambda>i. take 256 (drop (JOS_BF_N + 2 + 256 * i) pihex)) [0..<4] \<rparr>"

fun bf_key_word :: "u8 list \<Rightarrow> nat \<Rightarrow> nat \<Rightarrow> u32 \<Rightarrow> u32 \<times> nat" where
  "bf_key_word key 0 keypos d = (d, keypos)"
| "bf_key_word key (Suc k) keypos d =
     (let keypos' = (if keypos + 1 \<ge> length key then 0 else keypos + 1)
      in bf_key_word key k keypos' (push_bit 8 d OR ucast (key ! keypos)))"

fun bf_key_xor :: "u8 list \<Rightarrow> nat list \<Rightarrow> nat \<Rightarrow> u32 list \<Rightarrow> u32 list" where
  "bf_key_xor key [] keypos p = p"
| "bf_key_xor key (i # is) keypos p =
     (case bf_key_word key 4 keypos 0 of
        (d, keypos') \<Rightarrow> bf_key_xor key is keypos' (p[i := p ! i XOR d]))"

fun bf_sched_P :: "nat list \<Rightarrow> bf_ctx \<times> u32 \<times> u32 \<Rightarrow> bf_ctx \<times> u32 \<times> u32" where
  "bf_sched_P [] st = st"
| "bf_sched_P (i # is) (bfc, l, r) =
     (case bf_encipher bfc (l, r) of
        (l', r') \<Rightarrow> bf_sched_P is (bfc\<lparr> bf_P := (bf_P bfc)[i := l', i + 1 := r'] \<rparr>, l', r'))"

fun bf_sched_S :: "nat \<Rightarrow> nat list \<Rightarrow> bf_ctx \<times> u32 \<times> u32 \<Rightarrow> bf_ctx \<times> u32 \<times> u32" where
  "bf_sched_S i [] st = st"
| "bf_sched_S i (j # js) (bfc, l, r) =
     (case bf_encipher bfc (l, r) of
        (l', r') \<Rightarrow>
          bf_sched_S i js
            (bfc\<lparr> bf_S := (bf_S bfc)[i := (bf_S bfc ! i)[j := l', j + 1 := r']] \<rparr>, l', r'))"

definition bf_keysched :: "bf_ctx \<Rightarrow> u8 list \<Rightarrow> bf_ctx" where
  "bf_keysched bfc key =
     (let bfc1 = (if 0 < length key
                  then bfc\<lparr> bf_P := bf_key_xor key [0..<JOS_BF_N + 2] 0 (bf_P bfc) \<rparr>
                  else bfc);
          st2 = bf_sched_P (map (\<lambda>k. 2 * k) [0..<(JOS_BF_N + 2) div 2]) (bfc1, 0, 0);
          st3 = fold (\<lambda>i. bf_sched_S i (map (\<lambda>k. 2 * k) [0..<128])) [0..<4] st2
      in fst st3)"

definition bf_setkey :: "u32 list \<Rightarrow> u8 list \<Rightarrow> bf_ctx" where
  "bf_setkey pihex key = bf_keysched (bf_initstate pihex) key"

subsection \<open>The Feistel argument\<close>

lemma bf_enc_rounds_append:
  "bf_enc_rounds bfc ml mr (is @ js) x = bf_enc_rounds bfc ml mr js (bf_enc_rounds bfc ml mr is x)"
  by (induction bfc ml mr "is" x rule: bf_enc_rounds.induct) (simp_all add: Let_def)

lemma xor_cancel_right [simp]: "(x XOR y) XOR y = (x :: 'a :: len word)"
  by (simp add: xor.assoc)

text \<open>One deciphering round, entered with the post-whitened halves of an enciphering round, undoes it.\<close>

lemma bf_dec_undoes_round:
  assumes "bf_enc_rounds bfc ml mr [i] (a, b) = (xl, xr)"
  shows "bf_dec_rounds bfc mr ml ((i + 3) # is)
           (xr XOR (bf_P bfc ! (i + 3) AND mr), xl XOR (bf_P bfc ! (i + 2) AND ml))
         = bf_dec_rounds bfc mr ml is
           (b XOR (bf_P bfc ! (i + 1) AND mr), a XOR (bf_P bfc ! i AND ml))"
proof -
  let ?p = "\<lambda>k. bf_P bfc ! k"
  define xl1 where "xl1 = a XOR (?p i AND ml)"
  have xr: "xr = (b XOR (bf_F bfc xl1 AND mr)) XOR (?p (i + 1) AND mr)"
    and xl: "xl = xl1 XOR (bf_F bfc xr AND ml)"
    using assms by (auto simp: Let_def xl1_def)
  have left: "((xl XOR (?p (i + 2) AND ml)) XOR (bf_F bfc xr AND ml)) XOR (?p (i + 2) AND ml) = xl1"
    unfolding xl by (simp add: xor.assoc xor.commute xor.left_commute)
  have right: "xr XOR (bf_F bfc xl1 AND mr) = b XOR (?p (i + 1) AND mr)"
    unfolding xr by (simp add: xor.assoc xor.commute xor.left_commute)
  show ?thesis
    using left right by (simp add: Let_def numeral_eq_Suc flip: xl1_def)
qed

lemma bf_dec_undoes_enc:
  assumes "bf_enc_rounds bfc ml mr (map (\<lambda>k. 2 * k) [0..<n]) (a, b) = (xl, xr)"
  shows "bf_dec_rounds bfc mr ml (map (\<lambda>k. 2 * n + 1 - 2 * k) [0..<n])
           (xr XOR (bf_P bfc ! (2 * n + 1) AND mr), xl XOR (bf_P bfc ! (2 * n) AND ml))
         = (b XOR (bf_P bfc ! 1 AND mr), a XOR (bf_P bfc ! 0 AND ml))"
  using assms
proof (induction n arbitrary: xl xr)
  case 0
  then show ?case by simp
next
  case (Suc n)
  obtain ul ur where u: "bf_enc_rounds bfc ml mr (map (\<lambda>k. 2 * k) [0..<n]) (a, b) = (ul, ur)"
    by fastforce
  have last: "bf_enc_rounds bfc ml mr [2 * n] (ul, ur) = (xl, xr)"
    using Suc.prems u by (simp add: bf_enc_rounds_append)
  have idx: "map (\<lambda>k. 2 * Suc n + 1 - 2 * k) [0..<Suc n]
             = (2 * n + 3) # map (\<lambda>k. 2 * n + 1 - 2 * k) [0..<n]"
    by (simp add: upt_conv_Cons map_Suc_upt [symmetric] del: upt_Suc)
  have "bf_dec_rounds bfc mr ml ((2 * n + 3) # map (\<lambda>k. 2 * n + 1 - 2 * k) [0..<n])
          (xr XOR (bf_P bfc ! (2 * n + 3) AND mr), xl XOR (bf_P bfc ! (2 * n + 2) AND ml))
        = (b XOR (bf_P bfc ! 1 AND mr), a XOR (bf_P bfc ! 0 AND ml))"
    using bf_dec_undoes_round [OF last, of "map (\<lambda>k. 2 * n + 1 - 2 * k) [0..<n]"] Suc.IH [OF u]
    by simp
  then show ?case
    unfolding idx by (simp add: numeral_eq_Suc)
qed

lemma bf_feistel_inverse:
  assumes "bf_enc_rounds bfc ml mr enc_indices (a, b) = (xl, xr)"
  shows "bf_dec_rounds bfc mr ml dec_indices
           (xr XOR (bf_P bfc ! (JOS_BF_N + 1) AND mr), xl XOR (bf_P bfc ! JOS_BF_N AND ml))
         = (b XOR (bf_P bfc ! 1 AND mr), a XOR (bf_P bfc ! 0 AND ml))"
  using bf_dec_undoes_enc [of bfc ml mr 8 a b xl xr] assms
  by (simp add: enc_indices_def dec_indices_def JOS_BF_N_def)

subsection \<open>Halves stay within their masks\<close>

lemma xor_within_mask:
  "x AND m = x \<Longrightarrow> (x XOR (y AND m)) AND m = x XOR (y AND (m :: 'a :: len word))"
  by (simp add: bit_eq_iff bit_simps) blast

lemma bf_enc_rounds_within:
  "xl AND ml = xl \<Longrightarrow> xr AND mr = xr \<Longrightarrow> bf_enc_rounds bfc ml mr is (xl, xr) = (yl, yr)
   \<Longrightarrow> yl AND ml = yl \<and> yr AND mr = yr"
  by (induction bfc ml mr "is" "(xl, xr)" arbitrary: xl xr rule: bf_enc_rounds.induct)
    (simp_all add: Let_def xor_within_mask)

subsection \<open>Packing two halves into a 64-bit block\<close>

lemma mask_numerals:
  "(0x3fffffff :: u32) = mask 30" "(0x7fffffff :: u32) = mask 31" "(-1 :: u32) = mask 32"
  by (simp_all add: mask_eq_exp_minus_1)

lemma and_mask_bit:
  "x AND mask n = (x :: 'a :: len word) \<Longrightarrow> bit x i \<Longrightarrow> i < n"
  by (metis bit_and_iff bit_mask_iff)

lemma unpack_high:
  assumes "l AND mask n = l" "h AND mask m = h" "n + m \<le> 64" "m \<le> 32"
  shows "ucast (drop_bit n (push_bit n (ucast (h :: u32)) OR ucast (l :: u32) :: u64)) AND mask m = h"
proof (rule bit_word_eqI)
  fix i assume "i < LENGTH(32)"
  then show "bit (ucast (drop_bit n (push_bit n (ucast h) OR ucast l :: u64)) AND mask m :: u32) i = bit h i"
    using assms and_mask_bit [OF assms(1), of "n + i"] and_mask_bit [OF assms(2), of i]
    by (auto simp: bit_simps)
qed

lemma unpack_low:
  assumes "l AND mask n = l" "n \<le> 32"
  shows "ucast (push_bit n (ucast (h :: u32)) OR ucast (l :: u32) :: u64) AND mask n = l"
proof (rule bit_word_eqI)
  fix i assume "i < LENGTH(32)"
  then show "bit (ucast (push_bit n (ucast h) OR ucast l :: u64) AND mask n :: u32) i = bit l i"
    using assms and_mask_bit [OF assms(1), of i] by (auto simp: bit_simps)
qed

lemma within_mask_and: "(x AND m) AND m = x AND (m :: 'a :: len word)"
  by (simp add: and.assoc)

text \<open>What the three block ciphers share: a Feistel network on an \<open>ml\<close>-bit and an \<open>mr\<close>-bit half.\<close>

lemma feistel_block_inverse:
  assumes enc: "bf_enc_rounds bfc (mask nl) (mask nr) enc_indices (a, b) = (xl, xr)"
    and a: "a AND mask nl = a" and b: "b AND mask nr = b"
    and sizes: "nl + nr \<le> 64" "nl \<le> 32" "nr \<le> 32"
  defines "blk \<equiv> push_bit nl (ucast (xr XOR (bf_P bfc ! (JOS_BF_N + 1) AND mask nr)))
                   OR ucast (xl XOR (bf_P bfc ! JOS_BF_N AND mask nl)) :: u64"
  shows "bf_dec_rounds bfc (mask nr) (mask nl) dec_indices
           (ucast (drop_bit nl blk) AND mask nr, ucast blk AND mask nl)
         = (b XOR (bf_P bfc ! 1 AND mask nr), a XOR (bf_P bfc ! 0 AND mask nl))"
proof -
  have w: "xl AND mask nl = xl" "xr AND mask nr = xr"
    using bf_enc_rounds_within [OF a b enc] by auto
  have "ucast (drop_bit nl blk) AND mask nr = xr XOR (bf_P bfc ! (JOS_BF_N + 1) AND mask nr)"
    and "ucast blk AND mask nl = xl XOR (bf_P bfc ! JOS_BF_N AND mask nl)"
    unfolding blk_def
    using unpack_high [OF xor_within_mask [OF w(1)] xor_within_mask [OF w(2)]]
      unpack_low [OF xor_within_mask [OF w(1)]] sizes by blast+
  then show ?thesis
    using bf_feistel_inverse [OF enc] by simp
qed

text \<open>
  \<open>bf64_decipher\<close> inverts \<open>bf64_encipher\<close> on every 64-bit block, for every key
  schedule.
\<close>

theorem bf64_roundtrip: "bf64_decipher bfc (bf64_encipher bfc v) = v"
proof -
  obtain xl xr where enc: "bf_enc_rounds bfc (-1) (-1) enc_indices
      (ucast (drop_bit 32 v), ucast v) = (xl, xr)" by fastforce
  have "push_bit 32 (ucast (ucast (drop_bit 32 v) :: u32)) OR ucast (ucast v :: u32) = v"
    by (rule bit_word_eqI) (auto simp: bit_simps)
  then show ?thesis
    using feistel_block_inverse [of bfc 32 32, OF enc [unfolded mask_numerals]]
    by (simp add: bf64_encipher_def bf64_decipher_def enc flip: mask_numerals)
qed

text \<open>C37: \<open>bf60_decipher\<close> inverts \<open>bf60_encipher\<close> on the 60 bits the cipher works on.\<close>

theorem bf60_roundtrip: "bf60_decipher bfc (bf60_encipher bfc v) = v AND mask 60"
proof -
  let ?a = "ucast (drop_bit 30 v) AND (mask 30 :: u32)"
  let ?b = "ucast v AND (mask 30 :: u32)"
  obtain xl xr where enc: "bf_enc_rounds bfc (mask 30) (mask 30) enc_indices (?a, ?b) = (xl, xr)"
    by fastforce
  have "push_bit 30 (ucast ?a) OR ucast ?b = v AND mask 60"
    by (rule bit_word_eqI) (auto simp: bit_simps)
  then show ?thesis
    using feistel_block_inverse [of bfc 30 30, OF enc within_mask_and within_mask_and]
    by (simp add: bf60_encipher_def bf60_decipher_def enc mask_numerals)
qed

text \<open>
  The 61-bit cipher takes its left half from bit 29 although the right half is 31 bits wide:
  bits 29 and 30 enter twice and bits 59 and 60 do not enter at all.
\<close>

definition bf61_split :: "u64 \<Rightarrow> u64" where
  "bf61_split v = push_bit 31 (drop_bit 29 v AND mask 30) OR (v AND mask 31)"

lemma bf61_decipher_encipher: "bf61_decipher bfc (bf61_encipher bfc v) = bf61_split v"
proof -
  let ?a = "ucast (drop_bit 29 v) AND (mask 30 :: u32)"
  let ?b = "ucast v AND (mask 31 :: u32)"
  obtain xl xr where enc: "bf_enc_rounds bfc (mask 30) (mask 31) enc_indices (?a, ?b) = (xl, xr)"
    by fastforce
  have "push_bit 31 (ucast ?a) OR ucast ?b = bf61_split v"
    unfolding bf61_split_def by (rule bit_word_eqI) (auto simp: bit_simps)
  then show ?thesis
    using feistel_block_inverse [of bfc 30 31, OF enc within_mask_and within_mask_and]
    by (simp add: bf61_encipher_def bf61_decipher_def enc mask_numerals)
qed

lemma bit_bf61_split:
  "bit (bf61_split v) i \<longleftrightarrow> (if i < 31 then bit v i else i < 61 \<and> bit v (i - 2))"
  by (cases "i < 64") (auto simp: bf61_split_def bit_simps bit_imp_le_length not_less
      intro!: arg_cong [where f = "bit v"] dest: bit_imp_le_length)

lemma less_exp_iff_bits:
  assumes "n < LENGTH('a)"
  shows "(v :: 'a :: len word) < 2 ^ n \<longleftrightarrow> take_bit n v = v"
  using assms by (simp add: word_2p_lem word_size mask_eq_iff [symmetric] take_bit_eq_mask)

lemma less_exp_not_bit: "(v :: 'a :: len word) < 2 ^ n \<Longrightarrow> n \<le> i \<Longrightarrow> \<not> bit v i"
  by (cases "n < LENGTH('a)")
    (metis bit_take_bit_iff linorder_not_less less_exp_iff_bits, metis bit_imp_le_length leD order.trans linorder_not_le)

lemma not_bit_less_exp:
  assumes "n < LENGTH('a)" "\<And>i. n \<le> i \<Longrightarrow> \<not> bit (v :: 'a :: len word) i"
  shows "v < 2 ^ n"
proof -
  have "take_bit n v = v"
    using assms(2) by (intro bit_word_eqI) (auto simp: bit_take_bit_iff not_le [symmetric])
  then show ?thesis using assms(1) by (simp add: less_exp_iff_bits)
qed

lemma bf61_split_fixed_iff:
  assumes "v < 2 ^ 59"
  shows "bf61_split v = v \<longleftrightarrow> v < 2 ^ 29"
proof
  assume eq: "bf61_split v = v"
  have step: "bit v i \<Longrightarrow> 29 \<le> i \<Longrightarrow> bit v (i + 2)" for i
    using eq less_exp_not_bit [OF assms, of i] bit_bf61_split [of v "i + 2"] by force
  have "\<not> bit v i" if "29 \<le> i" for i
  proof
    assume "bit v i"
    then have "bit v (i + 2 * k)" for k
      using step [of "i + 2 * k" for k] that by (induction k) auto
    then have "bit v (i + 2 * 64)" .
    then show False using bit_imp_le_length by fastforce
  qed
  then show "v < 2 ^ 29" by (intro not_bit_less_exp) simp_all
next
  assume v: "v < 2 ^ 29"
  show "bf61_split v = v"
    by (intro bit_word_eqI) (use less_exp_not_bit [OF v] in \<open>auto simp: bit_bf61_split\<close>)
qed

lemma bf61_split_inj:
  assumes "bf61_split v = bf61_split w" "v < 2 ^ 59" "w < 2 ^ 59"
  shows "v = w"
proof (rule bit_word_eqI)
  fix i assume "i < LENGTH(64)"
  show "bit v i = bit w i"
  proof (cases "i < 31")
    case True
    then show ?thesis using assms(1) bit_bf61_split [of v i] bit_bf61_split [of w i] by simp
  next
    case False
    then show ?thesis
      using assms(1) bit_bf61_split [of v "i + 2"] bit_bf61_split [of w "i + 2"]
        less_exp_not_bit [OF assms(2), of i] less_exp_not_bit [OF assms(3), of i]
      by (cases "i < 59") auto
  qed
qed

lemma bf61_encipher_split: "bf61_encipher bfc v = bf61_encipher bfc w \<longleftrightarrow> bf61_split v = bf61_split w"
proof
  assume "bf61_split v = bf61_split w"
  then have b: "bit (bf61_split v) i = bit (bf61_split w) i" for i by simp
  have "bit v (29 + i) = bit w (29 + i)" if "i < 30" for i
    using b [of "i + 31"] that by (simp add: bit_bf61_split add.commute)
  then have "ucast (drop_bit 29 v) AND (mask 30 :: u32) = ucast (drop_bit 29 w) AND mask 30"
    by (intro bit_word_eqI) (auto simp: bit_simps)
  moreover have "bit v i = bit w i" if "i < 31" for i
    using b [of i] that by (simp add: bit_bf61_split)
  then have "ucast v AND (mask 31 :: u32) = ucast w AND mask 31"
    by (intro bit_word_eqI) (auto simp: bit_simps)
  ultimately show "bf61_encipher bfc v = bf61_encipher bfc w"
    by (simp add: bf61_encipher_def mask_numerals)
qed (metis bf61_decipher_encipher)

lemma bf61_encipher_within: "bf61_encipher bfc v AND mask 61 = bf61_encipher bfc v"
proof -
  let ?a = "ucast (drop_bit 29 v) AND (mask 30 :: u32)"
  let ?b = "ucast v AND (mask 31 :: u32)"
  obtain xl xr where enc: "bf_enc_rounds bfc (mask 30) (mask 31) enc_indices (?a, ?b) = (xl, xr)"
    by fastforce
  define h where "h = xr XOR (bf_P bfc ! (JOS_BF_N + 1) AND mask 31)"
  define l where "l = xl XOR (bf_P bfc ! JOS_BF_N AND mask 30)"
  have "xl AND mask 30 = xl \<and> xr AND mask 31 = xr"
    by (rule bf_enc_rounds_within [OF _ _ enc]) (simp_all add: within_mask_and)
  then have w: "h AND mask 31 = h" "l AND mask 30 = l"
    unfolding h_def l_def by (auto intro: xor_within_mask)
  have e: "bf61_encipher bfc v = push_bit 30 (ucast h) OR ucast l"
    by (simp add: bf61_encipher_def mask_numerals enc h_def l_def)
  show ?thesis
    unfolding e
    by (rule bit_word_eqI) (auto simp: bit_simps dest: and_mask_bit [OF w(1)] and_mask_bit [OF w(2)])
qed

text \<open>A concrete key schedule, for the witnesses below.\<close>

definition bf_zero :: bf_ctx where
  "bf_zero = \<lparr> bf_P = replicate 18 0, bf_S = replicate 4 (replicate 256 0) \<rparr>"

text \<open>
  C38: among the values below \<open>2 ^ 59\<close>, \<open>bf61_decipher\<close> recovers exactly those below
  \<open>2 ^ 29\<close> from their \<open>bf61_encipher\<close>. The left half is taken from bit 29 where bit 31 was
  meant, so the 61-bit cipher is not invertible by its own deciphering routine.
\<close>

theorem bf61_roundtrip_iff:
  assumes "v < 2 ^ 59"
  shows "bf61_decipher bfc (bf61_encipher bfc v) = v \<longleftrightarrow> v < 2 ^ 29"
  using bf61_split_fixed_iff [OF assms] by (simp add: bf61_decipher_encipher)

theorem bf61_roundtrip_iff_witness:
  "bf61_decipher bf_zero (bf61_encipher bf_zero 12345) = 12345 \<and>
   bf61_decipher bf_zero (bf61_encipher bf_zero 0x20000000) \<noteq> 0x20000000"
  using bf61_roundtrip_iff [of 12345 bf_zero] bf61_roundtrip_iff [of "0x20000000" bf_zero] by simp

text \<open>\<open>bf61_encipher\<close> is injective on the values below \<open>2 ^ 59\<close>, whatever the key.\<close>

theorem bf61_encipher_inj:
  assumes "bf61_encipher bfc v = bf61_encipher bfc w" "v < 2 ^ 59" "w < 2 ^ 59"
  shows "v = w"
  using assms by (auto simp: bf61_encipher_split intro: bf61_split_inj)

theorem bf61_encipher_inj_witness:
  "bf61_encipher bf_zero 5 = bf61_encipher bf_zero (2 + 3) \<and> (5 :: u64) = 2 + 3"
  using bf61_encipher_inj [of bf_zero 5 "2 + 3"] by simp

text \<open>
  C39: \<open>bf61_encipher\<close> does not depend on bits 59 and 60 of its argument: two counters that
  differ only there get the same block, and its result always has 61 bits.
\<close>

theorem bf61_encipher_collision:
  "bf61_encipher bfc v = bf61_encipher bfc (v AND mask 59) \<and> bf61_encipher bfc v < 2 ^ 61"
proof
  have "bf61_split v = bf61_split (v AND mask 59)"
    by (rule bit_word_eqI) (auto simp: bit_bf61_split bit_simps)
  then show "bf61_encipher bfc v = bf61_encipher bfc (v AND mask 59)"
    by (simp only: bf61_encipher_split)
  have "take_bit 61 (bf61_encipher bfc v) = bf61_encipher bfc v"
    using bf61_encipher_within [of bfc v] by (simp only: take_bit_eq_mask)
  then show "bf61_encipher bfc v < 2 ^ 61"
    by (subst less_exp_iff_bits) simp_all
qed

end
