(* ===== verification/Hashtable.thy ===== *)
theory Hashtable
  imports Prelude
begin

unbundle bit_operations_syntax

text \<open>
  The open-addressing hash table of \<^verbatim>\<open>src/lib/hashtable.c\<close>, with its two storage layouts (one
  array, or an array of pages), deletion by tombstones and the iterator. The write log keeps
  its map from disk offsets to log offsets in one of these tables.

  The table is a finite map from keys to values as long as no key sits in two slots. \<open>hash_put\<close>
  stops at the first tombstone without looking whether the key is further along its probe
  sequence, so it can break that; the lemmas below say which laws survive (those of lookup
  after insertion) and which do not (those of deletion).
\<close>

subsection \<open>Data\<close>

record hashentry =
  he_key :: u64
  he_val :: u64

text \<open>
  \<open>entry\<close> and \<open>entry2\<close> are a union in the source, told apart by \<open>pgents\<close>.
\<close>

record hashtable =
  entry :: "hashentry list"
  entry2 :: "hashentry list list"
  capacity :: nat
  ht_size :: int
  pgents :: nat

record hashiter =
  hi_index :: nat
  hi_key :: u64
  hi_val :: u64

definition TOMB :: u64 where
  "TOMB = 0xFFFFFFFFFFFFFFFF"

subsection \<open>The hash function\<close>

definition mix64_step :: "nat \<Rightarrow> nat \<Rightarrow> nat \<Rightarrow> u64 \<times> u64 \<times> u64 \<Rightarrow> u64 \<times> u64 \<times> u64" where
  "mix64_step i j k = (\<lambda>(a, b, c).
     let a = (a - b - c) XOR drop_bit i c;
         b = (b - c - a) XOR push_bit j a;
         c = (c - a - b) XOR drop_bit k b
     in (a, b, c))"

definition mix64 :: "u64 \<times> u64 \<times> u64 \<Rightarrow> u64 \<times> u64 \<times> u64" where
  "mix64 x = mix64_step 12 18 22 (mix64_step 35 49 11 (mix64_step 38 23 5 (mix64_step 43 9 8 x)))"

fun hash2_loop :: "u64 list \<Rightarrow> u64 \<times> u64 \<times> u64 \<Rightarrow> u64 list \<times> u64 \<times> u64 \<times> u64" where
  "hash2_loop (k0 # k1 # k2 # ks) (a, b, c) = hash2_loop ks (mix64 (a + k0, b + k1, c + k2))"
| "hash2_loop ks abc = (ks, abc)"

definition hash2 :: "u64 list \<Rightarrow> u64 \<Rightarrow> u64" where
  "hash2 k level =
     (case hash2_loop k (level, level, 0x9e3779b97f4a7c13) of
        (rest, a, b, c) \<Rightarrow>
          let c = c + of_nat (length k);
              b = (case rest of [_, k1] \<Rightarrow> b + k1 | _ \<Rightarrow> b);
              a = (case rest of k0 # _ \<Rightarrow> a + k0 | _ \<Rightarrow> a)
          in snd (snd (mix64 (a, b, c))))"

subsection \<open>Operations\<close>

definition hash_ent :: "hashtable \<Rightarrow> nat \<Rightarrow> hashentry" where
  "hash_ent t idx =
     (if pgents t \<noteq> 0 then entry2 t ! (idx div pgents t) ! (idx mod pgents t) else entry t ! idx)"

definition hash_ent_set :: "hashtable \<Rightarrow> nat \<Rightarrow> hashentry \<Rightarrow> hashtable" where
  "hash_ent_set t idx e =
     (if pgents t \<noteq> 0
      then t\<lparr> entry2 := (entry2 t)[idx div pgents t :=
                 (entry2 t ! (idx div pgents t))[idx mod pgents t := e]] \<rparr>
      else t\<lparr> entry := (entry t)[idx := e] \<rparr>)"

definition hash_probe :: "hashtable \<Rightarrow> u64 \<Rightarrow> nat \<Rightarrow> nat" where
  "hash_probe t key i = unat ((hash2 [key] 0xDEADBEEF + of_nat i) mod of_nat (capacity t))"

text \<open>
  The loop of \<^verbatim>\<open>hash_put\<close>: the slot at which it breaks, or the last one it looked at;
  \<open>None\<close> is the null pointer \<open>e\<close> starts as.
\<close>

fun hash_put_loop :: "hashtable \<Rightarrow> u64 \<Rightarrow> nat list \<Rightarrow> nat option \<Rightarrow> nat option" where
  "hash_put_loop t key [] e = e"
| "hash_put_loop t key (i # is) e =
     (let probe = hash_probe t key i; k = he_key (hash_ent t probe)
      in if k = 0 \<or> k = TOMB \<or> k = key then Some probe else hash_put_loop t key is (Some probe))"

definition hash_put :: "u64 \<Rightarrow> u64 \<Rightarrow> (hashtable, unit) km" where
  "hash_put key val t =
     (if key = 0 \<or> key = TOMB then (Err E_INVAL, t)
      else if ht_size t = int (capacity t) then (Err E_NO_SPACE, t)
      else case hash_put_loop t key [0..<capacity t] None of
             None \<Rightarrow> (Panic, t)
           | Some e \<Rightarrow>
               let oldkey = he_key (hash_ent t e);
                   t' = (if oldkey \<noteq> key then t\<lparr> ht_size := ht_size t + 1 \<rparr> else t)
               in if oldkey \<noteq> key \<and> oldkey \<noteq> 0 \<and> oldkey \<noteq> TOMB then (Panic, t)
                  else (Ret (), hash_ent_set t' e \<lparr> he_key = key, he_val = val \<rparr>))"

text \<open>The loop \<^verbatim>\<open>hash_get\<close> and \<^verbatim>\<open>hash_del\<close> share: stop at the key, give up at an empty slot.\<close>

fun hash_find :: "hashtable \<Rightarrow> u64 \<Rightarrow> nat list \<Rightarrow> nat option" where
  "hash_find t key [] = None"
| "hash_find t key (i # is) =
     (let probe = hash_probe t key i; k = he_key (hash_ent t probe)
      in if k = key then Some probe else if k = 0 then None else hash_find t key is)"

definition hash_get :: "hashtable \<Rightarrow> u64 \<Rightarrow> err + u64" where
  "hash_get t key =
     (if key = 0 \<or> key = TOMB then Inl E_INVAL
      else case hash_find t key [0..<capacity t] of
             Some e \<Rightarrow> Inr (he_val (hash_ent t e))
           | None \<Rightarrow> Inl E_NOT_FOUND)"

definition hash_del :: "u64 \<Rightarrow> (hashtable, unit) km" where
  "hash_del key t =
     (if key = 0 \<or> key = TOMB then (Err E_INVAL, t)
      else case hash_find t key [0..<capacity t] of
             Some e \<Rightarrow>
               (Ret (), (hash_ent_set t e \<lparr> he_key = TOMB, he_val = 0 \<rparr>)\<lparr> ht_size := ht_size t - 1 \<rparr>)
           | None \<Rightarrow> (Err E_NOT_FOUND, t))"

definition hash_init :: "hashtable \<Rightarrow> nat \<Rightarrow> hashtable" where
  "hash_init t n =
     t\<lparr> entry := replicate n \<lparr> he_key = 0, he_val = 0 \<rparr>, capacity := n, ht_size := 0, pgents := 0 \<rparr>"

text \<open>\<^verbatim>\<open>hash_init2\<close> clears the slots of the pages it is handed; a hash entry takes 16 bytes.\<close>

definition hash_init2 :: "hashtable \<Rightarrow> hashentry list list \<Rightarrow> nat \<Rightarrow> nat \<Rightarrow> hashtable" where
  "hash_init2 t back n pgsize =
     fold (\<lambda>i t. hash_ent_set t i \<lparr> he_key = 0, he_val = 0 \<rparr>) [0..<n]
       (t\<lparr> entry2 := back, capacity := n, ht_size := 0, pgents := pgsize div 16 \<rparr>)"

definition hashiter_init :: hashiter where
  "hashiter_init = \<lparr> hi_index = 0, hi_key = 0, hi_val = 0 \<rparr>"

fun hashiter_scan :: "hashtable \<Rightarrow> nat list \<Rightarrow> hashiter option" where
  "hashiter_scan t [] = None"
| "hashiter_scan t (i # is) =
     (let e = hash_ent t i
      in if he_key e \<noteq> 0 \<and> he_key e \<noteq> TOMB
         then Some \<lparr> hi_index = i + 1, hi_key = he_key e, hi_val = he_val e \<rparr>
         else hashiter_scan t is)"

text \<open>\<open>None\<close> is the return value 0, \<open>Some\<close> the advanced iterator with return value 1.\<close>

definition hashiter_next :: "hashtable \<Rightarrow> hashiter \<Rightarrow> hashiter option" where
  "hashiter_next t iter = hashiter_scan t [hi_index iter..<capacity t]"

subsection \<open>Well-formed tables and the map they represent\<close>

abbreviation slot_key :: "hashtable \<Rightarrow> nat \<Rightarrow> u64" where
  "slot_key t s \<equiv> he_key (hash_ent t s)"

definition live :: "u64 \<Rightarrow> bool" where
  "live k \<longleftrightarrow> k \<noteq> 0 \<and> k \<noteq> TOMB"

definition ht_shape :: "hashtable \<Rightarrow> bool" where
  "ht_shape t \<longleftrightarrow> capacity t < 2 ^ 31 \<and>
     (if pgents t \<noteq> 0
      then \<forall>i < capacity t. i div pgents t < length (entry2 t) \<and>
             i mod pgents t < length (entry2 t ! (i div pgents t))
      else capacity t \<le> length (entry t))"

text \<open>Every live key can be reached: no empty slot precedes it on its own probe sequence.\<close>

definition ht_wf :: "hashtable \<Rightarrow> bool" where
  "ht_wf t \<longleftrightarrow> ht_shape t \<and>
     (\<forall>s < capacity t. live (slot_key t s) \<longrightarrow>
        (\<exists>j < capacity t. hash_probe t (slot_key t s) j = s \<and>
           (\<forall>i < j. slot_key t (hash_probe t (slot_key t s) i) \<noteq> 0)))"

definition ht_lookup :: "hashtable \<Rightarrow> u64 \<Rightarrow> u64 option" where
  "ht_lookup t k = (case hash_get t k of Inl _ \<Rightarrow> None | Inr v \<Rightarrow> Some v)"

definition ht_distinct :: "hashtable \<Rightarrow> bool" where
  "ht_distinct t \<longleftrightarrow> (\<forall>s < capacity t. \<forall>s' < capacity t.
     live (slot_key t s) \<longrightarrow> slot_key t s = slot_key t s' \<longrightarrow> s = s')"

definition ht_counted :: "hashtable \<Rightarrow> bool" where
  "ht_counted t \<longleftrightarrow> ht_size t = int (card {s. s < capacity t \<and> live (slot_key t s)})"

subsection \<open>Storage\<close>

lemma live_not [simp]: "\<not> live 0" "\<not> live TOMB"
  by (simp_all add: live_def)

lemma TOMB_nonzero [simp]: "TOMB \<noteq> 0"
  by (simp add: TOMB_def)

lemma hash_ent_set_fields [simp]:
  "capacity (hash_ent_set t i e) = capacity t" "ht_size (hash_ent_set t i e) = ht_size t"
  "pgents (hash_ent_set t i e) = pgents t"
  by (simp_all add: hash_ent_set_def)

lemma hash_ent_size [simp]: "hash_ent (t\<lparr> ht_size := n \<rparr>) = hash_ent t"
  by (simp add: hash_ent_def fun_eq_iff)

lemma hash_probe_cong [simp]:
  "hash_probe (hash_ent_set t i e) = hash_probe t" "hash_probe (t\<lparr> ht_size := n \<rparr>) = hash_probe t"
  by (simp_all add: hash_probe_def fun_eq_iff)

lemma ht_shape_size [simp]: "ht_shape (t\<lparr> ht_size := n \<rparr>) = ht_shape t"
  by (simp add: ht_shape_def)

lemma hash_ent_set_other:
  assumes "ht_shape t" "i < capacity t" "j < capacity t"
  shows "hash_ent (hash_ent_set t i e) j = (if i = j then e else hash_ent t j)"
proof (cases "pgents t = 0")
  case True
  then show ?thesis using assms by (simp add: ht_shape_def hash_ent_def hash_ent_set_def nth_list_update)
next
  case False
  have eq: "i div pgents t = j div pgents t \<Longrightarrow> i mod pgents t = j mod pgents t \<longleftrightarrow> i = j"
    by (metis div_mult_mod_eq)
  show ?thesis
  proof (cases "i div pgents t = j div pgents t")
    case True
    then show ?thesis
      using assms \<open>pgents t \<noteq> 0\<close> eq [OF True]
      by (auto simp: ht_shape_def hash_ent_def hash_ent_set_def nth_list_update)
  next
    case False
    then show ?thesis
      using assms \<open>pgents t \<noteq> 0\<close> by (auto simp: hash_ent_def hash_ent_set_def)
  qed
qed

lemma ht_shape_set [simp]:
  assumes "ht_shape t"
  shows "ht_shape (hash_ent_set t i e)"
proof -
  have "length ((entry2 t)[p := (entry2 t ! p)[q := e]] ! r) = length (entry2 t ! r)" for p q r
    by (cases "p < length (entry2 t)"; cases "p = r") (auto simp: list_update_beyond)
  then show ?thesis using assms by (auto simp: ht_shape_def hash_ent_set_def)
qed

lemma hash_probe_unat:
  "ht_shape t \<Longrightarrow> hash_probe t k i = unat (hash2 [k] 0xDEADBEEF + of_nat i) mod capacity t"
  by (simp add: hash_probe_def ht_shape_def unat_mod_distrib unat_of_nat)

lemma hash_probe_less: "ht_shape t \<Longrightarrow> i < capacity t \<Longrightarrow> hash_probe t k i < capacity t"
  by (simp add: hash_probe_unat)

subsection \<open>What the two probing loops find\<close>

lemma hash_find_Some:
  assumes "hash_find t k [m..<n] = Some s"
  obtains j where "m \<le> j" "j < n" "s = hash_probe t k j" "slot_key t s = k"
    "\<And>i. m \<le> i \<Longrightarrow> i < j \<Longrightarrow> slot_key t (hash_probe t k i) \<noteq> k \<and> slot_key t (hash_probe t k i) \<noteq> 0"
proof -
  have "\<exists>j\<ge>m. j < n \<and> s = hash_probe t k j \<and> slot_key t s = k \<and>
    (\<forall>i. m \<le> i \<longrightarrow> i < j \<longrightarrow> slot_key t (hash_probe t k i) \<noteq> k \<and> slot_key t (hash_probe t k i) \<noteq> 0)"
    using assms
  proof (induction "n - m" arbitrary: m)
    case (Suc d)
    then have mn: "[m..<n] = m # [Suc m..<n]" by (simp add: upt_conv_Cons)
    show ?case
    proof (cases "slot_key t (hash_probe t k m) = k")
      case True
      then show ?thesis using Suc.prems Suc.hyps(2) mn by (intro exI [of _ m]) (auto simp: Let_def)
    next
      case False
      then have nz: "slot_key t (hash_probe t k m) \<noteq> 0" "hash_find t k [Suc m..<n] = Some s"
        using Suc.prems mn by (auto simp: Let_def split: if_splits)
      obtain j where "j \<ge> Suc m" "j < n" "s = hash_probe t k j" "slot_key t s = k"
        "\<forall>i. Suc m \<le> i \<longrightarrow> i < j \<longrightarrow> slot_key t (hash_probe t k i) \<noteq> k \<and> slot_key t (hash_probe t k i) \<noteq> 0"
        using Suc.hyps(1) [of "Suc m", OF _ nz(2)] Suc.hyps(2) by (metis Suc_diff_Suc diff_Suc_1 zero_less_Suc zero_less_diff)
      then show ?thesis
        using False nz(1) by (intro exI [of _ j]) (metis Suc_leD Suc_leI le_neq_implies_less)
    qed
  qed simp
  then show thesis using that by blast
qed

lemma hash_find_hit:
  assumes "m \<le> j" "j < n" "slot_key t (hash_probe t k j) = k"
    and "\<And>i. m \<le> i \<Longrightarrow> i < j \<Longrightarrow> slot_key t (hash_probe t k i) \<noteq> k \<and> slot_key t (hash_probe t k i) \<noteq> 0"
  shows "hash_find t k [m..<n] = Some (hash_probe t k j)"
  using assms
proof (induction "j - m" arbitrary: m)
  case 0
  then show ?case by (simp add: upt_conv_Cons Let_def)
next
  case (Suc d)
  then have "hash_find t k [Suc m..<n] = Some (hash_probe t k j)" by auto
  then show ?case using Suc by (simp add: upt_conv_Cons Let_def)
qed

lemma hash_put_loop_cases:
  obtains (hit) j where "m \<le> j" "j < n" "hash_put_loop t k [m..<n] e = Some (hash_probe t k j)"
      "slot_key t (hash_probe t k j) \<in> {0, TOMB, k}"
      "\<And>i. m \<le> i \<Longrightarrow> i < j \<Longrightarrow> slot_key t (hash_probe t k i) \<notin> {0, TOMB, k}"
  | (miss) "\<And>i. m \<le> i \<Longrightarrow> i < n \<Longrightarrow> slot_key t (hash_probe t k i) \<notin> {0, TOMB, k}"
      "hash_put_loop t k [m..<n] e = (if m < n then Some (hash_probe t k (n - 1)) else e)"
proof (induction "n - m" arbitrary: m e thesis)
  case 0
  then show ?case by simp
next
  case (Suc d)
  have mn: "[m..<n] = m # [Suc m..<n]" using Suc.hyps(2) by (simp add: upt_conv_Cons)
  show ?case
  proof (cases "slot_key t (hash_probe t k m) \<in> {0, TOMB, k}")
    case True
    then show ?thesis
      using Suc.hyps(2) by (intro Suc.prems(1) [of m]) (auto simp: mn Let_def)
  next
    case False
    have step: "hash_put_loop t k [m..<n] e = hash_put_loop t k [Suc m..<n] (Some (hash_probe t k m))"
      using False by (simp add: mn Let_def)
    have d: "d = n - Suc m" using Suc.hyps(2) by simp
    show ?thesis
    proof (rule Suc.hyps(1) [OF d, of "Some (hash_probe t k m)"], goal_cases)
      case (1 j)
      then show ?case
        using False step by (intro Suc.prems(1) [of j]) (metis Suc_leD Suc_leI le_neq_implies_less)+
    next
      case 2
      then show ?case
        using False step d Suc.hyps(2)
        by (intro Suc.prems(2)) (metis Suc_leI le_neq_implies_less,
            cases "Suc m = n", auto simp: not_less)
    qed
  qed
qed

lemma ht_wf_shape: "ht_wf t \<Longrightarrow> ht_shape t"
  by (simp add: ht_wf_def)

lemma hash_find_slot:
  assumes "hash_find t k [0..<capacity t] = Some s" "ht_shape t"
  shows "s < capacity t \<and> slot_key t s = k"
  using assms by (elim hash_find_Some) (auto simp: hash_probe_less)

text \<open>In a well-formed table the search for a live key misses only if no slot holds it.\<close>

lemma hash_find_complete:
  assumes wf: "ht_wf t" and s: "s < capacity t" "slot_key t s = k" and k: "live k"
  shows "hash_find t k [0..<capacity t] \<noteq> None"
proof -
  obtain j where j: "j < capacity t" "hash_probe t k j = s"
      "\<And>i. i < j \<Longrightarrow> slot_key t (hash_probe t k i) \<noteq> 0"
    using wf s k by (auto simp: ht_wf_def)
  define m where "m = (LEAST m. slot_key t (hash_probe t k m) = k)"
  have hit: "slot_key t (hash_probe t k m) = k"
    unfolding m_def using LeastI [of "\<lambda>m. slot_key t (hash_probe t k m) = k" j] j(2) s(2) by simp
  have "m \<le> j"
    unfolding m_def using Least_le [of "\<lambda>m. slot_key t (hash_probe t k m) = k" j] j(2) s(2) by simp
  moreover have "slot_key t (hash_probe t k i) \<noteq> k" if "i < m" for i
    using that not_less_Least unfolding m_def by blast
  ultimately have "hash_find t k [0..<capacity t] = Some (hash_probe t k m)"
    using hit j by (intro hash_find_hit) (auto simp: dest: order.strict_trans2)
  then show ?thesis by simp
qed

lemma hash_find_None_iff:
  "ht_wf t \<Longrightarrow> live k \<Longrightarrow>
   hash_find t k [0..<capacity t] = None \<longleftrightarrow> (\<forall>s < capacity t. slot_key t s \<noteq> k)"
  using hash_find_complete hash_find_slot ht_wf_shape by (metis option.collapse)

lemma ht_lookup_find:
  "ht_lookup t k = (if live k then map_option (\<lambda>s. he_val (hash_ent t s))
                      (hash_find t k [0..<capacity t]) else None)"
  by (simp add: ht_lookup_def hash_get_def live_def split: option.split)

text \<open>
  Writing an entry over a slot whose key is neither empty nor \<open>k'\<close>, or is empty but held no
  chain of \<open>k'\<close> together, leaves the lookup of \<open>k'\<close> alone.
\<close>

lemma ht_lookup_set_other:
  assumes wf: "ht_wf t" and e: "e < capacity t"
    and old: "slot_key t e \<noteq> k'" and new: "he_key x \<noteq> k'" "he_key x \<noteq> 0"
  shows "ht_lookup (hash_ent_set t e x) k' = ht_lookup t k'"
proof (cases "live k'")
  case True
  let ?t = "hash_ent_set t e x"
  note upd = hash_ent_set_other [OF ht_wf_shape [OF wf] e]
  note less = hash_probe_less [OF ht_wf_shape [OF wf]]
  show ?thesis
  proof (cases "hash_find t k' [0..<capacity t]")
    case None
    then have "\<forall>s < capacity t. slot_key ?t s \<noteq> k'"
      using wf True new(1) by (simp add: hash_find_None_iff upd)
    then have "hash_find ?t k' [0..<capacity t] = None"
      using hash_find_slot [of ?t k'] ht_wf_shape [OF wf] by (metis hash_ent_set_fields(1) ht_shape_set option.exhaust)
    then show ?thesis using None by (simp add: ht_lookup_find)
  next
    case (Some s)
    then obtain j where j: "j < capacity t" "s = hash_probe t k' j" "slot_key t s = k'"
        "\<And>i. i < j \<Longrightarrow> slot_key t (hash_probe t k' i) \<noteq> k' \<and> slot_key t (hash_probe t k' i) \<noteq> 0"
      by (elim hash_find_Some) auto
    have ne: "e \<noteq> s" using old j(3) by auto
    have "hash_find ?t k' [0..<capacity t] = Some s"
      unfolding j(2)
      by (rule hash_find_hit [of 0 j, where t = ?t, simplified])
        (use j ne new in \<open>auto simp: upd less\<close>)
    then show ?thesis using Some ne hash_find_slot [OF Some ht_wf_shape [OF wf]]
      by (simp add: ht_lookup_find upd)
  qed
qed (simp add: ht_lookup_find)

text \<open>Overwriting a slot keeps every chain intact when the new key is not the empty one.\<close>

lemma ht_wf_set:
  assumes wf: "ht_wf t" and e: "e < capacity t" and new: "he_key x \<noteq> 0"
    and chain: "live (he_key x) \<Longrightarrow> \<exists>j < capacity t. hash_probe t (he_key x) j = e \<and>
                  (\<forall>i < j. slot_key t (hash_probe t (he_key x) i) \<noteq> 0)"
  shows "ht_wf (hash_ent_set t e x)"
proof -
  let ?t = "hash_ent_set t e x"
  note upd = hash_ent_set_other [OF ht_wf_shape [OF wf] e]
  note less = hash_probe_less [OF ht_wf_shape [OF wf]]
  have nz: "slot_key t s \<noteq> 0 \<Longrightarrow> s < capacity t \<Longrightarrow> slot_key ?t s \<noteq> 0" for s
    using new by (simp add: upd)
  have "\<exists>j < capacity t. hash_probe t (slot_key ?t s) j = s \<and>
          (\<forall>i < j. slot_key ?t (hash_probe t (slot_key ?t s) i) \<noteq> 0)"
    if s: "s < capacity t" "live (slot_key ?t s)" for s
  proof -
    have "slot_key ?t s = (if e = s then he_key x else slot_key t s)"
      by (simp add: upd s)
    then have "\<exists>j < capacity t. hash_probe t (slot_key ?t s) j = s \<and>
            (\<forall>i < j. slot_key t (hash_probe t (slot_key ?t s) i) \<noteq> 0)"
      using chain wf s by (auto simp: ht_wf_def split: if_splits)
    then show ?thesis using nz less by (meson order.strict_trans)
  qed
  then show ?thesis using ht_wf_shape [OF wf] by (simp add: ht_wf_def)
qed

lemma ht_wf_size [simp]: "ht_wf (t\<lparr> ht_size := n \<rparr>) = ht_wf t"
  by (simp add: ht_wf_def)

lemma hash_find_size [simp]: "hash_find (t\<lparr> ht_size := n \<rparr>) k is = hash_find t k is"
  by (induction "is") (simp_all add: Let_def)

lemma ht_lookup_size [simp]: "ht_lookup (t\<lparr> ht_size := n \<rparr>) = ht_lookup t"
  by (simp add: ht_lookup_find fun_eq_iff)

lemma hash_ent_set_size: "hash_ent_set (t\<lparr> ht_size := n \<rparr>) e x = (hash_ent_set t e x)\<lparr> ht_size := n \<rparr>"
  by (simp add: hash_ent_set_def)

lemma hash_ent_set_size_self [simp]: "(hash_ent_set t e x)\<lparr> ht_size := ht_size t \<rparr> = hash_ent_set t e x"
  by (simp add: hash_ent_set_def)

subsection \<open>The laws of insertion and deletion\<close>

text \<open>A successful \<open>hash_put\<close> writes the first usable slot of the key's probe sequence.\<close>

lemma hash_put_Ret:
  assumes put: "hash_put k v t = (Ret (), t')"
  obtains j e where "live k" "j < capacity t" "e = hash_probe t k j" "slot_key t e \<in> {0, TOMB, k}"
    "\<And>i. i < j \<Longrightarrow> slot_key t (hash_probe t k i) \<notin> {0, TOMB, k}"
    "t' = (hash_ent_set t e \<lparr> he_key = k, he_val = v \<rparr>)
            \<lparr> ht_size := (if slot_key t e = k then ht_size t else ht_size t + 1) \<rparr>"
proof (cases rule: hash_put_loop_cases [where m = 0 and n = "capacity t" and t = t and k = k and e = None])
  case (hit j)
  have k: "live k"
    using put by (auto simp: hash_put_def live_def split: if_splits)
  have "t' = (hash_ent_set t (hash_probe t k j) \<lparr> he_key = k, he_val = v \<rparr>)
      \<lparr> ht_size := (if slot_key t (hash_probe t k j) = k then ht_size t else ht_size t + 1) \<rparr>"
    using put hit(3,4) k
    by (auto simp: hash_put_def live_def Let_def hash_ent_set_size split: if_splits)
  then show thesis
    using hit(5) by (rule that [OF k hit(2) refl hit(4), rotated]) simp
next
  case miss
  have "hash_put k v t \<noteq> (Ret (), t')"
  proof (cases "capacity t = 0")
    case True
    then show ?thesis by (simp add: hash_put_def)
  next
    case False
    then have "slot_key t (hash_probe t k (capacity t - 1)) \<notin> {0, TOMB, k}"
      using miss(1) by simp
    moreover have "hash_put_loop t k [0..<capacity t] None = Some (hash_probe t k (capacity t - 1))"
      using miss(2) False by simp
    ultimately show ?thesis unfolding hash_put_def by (simp add: Let_def)
  qed
  then show thesis using put by contradiction
qed

lemma hash_put_wf_lookup:
  assumes wf: "ht_wf t" and put: "hash_put k v t = (Ret (), t')"
  shows "ht_wf t' \<and> ht_lookup t' = (ht_lookup t)(k \<mapsto> v)"
  using put
proof (rule hash_put_Ret)
  fix j e
  let ?x = "\<lparr> he_key = k, he_val = v \<rparr>"
  assume k: "live k" and j: "j < capacity t" "e = hash_probe t k j"
    and old: "slot_key t e \<in> {0, TOMB, k}"
    and before: "\<And>i. i < j \<Longrightarrow> slot_key t (hash_probe t k i) \<notin> {0, TOMB, k}"
    and t': "t' = (hash_ent_set t e ?x)\<lparr> ht_size := (if slot_key t e = k then ht_size t else ht_size t + 1) \<rparr>"
  note shape = ht_wf_shape [OF wf]
  have e: "e < capacity t" using j shape by (simp add: hash_probe_less)
  note upd = hash_ent_set_other [OF shape e]
  have "ht_wf (hash_ent_set t e ?x)"
    using j before k by (intro ht_wf_set [OF wf e]) (auto simp: live_def)
  moreover have "ht_lookup (hash_ent_set t e ?x) k' = ((ht_lookup t)(k \<mapsto> v)) k'" for k'
  proof (cases "k' = k")
    case True
    have ne: "hash_probe t k i \<noteq> hash_probe t k j" if "i < j" for i
      using before [OF that] old j(2) by auto
    have "hash_find (hash_ent_set t e ?x) k [0..<capacity t] = Some (hash_probe t k j)"
      by (rule hash_find_hit [of 0 j, where t = "hash_ent_set t e ?x", simplified])
        (use j before shape ne [symmetric] in \<open>simp_all add: hash_ent_set_other hash_probe_less\<close>)
    then show ?thesis using True k j e shape by (simp add: ht_lookup_find hash_ent_set_other)
  next
    case False
    then show ?thesis
    proof (cases "live k'")
      case True
      then show ?thesis using False old k
        by (subst ht_lookup_set_other [OF wf e]) (auto simp: live_def)
    qed (simp add: ht_lookup_find)
  qed
  then have "ht_lookup (hash_ent_set t e ?x) = (ht_lookup t)(k \<mapsto> v)" by (rule ext)
  ultimately show ?thesis by (simp add: t')
qed

lemma hash_del_cases:
  assumes del: "hash_del k t = (r, t')"
  obtains (found) e where "live k" "hash_find t k [0..<capacity t] = Some e" "r = Ret ()"
      "t' = (hash_ent_set t e \<lparr> he_key = TOMB, he_val = 0 \<rparr>)\<lparr> ht_size := ht_size t - 1 \<rparr>"
  | (missing) "live k" "hash_find t k [0..<capacity t] = None" "r = Err E_NOT_FOUND" "t' = t"
  | (invalid) "\<not> live k" "r = Err E_INVAL" "t' = t"
proof (cases "live k")
  case True
  show thesis
  proof (cases "hash_find t k [0..<capacity t]")
    case None
    then show thesis using True del by (intro missing) (simp_all add: hash_del_def live_def)
  next
    case (Some e)
    then show thesis using True del by (intro found [of e]) (simp_all add: hash_del_def live_def)
  qed
next
  case False
  then show thesis using del by (intro invalid) (auto simp: hash_del_def live_def)
qed

lemma hash_del_wf_lookup_other:
  assumes wf: "ht_wf t" and del: "hash_del k t = (r, t')"
  shows "ht_wf t' \<and> (k' \<noteq> k \<longrightarrow> ht_lookup t' k' = ht_lookup t k')"
  using del
proof (cases rule: hash_del_cases)
  case (found e)
  then have e: "e < capacity t" "slot_key t e = k"
    using hash_find_slot ht_wf_shape [OF wf] by auto
  have "ht_lookup (hash_ent_set t e \<lparr> he_key = TOMB, he_val = 0 \<rparr>) k' = ht_lookup t k'" if "k' \<noteq> k"
    using ht_lookup_set_other [OF wf e(1), of k' "\<lparr> he_key = TOMB, he_val = 0 \<rparr>"] e(2) that
    by (cases "live k'") (auto simp: live_def ht_lookup_find)
  then show ?thesis
    using found ht_wf_set [OF wf e(1), of "\<lparr> he_key = TOMB, he_val = 0 \<rparr>"] by simp
qed (use wf in auto)

lemma ht_lookup_None_iff:
  "ht_wf t \<Longrightarrow> live k \<Longrightarrow> ht_lookup t k = None \<longleftrightarrow> (\<forall>s < capacity t. slot_key t s \<noteq> k)"
  by (simp add: ht_lookup_find hash_find_None_iff)

lemma ht_distinct_set:
  assumes "ht_shape t" "ht_distinct t" "e < capacity t"
    and "\<And>s. s < capacity t \<Longrightarrow> s \<noteq> e \<Longrightarrow> live (he_key x) \<Longrightarrow> slot_key t s \<noteq> he_key x"
  shows "ht_distinct ((hash_ent_set t e x)\<lparr> ht_size := n \<rparr>)"
  using assms unfolding ht_distinct_def
  by (simp add: hash_ent_set_other) metis

lemma hash_put_fresh_distinct:
  assumes wf: "ht_wf t" and d: "ht_distinct t" and fresh: "ht_lookup t k = None"
    and put: "hash_put k v t = (Ret (), t')"
  shows "ht_distinct t'"
  using put
proof (rule hash_put_Ret)
  fix j e
  assume k: "live k" and j: "j < capacity t" "e = hash_probe t k j"
    and t': "t' = (hash_ent_set t e \<lparr> he_key = k, he_val = v \<rparr>)
      \<lparr> ht_size := (if slot_key t e = k then ht_size t else ht_size t + 1) \<rparr>"
  have "\<forall>s < capacity t. slot_key t s \<noteq> k" using fresh wf k by (simp add: ht_lookup_None_iff)
  then show ?thesis
    unfolding t' using j wf d by (intro ht_distinct_set) (simp_all add: ht_wf_shape hash_probe_less)
qed

lemma hash_del_distinct:
  assumes wf: "ht_wf t" and d: "ht_distinct t" and del: "hash_del k t = (r, t')"
  shows "ht_distinct t' \<and> ht_lookup t' = (ht_lookup t)(k := None)"
  using del
proof (cases rule: hash_del_cases)
  case (found e)
  note shape = ht_wf_shape [OF wf]
  have e: "e < capacity t" "slot_key t e = k" using hash_find_slot [OF found(2) shape] by auto
  have d': "ht_distinct t'"
    unfolding found(4) using shape d e by (intro ht_distinct_set) simp_all
  have "s = e" if "s < capacity t" "slot_key t s = k" for s
    using d that e found(1) by (simp add: ht_distinct_def)
  then have "slot_key t' s \<noteq> k" if "s < capacity t" for s
    unfolding found(4) using shape e(1) found(1) that by (cases "s = e") (auto simp: hash_ent_set_other)
  then have "\<forall>s < capacity t'. slot_key t' s \<noteq> k"
    unfolding found(4) by simp
  then have "ht_lookup t' k = None"
    using hash_del_wf_lookup_other [OF wf del] found(1) by (simp add: ht_lookup_None_iff)
  then show ?thesis
    using hash_del_wf_lookup_other [OF wf del] d' by (auto simp: fun_eq_iff)
next
  case missing
  then show ?thesis using d by (auto simp: fun_eq_iff ht_lookup_find)
next
  case invalid
  then show ?thesis using d by (auto simp: fun_eq_iff ht_lookup_find)
qed

lemma ht_slots_set:
  assumes "ht_shape t" "e < capacity t"
  shows "{s. s < capacity t \<and> live (slot_key ((hash_ent_set t e x)\<lparr> ht_size := n \<rparr>) s)} =
    (if live (he_key x) then insert e {s. s < capacity t \<and> live (slot_key t s)}
     else {s. s < capacity t \<and> live (slot_key t s)} - {e})"
  using assms by (auto simp: hash_ent_set_other split: if_splits)

lemma hash_put_counted:
  assumes shape: "ht_shape t" and c: "ht_counted t" and put: "hash_put k v t = (Ret (), t')"
  shows "ht_counted t'"
  using put
proof (rule hash_put_Ret)
  fix j e
  assume k: "live k" and j: "j < capacity t" "e = hash_probe t k j" and old: "slot_key t e \<in> {0, TOMB, k}"
    and t': "t' = (hash_ent_set t e \<lparr> he_key = k, he_val = v \<rparr>)
      \<lparr> ht_size := (if slot_key t e = k then ht_size t else ht_size t + 1) \<rparr>"
  have e: "e < capacity t" using j shape by (simp add: hash_probe_less)
  have "{s. s < capacity t' \<and> live (slot_key t' s)} = insert e {s. s < capacity t \<and> live (slot_key t s)}"
    unfolding t' using ht_slots_set [OF shape e, where x = "\<lparr> he_key = k, he_val = v \<rparr>"] k by simp
  moreover have "e \<in> {s. s < capacity t \<and> live (slot_key t s)} \<longleftrightarrow> slot_key t e = k"
    using e old k by (auto simp: live_def)
  ultimately show ?thesis
    using c by (simp add: ht_counted_def) (simp add: t' card_insert_if)
qed

lemma hash_del_counted:
  assumes shape: "ht_shape t" and c: "ht_counted t" and del: "hash_del k t = (r, t')"
  shows "ht_counted t'"
  using del
proof (cases rule: hash_del_cases)
  case (found e)
  then have e: "e < capacity t" "live (slot_key t e)" using hash_find_slot shape by auto
  have "{s. s < capacity t' \<and> live (slot_key t' s)} = {s. s < capacity t \<and> live (slot_key t s)} - {e}"
    unfolding found(4) using ht_slots_set [OF shape e(1), where x = "\<lparr> he_key = TOMB, he_val = 0 \<rparr>"] by simp
  moreover have "card {s. s < capacity t \<and> live (slot_key t s)} > 0"
    using e by (auto simp: card_gt_0_iff)
  ultimately show ?thesis
    using c e by (simp add: ht_counted_def) (simp add: found(4) of_nat_diff)
qed (use c in auto)

subsection \<open>When an insertion succeeds\<close>

text \<open>
  The probe sequence visits every slot unless \<open>hash + i\<close> wraps around: a capacity that divides
  \<open>2 ^ 64\<close> makes the wrap-around harmless, otherwise the hash value has to be small enough.
\<close>

definition probes_total :: "hashtable \<Rightarrow> u64 \<Rightarrow> bool" where
  "probes_total t k \<longleftrightarrow> capacity t dvd 2 ^ 64 \<or>
     unat (hash2 [k] 0xDEADBEEF) + capacity t \<le> 2 ^ 64"

lemma hash_probe_linear:
  assumes "ht_shape t" "probes_total t k" "i < capacity t"
  shows "hash_probe t k i = (unat (hash2 [k] 0xDEADBEEF) + i) mod capacity t"
proof -
  let ?h = "hash2 [k] 0xDEADBEEF"
  have "unat (?h + of_nat i) = (unat ?h + i) mod 2 ^ 64"
    using assms(1,3) by (simp add: unat_word_ariths unat_of_nat ht_shape_def)
  moreover have "(unat ?h + i) mod 2 ^ 64 mod capacity t = (unat ?h + i) mod capacity t"
    using assms(2,3) unfolding probes_total_def
    by (elim disjE) (simp add: mod_mod_cancel, simp add: mod_less)
  ultimately show ?thesis
    using assms(1) by (simp only: hash_probe_unat)
qed

lemma hash_probe_onto:
  assumes "ht_shape t" "probes_total t k" "s < capacity t"
  shows "\<exists>i < capacity t. hash_probe t k i = s"
proof -
  let ?h = "unat (hash2 [k] 0xDEADBEEF) mod capacity t"
  let ?c = "capacity t"
  define i where "i = (s + (?c - ?h)) mod ?c"
  have h: "?h < ?c" using assms(3) by simp
  have i: "i < ?c" using assms(3) by (simp add: i_def)
  have "hash_probe t k i = (?h + i) mod ?c"
    using hash_probe_linear [OF assms(1,2) i] by (simp add: mod_add_left_eq)
  also have "\<dots> = (?h + (s + (?c - ?h))) mod ?c"
    unfolding i_def by (simp add: mod_add_right_eq)
  also have "?h + (s + (?c - ?h)) = s + ?c" using h by linarith
  also have "(s + ?c) mod ?c = s" using assms(3) by simp
  finally show ?thesis using i by blast
qed

lemma hash_put_succeeds:
  assumes wf: "ht_wf t" and c: "ht_counted t" and k: "live k"
    and room: "ht_size t < int (capacity t)" and total: "probes_total t k"
  shows "\<exists>t'. hash_put k v t = (Ret (), t')"
proof -
  have "card {s. s < capacity t \<and> live (slot_key t s)} \<noteq> card {s. s < capacity t}"
    using c room unfolding ht_counted_def card_Collect_less_nat by linarith
  then have "{s. s < capacity t \<and> live (slot_key t s)} \<noteq> {s. s < capacity t}" by metis
  then obtain s where s: "s < capacity t" "\<not> live (slot_key t s)" by blast
  obtain i where i: "i < capacity t" "hash_probe t k i = s"
    using hash_probe_onto [OF ht_wf_shape [OF wf] total s(1)] by blast
  show ?thesis
  proof (cases rule: hash_put_loop_cases [where m = 0 and n = "capacity t" and t = t and k = k and e = None])
    case (hit j)
    have "oldkey \<noteq> k \<and> oldkey \<noteq> 0 \<and> oldkey \<noteq> TOMB \<longleftrightarrow> False" if "oldkey = slot_key t (hash_probe t k j)" for oldkey
      using hit(4) that by auto
    then show ?thesis
      using hit(3) k room by (simp add: hash_put_def live_def Let_def)
  next
    case miss
    then show ?thesis using miss(1) [of i] i s by (simp add: live_def)
  qed
qed

lemma hash_init_wf: "n < 2 ^ 31 \<Longrightarrow> ht_wf (hash_init t n) \<and> ht_distinct (hash_init t n) \<and>
    ht_counted (hash_init t n) \<and> ht_lookup (hash_init t n) = Map.empty"
proof -
  assume n: "n < 2 ^ 31"
  have key: "s < n \<Longrightarrow> slot_key (hash_init t n) s = 0" for s
    by (simp add: hash_init_def hash_ent_def)
  have cap: "capacity (hash_init t n) = n" by (simp add: hash_init_def)
  have wf: "ht_wf (hash_init t n)"
    using n key by (simp add: ht_wf_def cap) (simp add: ht_shape_def hash_init_def)
  moreover have "ht_lookup (hash_init t n) k = None" for k
    by (cases "live k") (use ht_lookup_None_iff [OF wf, of k] key in \<open>auto simp: cap ht_lookup_find [of _ k]\<close>)
  moreover have "{s. s < capacity (hash_init t n) \<and> live (slot_key (hash_init t n) s)} = {}"
    using key by (auto simp: cap)
  then have "ht_counted (hash_init t n)"
    unfolding ht_counted_def by (simp only: card.empty) (simp add: hash_init_def)
  ultimately show ?thesis using key by (auto simp: ht_distinct_def cap)
qed

subsection \<open>The iterator\<close>

lemma hashiter_scan_Some:
  "hashiter_scan t [m..<n] = Some it \<Longrightarrow> m < hi_index it \<and> hi_index it \<le> n"
proof (induction "n - m" arbitrary: m)
  case (Suc d)
  then have mn: "[m..<n] = m # [Suc m..<n]" "d = n - Suc m" by (simp_all add: upt_conv_Cons)
  show ?case
    using Suc.hyps(1) [OF mn(2)] Suc.hyps(2) Suc.prems
    by (auto simp: mn(1) Let_def split: if_splits)
qed simp

text \<open>Everything a loop \<^verbatim>\<open>for (hashiter_init(t, &iter); hashiter_next(&iter); )\<close> visits.\<close>

function hashiter_all :: "hashtable \<Rightarrow> hashiter \<Rightarrow> (u64 \<times> u64) list" where
  "hashiter_all t iter =
     (case hashiter_next t iter of
        None \<Rightarrow> []
      | Some iter' \<Rightarrow> (hi_key iter', hi_val iter') # hashiter_all t iter')"
  by auto
termination
  by (relation "measure (\<lambda>(t, iter). capacity t - hi_index iter)")
    (auto simp: hashiter_next_def dest!: hashiter_scan_Some)

declare hashiter_all.simps [simp del]

lemma hashiter_all_slots:
  "hashiter_all t it = map (\<lambda>s. (slot_key t s, he_val (hash_ent t s)))
     (filter (\<lambda>s. live (slot_key t s)) [hi_index it..<capacity t])"
proof (induction t it rule: hashiter_all.induct)
  case (1 t it)
  have scan: "case hashiter_scan t [m..<n] of
      None \<Rightarrow> filter (\<lambda>s. live (slot_key t s)) [m..<n] = []
    | Some it' \<Rightarrow> filter (\<lambda>s. live (slot_key t s)) [m..<n] =
        (hi_index it' - 1) # filter (\<lambda>s. live (slot_key t s)) [hi_index it'..<n] \<and>
        hi_key it' = slot_key t (hi_index it' - 1) \<and>
        hi_val it' = he_val (hash_ent t (hi_index it' - 1))" for m n
  proof (induction "n - m" arbitrary: m)
    case (Suc d)
    then have mn: "[m..<n] = m # [Suc m..<n]" by (simp add: upt_conv_Cons)
    show ?case
    proof (cases "live (slot_key t m)")
      case True
      then show ?thesis by (simp add: mn Let_def live_def)
    next
      case False
      then have "hashiter_scan t [m..<n] = hashiter_scan t [Suc m..<n]"
        "filter (\<lambda>s. live (slot_key t s)) [m..<n] = filter (\<lambda>s. live (slot_key t s)) [Suc m..<n]"
        by (auto simp: mn Let_def live_def)
      moreover have "d = n - Suc m" using Suc.hyps(2) by simp
      ultimately show ?thesis using Suc.hyps(1) by (simp only:)
    qed
  qed simp
  show ?case
    using scan [of "hi_index it" "capacity t"] 1
    by (subst hashiter_all.simps) (auto simp: hashiter_next_def split: option.splits)
qed

subsection \<open>The contract a client relies on\<close>

text \<open>
  An index from keys to values: what insertion and deletion do to the lookups, whatever the
  representation. Deletion is only promised to leave the other keys alone.
\<close>

locale key_index =
  fixes inv :: "'t \<Rightarrow> bool"
    and lookup :: "'t \<Rightarrow> u64 \<Rightarrow> u64 option"
    and put :: "u64 \<Rightarrow> u64 \<Rightarrow> ('t, unit) km"
    and del :: "u64 \<Rightarrow> ('t, unit) km"
  assumes put_law: "inv t \<Longrightarrow> put k v t = (Ret (), t') \<Longrightarrow> inv t' \<and> lookup t' = (lookup t)(k \<mapsto> v)"
    and put_other_outcome: "put k v t = (r, t') \<Longrightarrow> r \<noteq> Ret () \<Longrightarrow> t' = t"
    and del_law: "inv t \<Longrightarrow> del k t = (r, t') \<Longrightarrow> inv t' \<and> (k' \<noteq> k \<longrightarrow> lookup t' k' = lookup t k')"
begin

lemma keeps_put: "keeps inv (put k v)"
proof (rule keepsI)
  fix t r t' assume "inv t" "put k v t = (r, t')"
  then show "inv t'" using put_law put_other_outcome by (metis (full_types))
qed

lemma keeps_del: "keeps inv (del k)"
  using del_law by (blast intro: keepsI)

lemma puts_lookup:
  "inv t \<Longrightarrow> kfor (\<lambda>(k, v). put k v) kvs t = (Ret (), t') \<Longrightarrow>
   inv t' \<and> lookup t' = lookup t ++ map_of (rev kvs)"
proof (induction kvs arbitrary: t)
  case Nil
  then show ?case by (simp add: kret_def)
next
  case (Cons kv kvs)
  obtain k v where kv: "kv = (k, v)" by (cases kv)
  from Cons.prems(2) obtain u t1 where "put k v t = (Ret u, t1)"
      and rest: "kfor (\<lambda>(k, v). put k v) kvs t1 = (Ret (), t')"
    unfolding kv by (auto elim: kthen_RetE)
  then have "inv t1" "lookup t1 = (lookup t)(k \<mapsto> v)" using put_law [OF Cons.prems(1)] by auto
  with Cons.IH [OF this(1) rest] show ?case by (simp add: kv fun_eq_iff map_add_def split: option.split)
qed

end

text \<open>With a delete that really removes the key, the index is a finite map.\<close>

locale key_map = key_index +
  fixes single :: "'t \<Rightarrow> bool"
  assumes fresh_single: "inv t \<Longrightarrow> single t \<Longrightarrow> lookup t k = None \<Longrightarrow> put k v t = (Ret (), t') \<Longrightarrow> single t'"
    and del_single: "inv t \<Longrightarrow> single t \<Longrightarrow> del k t = (r, t') \<Longrightarrow> single t' \<and> lookup t' = (lookup t)(k := None)"
begin

lemma del_put_fresh:
  assumes "inv t" "single t" "lookup t k = None" "put k v t = (Ret (), t')" "del k t' = (r, t'')"
  shows "lookup t'' = lookup t"
  using assms put_law [OF assms(1,4)] fresh_single [OF assms(1-4)] del_single [of t' k r t'']
  by (auto simp: fun_eq_iff)

end

lemma hash_put_not_Ret: "hash_put k v t = (r, t') \<Longrightarrow> r \<noteq> Ret () \<Longrightarrow> t' = t"
  by (auto simp: hash_put_def Let_def split: if_splits option.splits)

interpretation ht: key_map ht_wf ht_lookup hash_put hash_del ht_distinct
  by unfold_locales (fact hash_put_wf_lookup hash_put_not_Ret hash_del_wf_lookup_other
      hash_put_fresh_distinct hash_del_distinct)+

subsection \<open>Properties\<close>

definition ht_none :: hashtable where
  "ht_none = \<lparr> entry = [], entry2 = [], capacity = 0, ht_size = 0, pgents = 0 \<rparr>"

lemma hash_init_ht_none:
  "ht_wf (hash_init ht_none 4)" "ht_distinct (hash_init ht_none 4)" "ht_counted (hash_init ht_none 4)"
  "ht_lookup (hash_init ht_none 4) = Map.empty" "capacity (hash_init ht_none 4) = 4"
  "ht_size (hash_init ht_none 4) = 0"
  using hash_init_wf [of 4 ht_none] by (simp_all add: hash_init_def)

text \<open>
  C22: a \<open>hash_put\<close> that returns 0 makes \<open>hash_get\<close> find the new value under its key and leaves
  every other key as it was, also in a table that holds tombstones or duplicates.
\<close>

theorem hash_put_get:
  assumes "ht_wf t" "hash_put k v t = (Ret (), t')"
  shows "ht_wf t' \<and> hash_get t' k = Inr v \<and> (\<forall>k'. k' \<noteq> k \<longrightarrow> hash_get t' k' = hash_get t k')"
proof -
  have r: "hash_get u q = (if live q then (case ht_lookup u q of Some x \<Rightarrow> Inr x | None \<Rightarrow> Inl E_NOT_FOUND)
                    else Inl E_INVAL)" for u q
    by (auto simp: ht_lookup_def hash_get_def live_def split: option.splits)
  have "live k" using assms(2) by (rule hash_put_Ret)
  then show ?thesis using ht.put_law [OF assms] by (simp add: r)
qed

theorem hash_put_get_witness:
  "hash_get (snd (hash_put 7 70 (hash_init ht_none 4))) 7 = Inr 70 \<and>
   ht_wf (hash_init ht_none 4) \<and> fst (hash_put 7 70 (hash_init ht_none 4)) = Ret ()"
proof -
  have "probes_total (hash_init ht_none 4) 7"
    by (simp add: probes_total_def hash_init_ht_none)
  then obtain t' where t': "hash_put 7 70 (hash_init ht_none 4) = (Ret (), t')"
    using hash_put_succeeds [of "hash_init ht_none 4" 7 70]
    by (auto simp: hash_init_ht_none live_def TOMB_def)
  then show ?thesis using hash_put_get [OF hash_init_ht_none(1) t'] by (simp add: hash_init_ht_none)
qed

text \<open>
  in a table where no key occupies two slots, \<open>hash_del\<close> removes exactly its key, and
  reports \<open>E_NOT_FOUND\<close> exactly when the key was not there; the slot count stays right.
\<close>

theorem hash_del_removes:
  assumes "ht_wf t" "ht_distinct t" "ht_counted t" "hash_del k t = (r, t')"
  shows "ht_wf t' \<and> ht_distinct t' \<and> ht_counted t' \<and> ht_lookup t' = (ht_lookup t)(k := None) \<and>
     (live k \<longrightarrow> (r = Err E_NOT_FOUND \<longleftrightarrow> ht_lookup t k = None))"
proof -
  have "live k \<longrightarrow> (r = Err E_NOT_FOUND \<longleftrightarrow> ht_lookup t k = None)"
    using assms(4) by (cases rule: hash_del_cases) (simp_all add: ht_lookup_find)
  then show ?thesis
    using ht.del_single [OF assms(1,2,4)] ht.del_law [OF assms(1,4)]
      hash_del_counted [OF ht_wf_shape [OF assms(1)] assms(3,4)] by blast
qed

theorem hash_del_removes_witness:
  "fst (hash_del 7 (hash_init ht_none 4)) = Err E_NOT_FOUND"
  using hash_del_removes [of "hash_init ht_none 4" 7 "fst (hash_del 7 (hash_init ht_none 4))"
      "snd (hash_del 7 (hash_init ht_none 4))"]
  by (simp add: hash_init_ht_none live_def TOMB_def)

text \<open>
  iterating over a well-formed table without duplicates yields the entries of the
  represented map, each exactly once.
\<close>

theorem hashiter_complete:
  assumes "ht_wf t" "ht_distinct t"
  shows "map_of (hashiter_all t hashiter_init) = ht_lookup t \<and>
         distinct (map fst (hashiter_all t hashiter_init))"
proof -
  let ?L = "filter (\<lambda>s. live (slot_key t s)) [0..<capacity t]"
  have all: "hashiter_all t hashiter_init = map (\<lambda>s. (slot_key t s, he_val (hash_ent t s))) ?L"
    by (simp add: hashiter_all_slots hashiter_init_def)
  have dist: "distinct (map fst (hashiter_all t hashiter_init))"
    using assms(2) unfolding all by (auto simp: distinct_map inj_on_def ht_distinct_def)
  have "map_of (hashiter_all t hashiter_init) k = ht_lookup t k" for k
  proof (cases "ht_lookup t k")
    case None
    then have "k \<notin> fst ` set (hashiter_all t hashiter_init)"
      using ht_lookup_None_iff [OF assms(1), of k] unfolding all by auto
    then show ?thesis using None by (simp add: map_of_eq_None_iff)
  next
    case (Some v)
    then obtain s where "live k" "hash_find t k [0..<capacity t] = Some s" "v = he_val (hash_ent t s)"
      by (auto simp: ht_lookup_find split: if_splits)
    then have "(k, v) \<in> set (hashiter_all t hashiter_init)"
      using hash_find_slot [OF _ ht_wf_shape [OF assms(1)], of k s] unfolding all by force
    then show ?thesis using Some dist by (simp add: map_of_eq_Some_iff)
  qed
  then show ?thesis using dist by blast
qed

theorem hashiter_complete_witness:
  "map_of (hashiter_all (hash_init ht_none 4) hashiter_init) = Map.empty"
  using hashiter_complete [of "hash_init ht_none 4"] by (simp add: hash_init_ht_none)

lemma hash2_one: "hash2 [1] 0xDEADBEEF = 12422752117220694532"
  by (simp add: hash2_def mix64_def mix64_step_def)

lemma hash2_three: "hash2 [3] 0xDEADBEEF = 17135409022019664340"
  by (simp add: hash2_def mix64_def mix64_step_def)

text \<open>
  C40: If a key is in the table with a tombstone ahead of it on its probe sequence, and the table is not full, then
  overwriting the key does not replace its entry: \<open>hash_put\<close> succeeds and lookups give the new value, but the key is then stored
  twice, so that deleting it once, with success, brings the overwritten value back.
\<close>

theorem hash_put_duplicates:
  assumes "ht_shape t" "live k" "ht_size t \<noteq> int (capacity t)" "i < capacity t" "slot_key t (hash_probe t k i) = k"
    "\<And>m. m < i \<Longrightarrow> slot_key t (hash_probe t k m) \<notin> {0, k}" "j < i" "slot_key t (hash_probe t k j) = TOMB"
  shows "hash_get t k = Inr (he_val (hash_ent t (hash_probe t k i))) \<and>
    (\<exists>t' t''. hash_put k v t = (Ret (), t') \<and> hash_get t' k = Inr v \<and> hash_del k t' = (Ret (), t'') \<and>
       hash_get t'' k = Inr (he_val (hash_ent t (hash_probe t k i))))"
proof (cases rule: hash_put_loop_cases [where m = 0 and n = "capacity t" and t = t and k = k and e = None])
  case miss
  then show ?thesis using assms(4,5) by auto
next
  case (hit e)
  have "e \<le> j" by (rule ccontr) (use hit(5) [of j] assms(8) in auto)
  then have ei: "e < i" "slot_key t (hash_probe t k e) = TOMB" using hit(4) assms(6,7) by auto
  note less = hash_probe_less [OF assms(1)]
  let ?p = "hash_probe t k e"
  let ?t1 = "(hash_ent_set t ?p \<lparr> he_key = k, he_val = v \<rparr>)\<lparr> ht_size := ht_size t + 1 \<rparr>"
  let ?t2 = "(hash_ent_set ?t1 ?p \<lparr> he_key = TOMB, he_val = 0 \<rparr>)\<lparr> ht_size := ht_size t \<rparr>"
  have s: "ht_shape ?t1" using assms(1) by simp
  have t1: "hash_ent ?t1 q = (if q = ?p then \<lparr> he_key = k, he_val = v \<rparr> else hash_ent t q)" if "q < capacity t" for q
    using hash_ent_set_other [OF assms(1) less that] hit(2) by auto
  have t2: "hash_ent ?t2 q = (if q = ?p then \<lparr> he_key = TOMB, he_val = 0 \<rparr> else hash_ent t q)" if "q < capacity t" for q
    using hash_ent_set_other [OF s, of ?p q] less [OF hit(2)] that t1 [OF that] by simp
  have k: "k \<noteq> 0" "k \<noteq> TOMB" using assms(2) by (simp_all add: live_def)
  have p1: "slot_key ?t1 ?p = k" unfolding t1 [OF less [OF hit(2)]] by simp
  have k1: "slot_key ?t1 (hash_probe t k m) \<notin> {0, k}" if "m < e" for m
    unfolding t1 [OF less [OF less_trans [OF that hit(2)]]] using hit(5) [of m] that ei(2) by auto
  have k2: "slot_key ?t2 (hash_probe t k m) \<notin> {0, k}" if "m < i" for m
    unfolding t2 [OF less [OF less_trans [OF that assms(4)]]] using assms(6) [OF that] k by auto
  have i2: "hash_ent ?t2 (hash_probe t k i) = hash_ent t (hash_probe t k i)"
    unfolding t2 [OF less [OF assms(4)]] using ei(2) assms(5) k by auto
  have "hash_put k v t = (Ret (), ?t1)" using hit(3) ei(2) k assms(3) by (simp add: hash_put_def Let_def hash_ent_set_size)
  moreover have "hash_find ?t1 k [0..<capacity t] = Some ?p"
    using hash_find_hit [of 0 e "capacity t" ?t1 k, unfolded hash_probe_cong] hit(2) k1 p1 by simp
  moreover have "hash_find ?t2 k [0..<capacity t] = Some (hash_probe t k i)"
    using hash_find_hit [of 0 i "capacity t" ?t2 k, unfolded hash_probe_cong] assms(4) k2 i2 assms(5) by simp
  moreover have "hash_find t k [0..<capacity t] = Some (hash_probe t k i)"
    using hash_find_hit [of 0 i "capacity t" t k] assms(4-6) by simp
  ultimately show ?thesis using k t1 [OF less [OF hit(2)]] i2 by (simp add: hash_get_def hash_del_def)
qed

text \<open>The keys 1 and 3 collide in a table of two slots: insert both and delete 1.\<close>

theorem hash_put_duplicates_witness:
  "\<exists>t t' t''. kthen (hash_put 1 10) (kthen (hash_put 3 20) (hash_del 1)) (hash_init ht_none 2) = (Ret (), t) \<and> hash_get t 3 = Inr 20 \<and>
     hash_put 3 30 t = (Ret (), t') \<and> hash_del 3 t' = (Ret (), t'') \<and> hash_get t'' 3 = Inr 20"
proof -
  let ?t = "ht_none\<lparr> entry := [\<lparr> he_key = TOMB, he_val = 0 \<rparr>, \<lparr> he_key = 3, he_val = 20 \<rparr>], capacity := 2, ht_size := 1, pgents := 0 \<rparr>"
  note ev = hash_probe_def hash2_one hash2_three hash_ent_def TOMB_def ht_none_def
  have two: "replicate 2 x = [x, x]" for x :: hashentry by (simp add: numeral_2_eq_2)
  have run: "kthen (hash_put 1 10) (kthen (hash_put 3 20) (hash_del 1)) (hash_init ht_none 2) = (Ret (), ?t)"
    by (simp add: hash_put_def hash_del_def hash_init_def kthen_def kbind_def Let_def hash_ent_set_def upt_rec two ev)
  have "slot_key ?t (hash_probe ?t 3 0) = TOMB" "slot_key ?t (hash_probe ?t 3 1) = 3" "he_val (hash_ent ?t (hash_probe ?t 3 1)) = 20"
    by (simp_all add: ev)
  then show ?thesis
    using run hash_put_duplicates [of ?t 3 1 0 30] by (auto simp: ht_shape_def live_def TOMB_def less_Suc_eq)
qed

end
