(* ===== verification/Kstate.thy ===== *)
theory Kstate
  imports Prelude Bf60
begin

unbundle bit_operations_syntax

text \<open>
  The data of the kernel: the kernel objects of \<^verbatim>\<open>src/kern/kern/kobjhdr.h\<close>, \<^verbatim>\<open>kobj.h\<close>,
  \<^verbatim>\<open>label.h\<close>, \<^verbatim>\<open>container.h\<close>, \<^verbatim>\<open>thread.h\<close>, \<^verbatim>\<open>gate.h\<close>, \<^verbatim>\<open>segment.h\<close>, \<^verbatim>\<open>as.h\<close> and
  \<^verbatim>\<open>device.h\<close>, the physical pages with their \<^verbatim>\<open>page_info\<close>, and the kernel's global variables as one
  record \<open>kstate\<close>.

  A pointer to a kernel object or to a physical page is a page number (\<open>ptr\<close>), and 0 is the null
  pointer: the kernel allocates a whole page for each object (\<^verbatim>\<open>struct kobject_pair\<close>, the object
  and its snapshot). What a page holds depends on its use; \<open>page\<close> has one view for each use the
  kernel makes of raw pages, and \<^verbatim>\<open>memset\<close> and \<^verbatim>\<open>memcpy\<close> act on all the views. The intrusive lists
  of \<^verbatim>\<open>src/inc/queue.h\<close> are lists of pointers, kept in the state under the name of their head.
\<close>

type_synonym ptr = nat

subsection \<open>Constants\<close>

definition PGSIZE :: u64 where "PGSIZE = 4096"
definition PGSHIFT :: nat where "PGSHIFT = 12"

definition KOBJ_ON_DISK :: u32 where "KOBJ_ON_DISK = 0x0002"
definition KOBJ_SNAPSHOTING :: u32 where "KOBJ_SNAPSHOTING = 0x0004"
definition KOBJ_DIRTY :: u32 where "KOBJ_DIRTY = 0x0008"
definition KOBJ_SNAPSHOT_DIRTY :: u32 where "KOBJ_SNAPSHOT_DIRTY = 0x0010"
definition KOBJ_LABEL_MUTABLE :: u32 where "KOBJ_LABEL_MUTABLE = 0x0020"
definition KOBJ_FIXED_QUOTA :: u32 where "KOBJ_FIXED_QUOTA = 0x0040"
definition KOBJ_SHARED_MAPPINGS :: u32 where "KOBJ_SHARED_MAPPINGS = 0x0080"
definition KOBJ_DIRTY_LATER :: u32 where "KOBJ_DIRTY_LATER = 0x0100"
definition KOBJ_READONLY :: u32 where "KOBJ_READONLY = 0x0200"
definition KOBJ_SNAP_SHARE_PIN :: u32 where "KOBJ_SNAP_SHARE_PIN = 0x0400"

definition KOBJ_DISK_SIZE :: u64 where "KOBJ_DISK_SIZE = 512"
definition CT_QUOTA_INF :: u64 where "CT_QUOTA_INF = push_bit 62 1"
definition kobject_id_thread_sg :: u64 where "kobject_id_thread_sg = 0x4000000000000002"

definition NUM_LB_ENT_INLINE :: nat where "NUM_LB_ENT_INLINE = 32"
definition NUM_LB_ENT_PER_PAGE :: nat where "NUM_LB_ENT_PER_PAGE = 512"
definition NUM_CT_SLOT_INLINE :: nat where "NUM_CT_SLOT_INLINE = 16"
definition NUM_CT_SLOT_PER_PAGE :: nat where "NUM_CT_SLOT_PER_PAGE = 256"
definition PAGETREE_DIRECT_PAGES :: nat where "PAGETREE_DIRECT_PAGES = 4"
definition PAGETREE_INDIRECTS :: nat where "PAGETREE_INDIRECTS = 4"
definition PAGETREE_ENTRIES_PER_PAGE :: nat where "PAGETREE_ENTRIES_PER_PAGE = 128"
definition N_USEGMAP_PER_PAGE :: nat where "N_USEGMAP_PER_PAGE = 85"
definition N_SEGMAP_PER_PAGE :: nat where "N_SEGMAP_PER_PAGE = 73"

definition SEGMAP_EXEC :: u32 where "SEGMAP_EXEC = 0x01"
definition SEGMAP_WRITE :: u32 where "SEGMAP_WRITE = 0x02"
definition SEGMAP_READ :: u32 where "SEGMAP_READ = 0x04"
definition SEGMAP_REVERSE_PAGES :: u32 where "SEGMAP_REVERSE_PAGES = 0x08"

definition kobj_hash_size :: u64 where "kobj_hash_size = 8192"
definition kobj_neg_size :: nat where "kobj_neg_size = 2"
definition kobj_neg_hash :: nat where "kobj_neg_hash = 64"
definition compare_cache_size :: nat where "compare_cache_size = 16"

text \<open>Testing and setting bits of a flag word.\<close>

definition has_flag :: "u32 \<Rightarrow> u32 \<Rightarrow> bool" where
  "has_flag flags bits \<longleftrightarrow> flags AND bits \<noteq> 0"

subsection \<open>Enumerations\<close>

datatype kobject_type =
    kobj_container | kobj_thread | kobj_gate | kobj_segment | kobj_address_space
  | kobj_device | kobj_label | kobj_dead | kobj_ntypes | kobj_any

fun kobject_type_num :: "kobject_type \<Rightarrow> nat" where
  "kobject_type_num kobj_container = 0"
| "kobject_type_num kobj_thread = 1"
| "kobject_type_num kobj_gate = 2"
| "kobject_type_num kobj_segment = 3"
| "kobject_type_num kobj_address_space = 4"
| "kobject_type_num kobj_device = 5"
| "kobject_type_num kobj_label = 6"
| "kobject_type_num kobj_dead = 7"
| "kobject_type_num kobj_ntypes = 8"
| "kobject_type_num kobj_any = 9"

datatype kolabel =
    kolabel_tracking | kolabel_clearance | kolabel_verify_tracking | kolabel_verify_clearance

definition kolabels :: "kolabel list" where
  "kolabels = [kolabel_tracking, kolabel_clearance, kolabel_verify_tracking, kolabel_verify_clearance]"

datatype info_flow_type = iflow_read | iflow_rw | iflow_none | iflow_alloc

datatype page_sharing_mode = page_shared_ro | page_excl_dirty | page_excl_dirty_later

datatype thread_status = thread_zero | thread_not_started | thread_runnable | thread_suspended | thread_halted

text \<open>The two comparators of \<^verbatim>\<open>label.c\<close>, by name.\<close>

datatype level_comparator = label_leq_starlo | label_leq_starhi

text \<open>The thread lists of the kernel, by the variable that heads them.\<close>

datatype waitq = thread_list_runnable | pstate_waiting | sync_time_waiting | kobj_snapshot_waiting

subsection \<open>Pages and page trees\<close>

text \<open>Which page tree of which object: the object's own, its snapshot's, or an address space's \<^verbatim>\<open>as_segmap_pt\<close>.\<close>

datatype ptid = PtActive ptr | PtSnap ptr | PtSegmap ptr

text \<open>Where a \<^verbatim>\<open>pagetree_entry\<close> lives.\<close>

datatype entloc = EDirect ptid nat | EIndirect ptid nat | EPage ptr nat

text \<open>\<^verbatim>\<open>parent\<close> of an entry: null, an object, or (low bit set) an indirect page.\<close>

datatype pe_parent = ParNull | ParKobj ptr | ParPage ptr

record pagetree_entry =
  pe_page :: ptr
  pe_par :: pe_parent

record pagetree =
  pt_direct :: "pagetree_entry list"
  pt_indirect :: "pagetree_entry list"

record page_info =
  pi_ref :: u32
  pi_write_shared_ref :: u32
  pi_hw_write_pin :: u32
  pi_hw_read_pin :: u32
  pi_indir :: bool
  pi_dirty :: bool
  pi_freepage :: bool
  pi_parent :: ptr
  pi_plist :: "entloc list"
  pi_seg :: u64
  pi_segpg :: u64

text \<open>A segment mapping is named by its page and its index there.\<close>

type_synonym smloc = "ptr \<times> nat"

record segment_mapping =
  sm_as :: ptr
  sm_rw_mappings :: bool
  sm_ct_id :: u64
  sm_as_slot :: u64
  sm_ko :: ptr

record page =
  pg_words :: "u64 list"
  pg_ents :: "pagetree_entry list"
  pg_sms :: "segment_mapping list"

definition entry0 :: pagetree_entry where
  "entry0 = \<lparr> pe_page = 0, pe_par = ParNull \<rparr>"

definition pagetree0 :: pagetree where
  "pagetree0 = \<lparr> pt_direct = replicate PAGETREE_DIRECT_PAGES entry0,
                 pt_indirect = replicate PAGETREE_INDIRECTS entry0 \<rparr>"

definition page_info0 :: page_info where
  "page_info0 = \<lparr> pi_ref = 0, pi_write_shared_ref = 0, pi_hw_write_pin = 0, pi_hw_read_pin = 0,
     pi_indir = False, pi_dirty = False, pi_freepage = False, pi_parent = 0, pi_plist = [],
     pi_seg = 0, pi_segpg = 0 \<rparr>"

definition sm0 :: segment_mapping where
  "sm0 = \<lparr> sm_as = 0, sm_rw_mappings = False, sm_ct_id = 0, sm_as_slot = 0, sm_ko = 0 \<rparr>"

text \<open>A page after \<^verbatim>\<open>memset(p, 0, PGSIZE)\<close>.\<close>

definition page0 :: page where
  "page0 = \<lparr> pg_words = replicate 512 0, pg_ents = replicate PAGETREE_ENTRIES_PER_PAGE entry0,
             pg_sms = replicate N_SEGMAP_PER_PAGE sm0 \<rparr>"

subsection \<open>Kernel objects\<close>

record kobject_hdr =
  ko_id :: u64
  ko_ref :: u64
  ko_quota_total :: u64
  ko_quota_used :: u64
  ko_parent :: u64
  ko_label :: "kolabel \<Rightarrow> u64"
  ko_nbytes :: u64
  ko_name :: "u8 list"
  ko_meta :: "u8 list"
  ko_flags :: u32
  ko_type :: kobject_type
  ko_sync_ts :: u64
  ko_cksum :: u64
  ko_pin_pg :: u32
  ko_pin :: u32

record cobj_ref =
  cobj_container :: u64
  cobj_object :: u64

abbreviation COBJ :: "u64 \<Rightarrow> u64 \<Rightarrow> cobj_ref" where
  "COBJ c obj \<equiv> \<lparr> cobj_container = c, cobj_object = obj \<rparr>"

record Label =
  lb_def_level :: u8
  lb_nent :: u64
  lb_ent :: "u64 list"

record container_slot =
  cs_id :: u64
  cs_ref :: u64

record Container =
  ct_avoid_types :: u64
  ct_slots :: "container_slot list"

record thread_entry =
  te_as :: cobj_ref
  te_entry :: u64
  te_stack :: u64
  te_arg :: "u64 list"

text \<open>The amd64 trap frame (\<^verbatim>\<open>src/kern/arch/amd64/mmu.h\<close>); the 16-bit selectors and \<^verbatim>\<open>tf_err\<close> are kept at their width.\<close>

record Trapframe =
  tf_rcx :: u64
  tf_rdx :: u64
  tf_rdi :: u64
  tf_r8 :: u64
  tf_r9 :: u64
  tf_r10 :: u64
  tf_r11 :: u64
  tf_rbx :: u64
  tf_rbp :: u64
  tf_r12 :: u64
  tf_r13 :: u64
  tf_r14 :: u64
  tf_r15 :: u64
  tf_rsi :: u64
  tf_rax :: u64
  tf_err :: u32
  tf_rip :: u64
  tf_cs :: "16 word"
  tf_ds :: "16 word"
  tf_es :: "16 word"
  tf_fs :: "16 word"
  tf_rflags :: u64
  tf_rsp :: u64
  tf_ss :: "16 word"
  tf_gs :: "16 word"

record Thread =
  th_tf :: Trapframe
  th_sg :: u64
  th_asref :: cobj_ref
  th_as :: ptr
  th_status :: thread_status
  th_pinned :: bool
  th_fp_enabled :: bool
  th_fp_space :: bool
  th_sched_joined :: bool
  th_sync_waiting :: bool
  th_cache_flush :: bool
  th_linked :: bool
  th_sched_tickets :: u32
  th_multi_slots :: u64
  th_sched_parents :: "u64 \<times> u64"
  th_sched_pass :: u64

text \<open>
  A wait slot is either the one inside the thread's ephemeral state or one in a page of the
  thread; \<^verbatim>\<open>th_sched_remain\<close> shares its storage with \<^verbatim>\<open>th_sched_pass\<close>.
\<close>

datatype swloc = SwInline ptr | SwPage ptr nat

record sync_wait_slot =
  sw_seg :: u64
  sw_offset :: u64
  sw_t :: ptr
  sw_cobj :: cobj_ref
  sw_addr_next :: "swloc option"
  sw_cobj_next :: "swloc option"

record Thread_ephemeral =
  te_wakeup_nsec :: u64
  te_wait_slots :: "swloc list"

record Gate =
  gt_te :: thread_entry
  gt_te_visible :: bool
  gt_te_unspec :: bool

record Address_space =
  as_utrap_entry :: u64
  as_utrap_stack_base :: u64
  as_utrap_stack_top :: u64
  as_segmap_pt :: pagetree
  as_pgmap :: ptr
  as_pgmap_label_id :: u64
  as_pgmap_tls_id :: u64

record Device =
  dv_type :: u8
  dv_idx :: u64
  dv_segmap_list :: "smloc list"

text \<open>
  \<^verbatim>\<open>struct kobject\<close>: the header, the union of the object types (one field each), the page tree,
  the label cache with the list of weak pointers to this object, and the thread's ephemeral state.
\<close>

record kobject =
  hdr :: kobject_hdr
  lb :: Label
  ct :: Container
  th :: Thread
  gt :: Gate
  sg_segmap_list :: "smloc list"
  aspace :: Address_space
  dv :: Device
  ko_pt :: pagetree
  ko_label_cache :: "kolabel \<Rightarrow> ptr"
  ko_weak_refs :: "(ptr \<times> kolabel) list"
  ko_th_e :: Thread_ephemeral

definition hdr0 :: kobject_hdr where
  "hdr0 = \<lparr> ko_id = 0, ko_ref = 0, ko_quota_total = 0, ko_quota_used = 0, ko_parent = 0,
     ko_label = (\<lambda>_. 0), ko_nbytes = 0, ko_name = replicate 32 0, ko_meta = replicate 64 0,
     ko_flags = 0, ko_type = kobj_container, ko_sync_ts = 0, ko_cksum = 0, ko_pin_pg = 0, ko_pin = 0 \<rparr>"

definition te0 :: thread_entry where
  "te0 = \<lparr> te_as = COBJ 0 0, te_entry = 0, te_stack = 0, te_arg = replicate 6 0 \<rparr>"

definition tf0 :: Trapframe where
  "tf0 = \<lparr> tf_rcx = 0, tf_rdx = 0, tf_rdi = 0, tf_r8 = 0, tf_r9 = 0, tf_r10 = 0, tf_r11 = 0,
     tf_rbx = 0, tf_rbp = 0, tf_r12 = 0, tf_r13 = 0, tf_r14 = 0, tf_r15 = 0, tf_rsi = 0, tf_rax = 0,
     tf_err = 0, tf_rip = 0, tf_cs = 0, tf_ds = 0, tf_es = 0, tf_fs = 0, tf_rflags = 0, tf_rsp = 0,
     tf_ss = 0, tf_gs = 0 \<rparr>"

definition label0 :: Label where
  "label0 = \<lparr> lb_def_level = 0, lb_nent = 0, lb_ent = replicate NUM_LB_ENT_INLINE 0 \<rparr>"

definition container0 :: Container where
  "container0 = \<lparr> ct_avoid_types = 0,
     ct_slots = replicate NUM_CT_SLOT_INLINE \<lparr> cs_id = 0, cs_ref = 0 \<rparr> \<rparr>"

definition thread0 :: Thread where
  "thread0 = \<lparr> th_tf = tf0, th_sg = 0, th_asref = COBJ 0 0, th_as = 0, th_status = thread_zero,
     th_pinned = False, th_fp_enabled = False, th_fp_space = False, th_sched_joined = False,
     th_sync_waiting = False, th_cache_flush = False, th_linked = False, th_sched_tickets = 0,
     th_multi_slots = 0, th_sched_parents = (0, 0), th_sched_pass = 0 \<rparr>"

definition as0 :: Address_space where
  "as0 = \<lparr> as_utrap_entry = 0, as_utrap_stack_base = 0, as_utrap_stack_top = 0,
     as_segmap_pt = pagetree0, as_pgmap = 0, as_pgmap_label_id = 0, as_pgmap_tls_id = 0 \<rparr>"

text \<open>An object after \<^verbatim>\<open>memset(ko, 0, sizeof(struct kobject_mem))\<close>.\<close>

definition kobject0 :: kobject where
  "kobject0 = \<lparr> hdr = hdr0, lb = label0, ct = container0, th = thread0,
     gt = \<lparr> gt_te = te0, gt_te_visible = False, gt_te_unspec = False \<rparr>,
     sg_segmap_list = [], aspace = as0,
     dv = \<lparr> dv_type = 0, dv_idx = 0, dv_segmap_list = [] \<rparr>,
     ko_pt = pagetree0, ko_label_cache = (\<lambda>_. 0), ko_weak_refs = [],
     ko_th_e = \<lparr> te_wakeup_nsec = 0, te_wait_slots = [] \<rparr> \<rparr>"

subsection \<open>Global variables\<close>

record page_stats =
  pages_used :: u64
  pages_avail :: u64
  ps_allocations :: u64
  ps_failures :: u64

text \<open>One bucket of the negative cache: \<^verbatim>\<open>kobject_neg[idx]\<close>.\<close>

record neg_bucket =
  neg_next :: nat
  neg_ents :: "u64 list"

text \<open>An entry of \<^verbatim>\<open>compare_cache\<close>; the null comparator of an unused entry is \<open>None\<close>.\<close>

record compare_cache_ent =
  cc_lhs :: u64
  cc_rhs :: u64
  cc_cmp :: "level_comparator option"

datatype pstate_fn = pstate_swapin_stackwrap | pstate_sync_stackwrap | pstate_sync_object_stackwrap

datatype pstate_op = op_none | op_swapin | op_swapout_obj | op_swapout_global | op_swapout_global_gc

record pstate_op_t =
  op_prio :: pstate_op
  op_fn :: pstate_fn
  op_arg :: "u64 \<times> u64 \<times> u64"

text \<open>A frame buffer: where its memory is. Its mode and its driver are not part of the state.\<close>

record fb_device =
  fb_base :: u64
  fb_npages :: u64

text \<open>
  The kernel's state. \<open>ks_obj\<close> and \<open>ks_snap\<close> are the two halves of the \<^verbatim>\<open>kobject_pair\<close> in a page,
  \<open>ks_pi\<close> is \<^verbatim>\<open>page_infos\<close>, \<open>ks_page\<close> the contents of the pages and \<open>ks_sw\<close> the wait slots.
  \<open>ko_hash\<close>, \<open>sync_addr_waiting\<close> and \<open>sync_cobj_waiting\<close> map a hash slot to its list. \<open>tsc_in\<close> and
  \<open>ticks_in\<close> are the readings of the time stamp counter and of the time source that the machine
  will give, \<open>tsc_pos\<close> and \<open>ticks_pos\<close> how many have been taken.
\<close>

record kstate =
  ks_obj :: "ptr \<Rightarrow> kobject"
  ks_snap :: "ptr \<Rightarrow> kobject"
  ks_page :: "ptr \<Rightarrow> page"
  ks_pi :: "ptr \<Rightarrow> page_info"
  page_free_list :: "ptr list"
  page_stat :: page_stats
  global_npages :: nat
  ko_list :: "ptr list"
  ko_gc_list :: "ptr list"
  ko_hash :: "u64 \<Rightarrow> ptr list"
  kobject_neg :: "nat \<Rightarrow> neg_bucket"
  compare_cache :: "compare_cache_ent list"
  compare_cache_next :: u32
  handle_counter :: u64
  handle_key_ctx :: bf_ctx
  pstate_key_ctx :: bf_ctx
  pstate_counter :: u64
  cur_thread :: ptr
  cur_waitlist :: "waitq option"
  thread_list :: "waitq \<Rightarrow> ptr list"
  global_tickets :: u64
  global_pass :: u64
  stride1 :: u64
  last_tsc :: u64
  tsc_in :: "nat \<Rightarrow> u64"
  tsc_pos :: nat
  ticks_in :: "nat \<Rightarrow> u64"
  ticks_pos :: nat
  timesrc_freq_hz :: u64
  timer_user_nsec_offset :: u64
  sync_addr_waiting :: "u64 \<Rightarrow> swloc list"
  sync_cobj_waiting :: "u64 \<Rightarrow> swloc list"
  ks_sw :: "swloc \<Rightarrow> sync_wait_slot"
  pstate_part :: bool
  pstate_locked :: bool
  pstate_op_queue :: pstate_op_t
  stable_magic :: u64
  stable_sync_ts :: u64
  cur_as :: ptr
  cur_pgmap :: ptr
  bootpml4 :: page
  invlpg_count :: nat
  invlpg_addrs :: "u64 list"
  user_root_ct :: u64
  trap_thread :: ptr
  trap_thread_syscall_writeback :: bool
  fbdevs :: "fb_device option list"

text \<open>All variables zero, no memory: the start of every concrete state below.\<close>

definition kstate0 :: kstate where
  "kstate0 = \<lparr> ks_obj = (\<lambda>_. kobject0), ks_snap = (\<lambda>_. kobject0), ks_page = (\<lambda>_. page0),
     ks_pi = (\<lambda>_. page_info0), page_free_list = [],
     page_stat = \<lparr> pages_used = 0, pages_avail = 0, ps_allocations = 0, ps_failures = 0 \<rparr>,
     global_npages = 0, ko_list = [], ko_gc_list = [], ko_hash = (\<lambda>_. []),
     kobject_neg = (\<lambda>_. \<lparr> neg_next = 0, neg_ents = replicate kobj_neg_size 0 \<rparr>),
     compare_cache = replicate compare_cache_size \<lparr> cc_lhs = 0, cc_rhs = 0, cc_cmp = None \<rparr>,
     compare_cache_next = 0, handle_counter = 0,
     handle_key_ctx = \<lparr> bf_P = replicate 18 0, bf_S = replicate 4 (replicate 256 0) \<rparr>,
     pstate_key_ctx = \<lparr> bf_P = replicate 18 0, bf_S = replicate 4 (replicate 256 0) \<rparr>,
     pstate_counter = 0, cur_thread = 0, cur_waitlist = None, thread_list = (\<lambda>_. []),
     global_tickets = 0, global_pass = 0, stride1 = 0, last_tsc = 0, tsc_in = (\<lambda>_. 0), tsc_pos = 0,
     ticks_in = (\<lambda>_. 0), ticks_pos = 0, timesrc_freq_hz = 1, timer_user_nsec_offset = 0,
     sync_addr_waiting = (\<lambda>_. []), sync_cobj_waiting = (\<lambda>_. []),
     ks_sw = (\<lambda>_. \<lparr> sw_seg = 0, sw_offset = 0, sw_t = 0, sw_cobj = COBJ 0 0,
       sw_addr_next = None, sw_cobj_next = None \<rparr>),
     pstate_part = False, pstate_locked = False,
     pstate_op_queue = \<lparr> op_prio = op_none, op_fn = pstate_swapin_stackwrap, op_arg = (0, 0, 0) \<rparr>,
     stable_magic = 0, stable_sync_ts = 0, cur_as = 0, cur_pgmap = 0, bootpml4 = page0,
     invlpg_count = 0, invlpg_addrs = [], user_root_ct = 0, trap_thread = 0, trap_thread_syscall_writeback = False,
     fbdevs = [None] \<rparr>"

type_synonym 'a kernel = "(kstate, 'a) km"

subsection \<open>Reading and writing through pointers\<close>

definition obj :: "ptr \<Rightarrow> kobject kernel" where
  "obj p = kget (\<lambda>s. ks_obj s p)"

definition hd_of :: "ptr \<Rightarrow> kobject_hdr kernel" where
  "hd_of p = kget (\<lambda>s. hdr (ks_obj s p))"

definition upd_obj :: "ptr \<Rightarrow> (kobject \<Rightarrow> kobject) \<Rightarrow> unit kernel" where
  "upd_obj p f = kmod (\<lambda>s. s\<lparr> ks_obj := (ks_obj s)(p := f (ks_obj s p)) \<rparr>)"

definition upd_hdr :: "ptr \<Rightarrow> (kobject_hdr \<Rightarrow> kobject_hdr) \<Rightarrow> unit kernel" where
  "upd_hdr p f = upd_obj p (\<lambda>ko. ko\<lparr> hdr := f (hdr ko) \<rparr>)"

definition upd_th :: "ptr \<Rightarrow> (Thread \<Rightarrow> Thread) \<Rightarrow> unit kernel" where
  "upd_th p f = upd_obj p (\<lambda>ko. ko\<lparr> th := f (th ko) \<rparr>)"

definition upd_lb :: "ptr \<Rightarrow> (Label \<Rightarrow> Label) \<Rightarrow> unit kernel" where
  "upd_lb p f = upd_obj p (\<lambda>ko. ko\<lparr> lb := f (lb ko) \<rparr>)"

definition upd_ct :: "ptr \<Rightarrow> (Container \<Rightarrow> Container) \<Rightarrow> unit kernel" where
  "upd_ct p f = upd_obj p (\<lambda>ko. ko\<lparr> ct := f (ct ko) \<rparr>)"

definition upd_as :: "ptr \<Rightarrow> (Address_space \<Rightarrow> Address_space) \<Rightarrow> unit kernel" where
  "upd_as p f = upd_obj p (\<lambda>ko. ko\<lparr> aspace := f (aspace ko) \<rparr>)"

definition upd_pi :: "ptr \<Rightarrow> (page_info \<Rightarrow> page_info) \<Rightarrow> unit kernel" where
  "upd_pi p f = kmod (\<lambda>s. s\<lparr> ks_pi := (ks_pi s)(p := f (ks_pi s p)) \<rparr>)"

definition upd_page :: "ptr \<Rightarrow> (page \<Rightarrow> page) \<Rightarrow> unit kernel" where
  "upd_page p f = kmod (\<lambda>s. s\<lparr> ks_page := (ks_page s)(p := f (ks_page s p)) \<rparr>)"

lemmas kstate_defs = obj_def hd_of_def upd_obj_def upd_hdr_def upd_th_def upd_lb_def upd_ct_def
  upd_as_def upd_pi_def upd_page_def

text \<open>Running an operation on a state, step by step.\<close>

lemmas krun = kcase kret_def kerr_def kpanic_def knofuel_def kassert_def kwhen_def kstate_defs

end
