(* ===== verification/Kobjbase.thy ===== *)
theory Kobjbase
  imports Kstate
begin

unbundle bit_operations_syntax

text \<open>
  The parts of \<^verbatim>\<open>src/kern/kern/kobj.c\<close> and \<^verbatim>\<open>kocache.c\<close> that need nothing else of the kernel: the
  dirty flag, header and page pins with their effect on the garbage-collection list, the number of
  pages of an object, the negative cache of object ids and the weak pointers of the label cache.

  An object is on \<^verbatim>\<open>ko_gc_list\<close> exactly when it has neither references nor header pins; the lemmas
  show that pinning and unpinning keep it so.
\<close>

subsection \<open>Header operations\<close>

definition kobject_dirty :: "ptr \<Rightarrow> unit kernel" where
  "kobject_dirty ko =
     kthen (kassert (ko \<noteq> 0))
       (upd_hdr ko (\<lambda>h. h\<lparr> ko_flags := ko_flags h OR KOBJ_DIRTY \<rparr>))"

definition kobject_npages :: "kobject_hdr \<Rightarrow> u64" where
  "kobject_npages kp = ROUNDUP (ko_nbytes kp) PGSIZE div PGSIZE"

definition gc_list_remove :: "ptr \<Rightarrow> unit kernel" where
  "gc_list_remove p = kmod (\<lambda>s. s\<lparr> ko_gc_list := remove1 p (ko_gc_list s) \<rparr>)"

definition gc_list_insert :: "ptr \<Rightarrow> unit kernel" where
  "gc_list_insert p = kmod (\<lambda>s. s\<lparr> ko_gc_list := p # ko_gc_list s \<rparr>)"

definition kobject_pin_hdr :: "ptr \<Rightarrow> unit kernel" where
  "kobject_pin_hdr m =
     kbind (hd_of m) (\<lambda>h.
     kthen (kwhen (ko_ref h = 0 \<and> ko_pin h = 0) (gc_list_remove m))
       (upd_hdr m (\<lambda>h. h\<lparr> ko_pin := ko_pin h + 1 \<rparr>)))"

definition kobject_unpin_hdr :: "ptr \<Rightarrow> unit kernel" where
  "kobject_unpin_hdr m =
     kbind (hd_of m) (\<lambda>h.
     if ko_pin h = 0 then kpanic
     else kthen (upd_hdr m (\<lambda>h. h\<lparr> ko_pin := ko_pin h - 1 \<rparr>))
       (kbind (hd_of m) (\<lambda>h. kwhen (ko_ref h = 0 \<and> ko_pin h = 0) (gc_list_insert m))))"

definition kobject_pin_page :: "ptr \<Rightarrow> unit kernel" where
  "kobject_pin_page m =
     kthen (upd_hdr m (\<lambda>h. h\<lparr> ko_pin_pg := ko_pin_pg h + 1 \<rparr>)) (kobject_pin_hdr m)"

definition kobject_unpin_page :: "ptr \<Rightarrow> unit kernel" where
  "kobject_unpin_page m =
     kbind (hd_of m) (\<lambda>h.
     if ko_pin_pg h = 0 then kpanic
     else kthen (upd_hdr m (\<lambda>h. h\<lparr> ko_pin_pg := ko_pin_pg h - 1 \<rparr>)) (kobject_unpin_hdr m))"

definition kobject_initial :: "kobject \<Rightarrow> bool" where
  "kobject_initial ko \<longleftrightarrow>
     ko_ref (hdr ko) = 0 \<or>
     (ko_type (hdr ko) = kobj_thread \<and>
      (th_status (th ko) = thread_runnable \<or> th_status (th ko) = thread_suspended))"

subsection \<open>The negative cache\<close>

definition neg_idx :: "u64 \<Rightarrow> nat" where
  "neg_idx kid = unat (kid mod of_nat kobj_neg_hash)"

definition upd_neg :: "nat \<Rightarrow> (neg_bucket \<Rightarrow> neg_bucket) \<Rightarrow> unit kernel" where
  "upd_neg i f = kmod (\<lambda>s. s\<lparr> kobject_neg := (kobject_neg s)(i := f (kobject_neg s i)) \<rparr>)"

definition kobject_negative_insert :: "u64 \<Rightarrow> unit kernel" where
  "kobject_negative_insert kid =
     upd_neg (neg_idx kid) (\<lambda>b.
       \<lparr> neg_next = (neg_next b + 1) mod kobj_neg_size, neg_ents = (neg_ents b)[neg_next b := kid] \<rparr>)"

definition kobject_negative_remove :: "u64 \<Rightarrow> unit kernel" where
  "kobject_negative_remove kid =
     upd_neg (neg_idx kid) (\<lambda>b. b\<lparr> neg_ents := map (\<lambda>e. if e = kid then 0 else e) (neg_ents b) \<rparr>)"

definition kobject_negative_contains :: "u64 \<Rightarrow> bool kernel" where
  "kobject_negative_contains kid = kget (\<lambda>s. kid \<in> set (neg_ents (kobject_neg s (neg_idx kid))))"

subsection \<open>Weak pointers\<close>

text \<open>The weak pointer \<open>wp\<close> is entry \<open>idx\<close> of the label cache of \<open>owner\<close>.\<close>

definition set_label_cache :: "ptr \<Rightarrow> kolabel \<Rightarrow> ptr \<Rightarrow> unit kernel" where
  "set_label_cache owner idx p =
     upd_obj owner (\<lambda>ko. ko\<lparr> ko_label_cache := (ko_label_cache ko)(idx := p) \<rparr>)"

definition kobj_weak_put :: "ptr \<Rightarrow> kolabel \<Rightarrow> ptr \<Rightarrow> unit kernel" where
  "kobj_weak_put owner idx ko =
     kbind (kget (\<lambda>s. ko_label_cache (ks_obj s owner) idx)) (\<lambda>old.
     kthen (kwhen (old \<noteq> 0)
              (upd_obj old (\<lambda>k. k\<lparr> ko_weak_refs := remove1 (owner, idx) (ko_weak_refs k) \<rparr>)))
    (kthen (kwhen (ko \<noteq> 0)
              (upd_obj ko (\<lambda>k. k\<lparr> ko_weak_refs := (owner, idx) # ko_weak_refs k \<rparr>)))
       (set_label_cache owner idx ko)))"

definition kobj_weak_drop :: "ptr \<Rightarrow> unit kernel" where
  "kobj_weak_drop p =
     kbind (kget (\<lambda>s. ko_weak_refs (ks_obj s p))) (\<lambda>refs.
     kthen (kfor (\<lambda>(owner, idx). set_label_cache owner idx 0) refs)
       (upd_obj p (\<lambda>k. k\<lparr> ko_weak_refs := [] \<rparr>)))"

lemmas kobjbase_defs = kobject_dirty_def gc_list_remove_def gc_list_insert_def kobject_pin_hdr_def
  kobject_unpin_hdr_def kobject_pin_page_def kobject_unpin_page_def upd_neg_def
  kobject_negative_insert_def kobject_negative_remove_def kobject_negative_contains_def
  set_label_cache_def kobj_weak_put_def kobj_weak_drop_def

subsection \<open>The garbage-collection list\<close>

definition unref :: "kstate \<Rightarrow> ptr \<Rightarrow> bool" where
  "unref s p \<longleftrightarrow> ko_ref (hdr (ks_obj s p)) = 0 \<and> ko_pin (hdr (ks_obj s p)) = 0"

text \<open>\<^verbatim>\<open>ko_gc_list\<close> lists, once each, exactly the objects in core without references and pins.\<close>

definition gc_inv :: "kstate \<Rightarrow> bool" where
  "gc_inv s \<longleftrightarrow> distinct (ko_gc_list s) \<and> set (ko_gc_list s) = {p \<in> set (ko_list s). unref s p}"

lemma gc_inv_frame:
  assumes "gc_inv s" "ko_list t = ko_list s" "ko_gc_list t = ko_gc_list s"
    and "\<And>p. ko_ref (hdr (ks_obj t p)) = ko_ref (hdr (ks_obj s p)) \<and>
              ko_pin (hdr (ks_obj t p)) = ko_pin (hdr (ks_obj s p))"
  shows "gc_inv t"
  using assms by (simp add: gc_inv_def unref_def)

text \<open>
  A header pin counter must not wrap around to zero: with \<open>2 ^ 32 - 1\<close> pins a further pin would
  make a pinned object look unpinned.
\<close>

lemma kobject_pin_hdr_gc_inv:
  assumes inv: "gc_inv s" and m: "m \<in> set (ko_list s)"
    and room: "ko_pin (hdr (ks_obj s m)) \<noteq> - 1"
  shows "gc_inv (snd (kobject_pin_hdr m s))"
proof -
  have "ko_pin (hdr (ks_obj s m)) + 1 \<noteq> 0"
    using room by (metis add.commute add_eq_0_iff add.inverse_inverse)
  then show ?thesis
    using inv m
    by (auto simp: gc_inv_def unref_def kobjbase_defs kstate_defs kdefs kwhen_def)
qed

lemma kobject_unpin_hdr_gc_inv:
  assumes inv: "gc_inv s" and m: "m \<in> set (ko_list s)"
  shows "gc_inv (snd (kobject_unpin_hdr m s))"
  using inv m
  by (auto simp: gc_inv_def unref_def kobjbase_defs kstate_defs kdefs kwhen_def)

subsection \<open>Pinning, as properties\<close>

definition pinned_state :: kstate where
  "pinned_state = kstate0\<lparr> ko_list := [1], ko_gc_list := [1] \<rparr>"

text \<open>
  pinning the header of an object in core, unless its 32-bit pin count is at its maximum,
  keeps \<open>ko_gc_list\<close> equal to the objects in core that have neither references nor pins, each
  listed once.
\<close>

theorem kobject_pin_hdr_gc:
  assumes "gc_inv s" "m \<in> set (ko_list s)" "ko_pin (hdr (ks_obj s m)) \<noteq> - 1"
    "kobject_pin_hdr m s = (r, t)"
  shows "r = Ret () \<and> gc_inv t \<and> ko_pin (hdr (ks_obj t m)) = ko_pin (hdr (ks_obj s m)) + 1 \<and>
         m \<notin> set (ko_gc_list t)"
proof -
  have pin: "ko_pin (hdr (ks_obj t m)) = ko_pin (hdr (ks_obj s m)) + 1" "r = Ret ()"
    using assms(4) by (auto simp: kobjbase_defs kstate_defs kdefs kwhen_def split: if_splits)
  moreover have "gc_inv t" using kobject_pin_hdr_gc_inv [OF assms(1-3)] assms(4) by simp
  moreover have "ko_pin (hdr (ks_obj s m)) + 1 \<noteq> 0"
    using assms(3) by (metis add.commute add_eq_0_iff add.inverse_inverse)
  ultimately show ?thesis by (auto simp: gc_inv_def unref_def)
qed

theorem kobject_pin_hdr_gc_witness:
  "gc_inv pinned_state \<and> gc_inv (snd (kobject_pin_hdr 1 pinned_state)) \<and>
   1 \<notin> set (ko_gc_list (snd (kobject_pin_hdr 1 pinned_state)))"
proof -
  have "gc_inv pinned_state"
    by (auto simp: gc_inv_def unref_def pinned_state_def kstate0_def kobject0_def hdr0_def)
  then show ?thesis
    using kobject_pin_hdr_gc [of pinned_state 1 "fst (kobject_pin_hdr 1 pinned_state)"
        "snd (kobject_pin_hdr 1 pinned_state)"]
    by (simp add: pinned_state_def kstate0_def kobject0_def hdr0_def)
qed

text \<open>
  \<open>kobject_unpin_hdr\<close> panics exactly on an unpinned object; otherwise it drops one pin and
  puts the object on \<open>ko_gc_list\<close> if it was the last one and there are no references.
\<close>

theorem kobject_unpin_hdr_gc:
  assumes "gc_inv s" "m \<in> set (ko_list s)" "kobject_unpin_hdr m s = (r, t)"
  shows "(r = Panic \<longleftrightarrow> ko_pin (hdr (ks_obj s m)) = 0) \<and> gc_inv t \<and>
         (r = Ret () \<longrightarrow> ko_pin (hdr (ks_obj t m)) = ko_pin (hdr (ks_obj s m)) - 1 \<and>
            (m \<in> set (ko_gc_list t) \<longleftrightarrow> ko_pin (hdr (ks_obj s m)) = 1 \<and> ko_ref (hdr (ks_obj s m)) = 0))"
proof -
  have "gc_inv t" using kobject_unpin_hdr_gc_inv [OF assms(1,2)] assms(3) by simp
  then show ?thesis
    using assms
    by (auto simp: kobjbase_defs kstate_defs kdefs kwhen_def gc_inv_def unref_def split: if_splits)
qed

theorem kobject_unpin_hdr_gc_witness:
  "gc_inv pinned_state \<and> fst (kobject_unpin_hdr 1 pinned_state) = Panic"
proof -
  have "gc_inv pinned_state"
    by (auto simp: gc_inv_def unref_def pinned_state_def kstate0_def kobject0_def hdr0_def)
  then show ?thesis
    using kobject_unpin_hdr_gc [of pinned_state 1 "fst (kobject_unpin_hdr 1 pinned_state)"
        "snd (kobject_unpin_hdr 1 pinned_state)"]
    by (simp add: pinned_state_def kstate0_def kobject0_def hdr0_def)
qed

subsection \<open>The negative cache as a cache of absent ids\<close>

text \<open>
  What a cache of absent ids owes its client: an id that is reported absent was inserted, and not
  removed since.
\<close>

datatype neg_op = NegInsert u64 | NegRemove u64

locale absence_cache =
  fixes has :: "'s \<Rightarrow> u64 \<Rightarrow> bool"
    and ins :: "u64 \<Rightarrow> 's \<Rightarrow> 's"
    and rem :: "u64 \<Rightarrow> 's \<Rightarrow> 's"
  assumes ins_only: "has (ins k s) k' \<Longrightarrow> k' \<noteq> 0 \<Longrightarrow> k' = k \<or> has s k'"
    and rem_only: "has (rem k s) k' \<Longrightarrow> k' \<noteq> 0 \<Longrightarrow> k' \<noteq> k \<and> has s k'"
begin

primrec run :: "neg_op list \<Rightarrow> 's \<Rightarrow> 's" where
  "run [] s = s"
| "run (x # xs) s = run xs (case x of NegInsert k \<Rightarrow> ins k s | NegRemove k \<Rightarrow> rem k s)"

lemma run_append: "run (xs @ ys) s = run ys (run xs s)"
  by (induction xs arbitrary: s) simp_all

lemma run_sound:
  assumes "has (run ops s) k" "k \<noteq> 0" "\<not> has s k"
  shows "\<exists>pre post. ops = pre @ NegInsert k # post \<and> NegRemove k \<notin> set post"
  using assms
proof (induction ops rule: rev_induct)
  case Nil
  then show ?case by simp
next
  case (snoc x xs)
  show ?case
  proof (cases "x = NegInsert k")
    case True
    then show ?thesis by (intro exI [of _ xs] exI [of _ "[]"]) simp
  next
    case False
    then have has: "has (run xs s) k" "x \<noteq> NegRemove k"
      using snoc.prems(1,2) ins_only rem_only by (cases x; fastforce simp: run_append)+
    then obtain pre post where "xs = pre @ NegInsert k # post" "NegRemove k \<notin> set post"
      using snoc.IH snoc.prems by blast
    then show ?thesis using has(2) by (intro exI [of _ pre] exI [of _ "post @ [x]"]) auto
  qed
qed

end

definition neg_has :: "kstate \<Rightarrow> u64 \<Rightarrow> bool" where
  "neg_has s k = (fst (kobject_negative_contains k s) = Ret True)"

lemma neg_has_eq: "neg_has s k \<longleftrightarrow> k \<in> set (neg_ents (kobject_neg s (neg_idx k)))"
  by (simp add: neg_has_def kobject_negative_contains_def)

interpretation neg: absence_cache neg_has
  "\<lambda>k s. snd (kobject_negative_insert k s)" "\<lambda>k s. snd (kobject_negative_remove k s)"
proof
  fix k s k'
  assume "neg_has (snd (kobject_negative_insert k s)) k'"
  then show "k' = k \<or> neg_has s k'"
    using set_update_subset_insert [of "neg_ents (kobject_neg s (neg_idx k))"]
    by (auto simp: neg_has_eq kobject_negative_insert_def upd_neg_def split: if_splits)
next
  fix k s k'
  assume "neg_has (snd (kobject_negative_remove k s)) k'" "k' \<noteq> (0 :: u64)"
  then show "k' \<noteq> k \<and> neg_has s k'"
    by (auto simp: neg_has_eq kobject_negative_remove_def upd_neg_def split: if_splits)
qed

primrec neg_run :: "neg_op list \<Rightarrow> kstate \<Rightarrow> kstate" where
  "neg_run [] s = s"
| "neg_run (x # xs) s = neg_run xs (case x of
       NegInsert k \<Rightarrow> snd (kobject_negative_insert k s)
     | NegRemove k \<Rightarrow> snd (kobject_negative_remove k s))"

lemma neg_run_eq: "neg_run ops s = neg.run ops s"
  by (induction ops arbitrary: s) simp_all

text \<open>
  C35: the negative cache never claims the absence of an object that was not looked up in vain: if
  after any sequence of insertions and removals \<open>kobject_negative_contains\<close> reports a non-zero id
  that was not cached at the start, then the id was inserted and not removed afterwards.
\<close>

theorem kobject_negative_sound:
  assumes "fst (kobject_negative_contains k (neg_run ops s)) = Ret True" "k \<noteq> 0"
    "fst (kobject_negative_contains k s) \<noteq> Ret True"
  shows "\<exists>pre post. ops = pre @ NegInsert k # post \<and> NegRemove k \<notin> set post"
  using neg.run_sound [of ops s k] assms by (simp add: neg_run_eq neg_has_def)

lemma replicate_two: "replicate 2 x = [x, x]"
  by (simp add: numeral_2_eq_2)

theorem kobject_negative_sound_witness:
  "fst (kobject_negative_contains 5 kstate0) \<noteq> Ret True \<and>
   fst (kobject_negative_contains 5 (neg_run [NegRemove 5, NegInsert 5, NegRemove 9] kstate0)) = Ret True \<and>
   (\<exists>pre post. [NegRemove 5, NegInsert 5, NegRemove 9] = pre @ NegInsert 5 # post \<and> NegRemove 5 \<notin> set post)"
proof -
  have "fst (kobject_negative_contains 5 kstate0) \<noteq> Ret True"
    "fst (kobject_negative_contains 5 (neg_run [NegRemove 5, NegInsert 5, NegRemove 9] kstate0)) = Ret True"
    by (simp_all add: kobject_negative_insert_def kobject_negative_remove_def upd_neg_def
      kobject_negative_contains_def neg_idx_def kstate0_def kobj_neg_size_def kobj_neg_hash_def replicate_two)
  then show ?thesis using kobject_negative_sound [of 5 "[NegRemove 5, NegInsert 5, NegRemove 9]" kstate0] by simp
qed

end
