(* ===== verification/Sched.thy ===== *)
theory Sched
  imports Kobjbase
begin

unbundle bit_operations_syntax

text \<open>
  The stride scheduler's arithmetic (\<^verbatim>\<open>src/kern/kern/sched.c\<close>) and the clock
  (\<^verbatim>\<open>src/kern/kern/timer.c\<close>). Pass values are 64-bit and wrap around; they are only ever compared
  through the sign of their difference.
\<close>

subsection \<open>Clocks\<close>

definition karch_get_tsc :: "u64 kernel" where
  "karch_get_tsc =
     kbind (kget (\<lambda>s. tsc_in s (tsc_pos s))) (\<lambda>v.
     kthen (kmod (\<lambda>s. s\<lparr> tsc_pos := tsc_pos s + 1 \<rparr>)) (kret v))"

definition timesrc_ticks :: "u64 kernel" where
  "timesrc_ticks =
     kbind (kget (\<lambda>s. ticks_in s (ticks_pos s))) (\<lambda>v.
     kthen (kmod (\<lambda>s. s\<lparr> ticks_pos := ticks_pos s + 1 \<rparr>)) (kret v))"

definition timer_convert :: "u64 \<Rightarrow> u64 \<Rightarrow> u64 \<Rightarrow> u64" where
  "timer_convert n a b =
     (let hi = drop_bit 32 n;
          lo = n AND 0xffffffff;
          hi_hz = hi * a;
          hi_b = hi_hz div b;
          hi_hz_carry = hi_hz - hi_b * b;
          lo_hz = lo * a + push_bit 32 hi_hz_carry;
          lo_b = lo_hz div b
      in push_bit 32 hi_b + lo_b)"

definition timer_user_nsec :: "u64 kernel" where
  "timer_user_nsec =
     kbind timesrc_ticks (\<lambda>ticks.
     kget (\<lambda>s. timer_convert ticks 1000000000 (timesrc_freq_hz s) + timer_user_nsec_offset s))"

subsection \<open>Passes and tickets\<close>

definition global_pass_update :: "u64 \<Rightarrow> unit kernel" where
  "global_pass_update new_global_pass =
     kbind karch_get_tsc (\<lambda>tsc.
     kbind (kget (\<lambda>s. tsc - last_tsc s)) (\<lambda>elapsed.
     kthen (kmod (\<lambda>s. s\<lparr> last_tsc := last_tsc s + elapsed \<rparr>))
       (kmod (\<lambda>s.
          if new_global_pass \<noteq> 0 then s\<lparr> global_pass := new_global_pass \<rparr>
          else if global_tickets s \<noteq> 0
          then s\<lparr> global_pass := global_pass s + (stride1 s div global_tickets s) * elapsed \<rparr>
          else s))))"

definition sched_pass_below :: "u64 \<Rightarrow> u64 \<Rightarrow> bool" where
  "sched_pass_below pass thresh \<longleftrightarrow> sint (pass - thresh) < 0"

text \<open>The loop of \<^verbatim>\<open>schedule\<close> over \<^verbatim>\<open>thread_list_runnable\<close> that looks for the lowest pass.\<close>

fun sched_min_pass :: "(ptr \<Rightarrow> u64) \<Rightarrow> ptr list \<Rightarrow> ptr \<Rightarrow> ptr" where
  "sched_min_pass pass [] min_pass_th = min_pass_th"
| "sched_min_pass pass (t # ts) min_pass_th =
     sched_min_pass pass ts
       (if min_pass_th = 0 \<or> sched_pass_below (pass t) (pass min_pass_th) then t else min_pass_th)"

definition sched_join :: "ptr \<Rightarrow> unit kernel" where
  "sched_join t =
     kthen (global_pass_update 0)
    (kbind (kget global_pass) (\<lambda>gp.
     kthen (upd_th t (\<lambda>x. x\<lparr> th_sched_pass := gp + th_sched_pass x \<rparr>))
       (kmod (\<lambda>s. s\<lparr> global_tickets := global_tickets s + ucast (th_sched_tickets (th (ks_obj s t))) \<rparr>))))"

definition sched_leave :: "ptr \<Rightarrow> unit kernel" where
  "sched_leave t =
     kthen (global_pass_update 0)
    (kbind (kget global_pass) (\<lambda>gp.
     kthen (upd_th t (\<lambda>x. x\<lparr> th_sched_pass := th_sched_pass x - gp \<rparr>))
       (kmod (\<lambda>s. s\<lparr> global_tickets := global_tickets s - ucast (th_sched_tickets (th (ks_obj s t))) \<rparr>))))"

definition sched_stop :: "ptr \<Rightarrow> u64 \<Rightarrow> unit kernel" where
  "sched_stop t elapsed =
     kbind (kget stride1) (\<lambda>stride.
     upd_th t (\<lambda>x.
       let tickets = (if th_sched_tickets x = 0 then 1 else ucast (th_sched_tickets x));
           th_stride = stride div tickets
       in x\<lparr> th_sched_pass := th_sched_pass x + th_stride * elapsed \<rparr>))"

definition sched_init :: "unit kernel" where
  "sched_init = kmod (\<lambda>s. s\<lparr> stride1 := push_bit 32 1 \<rparr>)"

lemmas sched_defs = karch_get_tsc_def global_pass_update_def sched_join_def sched_leave_def

subsection \<open>Comparing passes within a window\<close>

lemma top_bit_iff: "bit (d :: u64) 63 \<longleftrightarrow> 2 ^ 63 \<le> unat d"
proof -
  have "d < 2 ^ 63" if "\<not> bit d 63"
  proof (rule not_bit_less_exp)
    fix i :: nat assume "63 \<le> i"
    then show "\<not> bit d i" using that bit_imp_le_length [of d i] by (cases "i = 63") auto
  qed simp
  then have "bit d 63 \<longleftrightarrow> \<not> d < 2 ^ 63"
    using less_exp_not_bit [of d 63 63] by auto
  then show ?thesis by (simp add: word_less_nat_alt not_less)
qed

lemma sched_pass_below_iff:
  "sched_pass_below pass thresh \<longleftrightarrow> 2 ^ 63 \<le> unat (pass - thresh)"
proof -
  have "sint (pass - thresh) < 0 \<longleftrightarrow> bit (pass - thresh) 63"
    by (simp add: sint_uint signed_take_bit_negative_iff bit_uint_iff flip: bit_0)
  then show ?thesis by (simp add: sched_pass_below_def top_bit_iff)
qed

text \<open>
  When two passes lie less than \<open>2 ^ 63\<close> after a common base, the signed difference orders them
  by their distance from the base, also across a wrap-around.
\<close>

lemma sched_pass_below_window:
  assumes "unat (p - base) < 2 ^ 63" "unat (q - base) < 2 ^ 63"
  shows "sched_pass_below p q \<longleftrightarrow> unat (p - base) < unat (q - base)"
proof -
  have d: "p - q = (p - base) - (q - base)" by simp
  show ?thesis
  proof (cases "unat (q - base) \<le> unat (p - base)")
    case True
    then have "unat (p - q) = unat (p - base) - unat (q - base)"
      by (subst d, intro unat_sub) (simp add: word_le_nat_alt)
    then show ?thesis using True assms by (simp add: sched_pass_below_iff)
  next
    case False
    then have "unat (p - q) = 2 ^ 64 - (unat (q - base) - unat (p - base))"
      by (subst d, subst unat_sub_if_size) (simp add: word_size)
    then show ?thesis using False assms by (simp add: sched_pass_below_iff)
  qed
qed

lemma sched_min_pass_least:
  assumes "\<And>t. t \<in> insert m (set ts) \<Longrightarrow> unat (pass t - base) < 2 ^ 63" "m \<noteq> 0" "0 \<notin> set ts"
  shows "sched_min_pass pass ts m \<in> insert m (set ts) \<and>
     (\<forall>t \<in> insert m (set ts). unat (pass (sched_min_pass pass ts m) - base) \<le> unat (pass t - base))"
  using assms
proof (induction ts arbitrary: m)
  case Nil
  then show ?case by simp
next
  case (Cons t ts)
  let ?m = "if sched_pass_below (pass t) (pass m) then t else m"
  have below: "sched_pass_below (pass t) (pass m) \<longleftrightarrow> unat (pass t - base) < unat (pass m - base)"
    using Cons.prems(1) by (intro sched_pass_below_window) auto
  have "sched_min_pass pass ts ?m \<in> insert ?m (set ts) \<and>
     (\<forall>t \<in> insert ?m (set ts). unat (pass (sched_min_pass pass ts ?m) - base) \<le> unat (pass t - base))"
    using Cons.prems by (intro Cons.IH) auto
  then show ?case
    using below Cons.prems(2) by (auto split: if_splits)
qed

subsection \<open>Exact word arithmetic for the clock\<close>

lemma unat_mult_exact: "unat x * unat y < 2 ^ 64 \<Longrightarrow> unat (x * y :: u64) = unat x * unat y"
  by (simp add: unat_word_ariths)

lemma unat_add_exact: "unat x + unat y < 2 ^ 64 \<Longrightarrow> unat (x + y :: u64) = unat x + unat y"
  by (simp add: unat_word_ariths)

lemma unat_push_bit_32: "unat w * 2 ^ 32 < 2 ^ 64 \<Longrightarrow> unat (push_bit 32 w :: u64) = unat w * 2 ^ 32"
  using unat_mult_exact [of w "2 ^ 32"] by (simp add: push_bit_eq_mult)

lemma unat_drop_bit_32: "unat (drop_bit 32 n :: u64) = unat n div 2 ^ 32"
  by (simp add: drop_bit_eq_div unat_div)

lemma unat_and_32: "unat (n AND 0xffffffff :: u64) = unat n mod 2 ^ 32"
proof -
  have "n AND 0xffffffff = take_bit 32 n" by (simp add: take_bit_eq_mask mask_eq_exp_minus_1)
  then show ?thesis by (simp add: take_bit_eq_mod unat_mod_distrib)
qed

lemma timer_convert_bounds:
  assumes "n < 2 ^ 64" "a \<le> 2 ^ 31" "b \<le> 2 ^ 31" "0 < (b :: nat)"
  shows "n div 2 ^ 32 * a < 2 ^ 64"
    and "n mod 2 ^ 32 * a + (n div 2 ^ 32 * a mod b) * 2 ^ 32 < 2 ^ 64"
proof -
  have "n div 2 ^ 32 < 2 ^ 32" using assms(1) by (simp add: less_mult_imp_div_less)
  then have "n div 2 ^ 32 * a \<le> (2 ^ 32 - 1) * 2 ^ 31" using assms(2) by (intro mult_le_mono) auto
  then show "n div 2 ^ 32 * a < 2 ^ 64" by simp
  have "n mod 2 ^ 32 * a \<le> (2 ^ 32 - 1) * 2 ^ 31"
    using assms(2) by (intro mult_le_mono) (auto simp: less_Suc_eq_le [symmetric])
  moreover have "n div 2 ^ 32 * a mod b \<le> 2 ^ 31 - 1"
    using assms(3,4) mod_less_divisor [of b "n div 2 ^ 32 * a"] by linarith
  then have "(n div 2 ^ 32 * a mod b) * 2 ^ 32 \<le> (2 ^ 31 - 1) * 2 ^ 32" by (intro mult_le_mono) auto
  ultimately show "n mod 2 ^ 32 * a + (n div 2 ^ 32 * a mod b) * 2 ^ 32 < 2 ^ 64" by simp
qed

lemma timer_convert_split:
  assumes "0 < (b :: nat)"
  shows "n div K * a div b * K + (n mod K * a + n div K * a mod b * K) div b = n * a div b"
proof -
  define h l q r where "h = n div K" and "l = n mod K" and "q = h * a div b" and "r = h * a mod b"
  have n: "n = h * K + l" by (simp add: h_def l_def)
  have ha: "h * a = q * b + r" by (simp add: q_def r_def)
  have "n * a = (h * a) * K + l * a" unfolding n by (simp add: algebra_simps)
  then have "n * a = (q * K) * b + (l * a + r * K)" unfolding ha by (simp add: algebra_simps)
  then show ?thesis using assms by (simp add: h_def [symmetric] l_def [symmetric] q_def [symmetric] r_def [symmetric])
qed

subsection \<open>Properties\<close>

text \<open>
  C33: the scheduler's choice. If the passes of all runnable threads lie within \<open>2 ^ 63\<close> after
  some common base, the loop of \<open>schedule\<close> selects one of the threads whose pass is the earliest,
  even when the 64-bit pass values have wrapped around.
\<close>

theorem schedule_picks_earliest:
  assumes "ts \<noteq> []" "0 \<notin> set ts" "\<forall>t \<in> set ts. unat (pass t - base) < 2 ^ 63"
  shows "sched_min_pass pass ts 0 \<in> set ts \<and>
     (\<forall>t \<in> set ts. unat (pass (sched_min_pass pass ts 0) - base) \<le> unat (pass t - base))"
proof -
  obtain u us where "ts = u # us" using assms(1) by (cases ts) auto
  then show ?thesis using sched_min_pass_least [of u us pass base] assms by auto
qed

theorem schedule_picks_earliest_witness:
  "sched_min_pass (\<lambda>t. if t = 1 then 5 else - 7) [1, 2] 0 = 2"
  using schedule_picks_earliest [of "[1, 2]" "\<lambda>t. if t = 1 then 5 else - 7" "- 8"]
  by (auto simp: split: if_splits)

text \<open>
  C36: \<open>timer_convert\<close> computes \<open>n * a div b\<close> exactly, without overflow in its intermediate
  values, whenever \<open>b\<close> is not 0, \<open>a\<close> and \<open>b\<close> are at most \<open>2 ^ 31\<close> and the result fits in 64 bits.
\<close>

theorem timer_convert_exact:
  assumes "0 < b" "unat a \<le> 2 ^ 31" "unat b \<le> 2 ^ 31" "unat n * unat a div unat b < 2 ^ 64"
  shows "unat (timer_convert n a b) = unat n * unat a div unat b"
proof -
  let ?hi = "unat n div 2 ^ 32" and ?lo = "unat n mod 2 ^ 32"
  let ?hz = "?hi * unat a" and ?lz = "?lo * unat a + ?hi * unat a mod unat b * 2 ^ 32"
  have b0: "0 < unat b" using assms(1) by (simp add: word_less_nat_alt)
  have hz: "?hz < 2 ^ 64" and lz: "?lz < 2 ^ 64"
    using timer_convert_bounds [of "unat n" "unat a" "unat b"] unat_less_exp [of n] assms(2,3) b0
    by simp_all
  have hi: "unat (drop_bit 32 n * a) = ?hz"
    using hz by (simp add: unat_mult_exact unat_drop_bit_32)
  have hb: "unat (drop_bit 32 n * a div b) = ?hz div unat b"
    by (simp add: unat_div hi)
  have carry: "unat (drop_bit 32 n * a - drop_bit 32 n * a div b * b) = ?hz mod unat b"
    unfolding minus_div_mult_eq_mod by (simp add: unat_mod_distrib hi)
  have lo: "unat ((n AND 0xffffffff) * a + push_bit 32 (drop_bit 32 n * a - drop_bit 32 n * a div b * b)) = ?lz"
    using lz by (simp add: unat_add_exact unat_mult_exact unat_push_bit_32 carry unat_and_32)
  have split: "?hz div unat b * 2 ^ 32 + ?lz div unat b = unat n * unat a div unat b"
    by (rule timer_convert_split [OF b0])
  then have "?hz div unat b * 2 ^ 32 < 2 ^ 64" using assms(4) by linarith
  then show ?thesis
    unfolding timer_convert_def Let_def
    using split assms(4) hb lo by (simp add: unat_add_exact unat_push_bit_32 unat_div)
qed

theorem timer_convert_exact_witness:
  "unat (timer_convert 0x123456789abc 1000000000 1193182) = 0x123456789abc * 1000000000 div 1193182"
  using timer_convert_exact [of 1193182 1000000000 "0x123456789abc"] by simp

text \<open>
  The comment in the source has \<open>a\<close> and \<open>b\<close> on the order of \<open>2 ^ 32\<close>; with both near that number the sum for the lower half can overflow
  although the result fits.
\<close>

lemma timer_convert_overflow:
  "unat (timer_convert 0x80000000ffffffff 0xffffffff 0x100000000) \<noteq> 0x80000000ffffffff * 0xffffffff div 0x100000000"
  by (simp add: timer_convert_def)

end
