(* ===== verification/Threads.thy ===== *)
theory Threads
  imports Sched
begin

unbundle bit_operations_syntax

text \<open>
  Thread states and thread lists: the first half of \<^verbatim>\<open>src/kern/kern/thread.c\<close>, with
  \<^verbatim>\<open>sync_remove_thread\<close> of \<^verbatim>\<open>src/kern/kern/sync.c\<close>, on which unlinking a waiting thread relies.

  A runnable thread is on the list of runnable threads, has joined the scheduler and is pinned; a
  suspended thread is on exactly one other list and pinned; any other thread is on no list. The
  operations keep this, and they keep the scheduler's total of tickets equal to the sum over the
  threads that have joined.
\<close>

subsection \<open>Operations\<close>

definition thread_pin :: "ptr \<Rightarrow> unit kernel" where
  "thread_pin t =
     kbind (obj t) (\<lambda>ko.
     kwhen (\<not> th_pinned (th ko))
       (kthen (upd_th t (\<lambda>x. x\<lparr> th_pinned := True \<rparr>)) (kobject_pin_hdr t)))"

definition thread_unpin :: "ptr \<Rightarrow> unit kernel" where
  "thread_unpin t =
     kbind (obj t) (\<lambda>ko.
     kwhen (th_pinned (th ko))
       (kthen (upd_th t (\<lambda>x. x\<lparr> th_pinned := False \<rparr>)) (kobject_unpin_hdr t)))"

text \<open>The hash buckets of waiting slots, by segment offset and by container entry.\<close>

definition sync_addr_head :: "u64 \<Rightarrow> u64 \<Rightarrow> u64" where
  "sync_addr_head seg_id offset = (seg_id XOR drop_bit 3 offset) AND 511"

definition sync_cobj_head :: "cobj_ref \<Rightarrow> u64" where
  "sync_cobj_head cobj = (cobj_container cobj XOR cobj_object cobj) AND 511"

definition list_succ :: "'a list \<Rightarrow> 'a \<Rightarrow> 'a option" where
  "list_succ xs x = (case dropWhile (\<lambda>y. y \<noteq> x) xs of _ # y # _ \<Rightarrow> Some y | _ \<Rightarrow> None)"

text \<open>
  \<^verbatim>\<open>LIST_REMOVE\<close> takes a slot off the lists it is on and leaves its own \<^verbatim>\<open>le_next\<close> pointers as they were:
  \<open>sw_addr_next\<close> and \<open>sw_cobj_next\<close> are these left-over pointers.
\<close>

definition sync_slot_remove :: "swloc \<Rightarrow> kstate \<Rightarrow> kstate" where
  "sync_slot_remove sw s =
     (let w = ks_sw s sw; on_cobj = (cobj_object (sw_cobj w) \<noteq> 0)
      in s\<lparr> sync_addr_waiting := (\<lambda>h. remove1 sw (sync_addr_waiting s h)),
            sync_cobj_waiting := (if on_cobj then (\<lambda>h. remove1 sw (sync_cobj_waiting s h)) else sync_cobj_waiting s),
            ks_sw := (ks_sw s)(sw := w\<lparr>
              sw_addr_next := list_succ (sync_addr_waiting s (sync_addr_head (sw_seg w) (sw_offset w))) sw,
              sw_cobj_next := (if on_cobj then list_succ (sync_cobj_waiting s (sync_cobj_head (sw_cobj w))) sw
                               else sw_cobj_next w) \<rparr>) \<rparr>)"

definition sync_remove_thread :: "ptr \<Rightarrow> unit kernel" where
  "sync_remove_thread t =
     kbind (obj t) (\<lambda>ko.
     kthen (kassert (th_sync_waiting (th ko)))
    (kthen (upd_th t (\<lambda>x. x\<lparr> th_sync_waiting := False \<rparr>))
    (kthen (kfor (\<lambda>sw. kmod (sync_slot_remove sw)) (te_wait_slots (ko_th_e ko)))
       (upd_obj t (\<lambda>k. k\<lparr> ko_th_e := (ko_th_e k)\<lparr> te_wait_slots := [] \<rparr> \<rparr>)))))"

definition thread_list_remove :: "ptr \<Rightarrow> unit kernel" where
  "thread_list_remove t = kmod (\<lambda>s. s\<lparr> thread_list := (\<lambda>q. remove1 t (thread_list s q)) \<rparr>)"

definition thread_unlink :: "ptr \<Rightarrow> unit kernel" where
  "thread_unlink t =
     kbind (obj t) (\<lambda>ko.
     kthen (kwhen (th_linked (th ko))
              (kthen (thread_list_remove t) (upd_th t (\<lambda>x. x\<lparr> th_linked := False \<rparr>))))
    (kbind (obj t) (\<lambda>ko.
     kwhen (th_sync_waiting (th ko)) (sync_remove_thread t))))"

definition thread_link :: "ptr \<Rightarrow> waitq \<Rightarrow> unit kernel" where
  "thread_link t tlist =
     kbind (obj t) (\<lambda>ko.
     kthen (kassert (\<not> th_linked (th ko)))
    (kthen (kmod (\<lambda>s. s\<lparr> thread_list := (thread_list s)(tlist := t # thread_list s tlist) \<rparr>))
       (upd_th t (\<lambda>x. x\<lparr> th_linked := True \<rparr>))))"

definition thread_sched_adjust :: "ptr \<Rightarrow> bool \<Rightarrow> unit kernel" where
  "thread_sched_adjust t runnable =
     kbind (obj t) (\<lambda>ko.
     kthen (kwhen (th_sched_joined (th ko) \<and> \<not> runnable)
              (kthen (sched_leave t) (upd_th t (\<lambda>x. x\<lparr> th_sched_joined := False \<rparr>))))
    (kbind (obj t) (\<lambda>ko.
     kwhen (\<not> th_sched_joined (th ko) \<and> runnable)
       (kthen (sched_join t) (upd_th t (\<lambda>x. x\<lparr> th_sched_joined := True \<rparr>))))))"

definition thread_set_runnable :: "ptr \<Rightarrow> unit kernel" where
  "thread_set_runnable t =
     kthen (kobject_dirty t)
    (kthen (thread_sched_adjust t False)
    (kthen (thread_unlink t)
    (kthen (thread_link t thread_list_runnable)
    (kthen (upd_th t (\<lambda>x. x\<lparr> th_status := thread_runnable \<rparr>))
    (kthen (thread_sched_adjust t True)
       (thread_pin t))))))"

definition thread_suspend :: "ptr \<Rightarrow> waitq \<Rightarrow> unit kernel" where
  "thread_suspend t waitq =
     kthen (kobject_dirty t)
    (kthen (thread_sched_adjust t False)
    (kthen (thread_unlink t)
    (kthen (thread_link t waitq)
    (kthen (upd_th t (\<lambda>x. x\<lparr> th_status := thread_suspended \<rparr>))
       (thread_pin t)))))"

definition thread_halt :: "ptr \<Rightarrow> unit kernel" where
  "thread_halt t =
     kthen (kobject_dirty t)
    (kthen (thread_sched_adjust t False)
    (kthen (thread_unlink t)
    (kthen (upd_th t (\<lambda>x. x\<lparr> th_status := thread_halted \<rparr>))
    (kthen (thread_unpin t)
       (kmod (\<lambda>s. if cur_thread s = t then s\<lparr> cur_thread := 0 \<rparr> else s))))))"

definition thread_suspend_cur :: "waitq \<Rightarrow> unit kernel" where
  "thread_suspend_cur waitq =
     kbind (kget cur_thread) (\<lambda>cur.
     if cur \<noteq> 0 then thread_suspend cur waitq
     else kbind (kget cur_waitlist) (\<lambda>cw.
       case cw of
         None \<Rightarrow> kret ()
       | Some wl \<Rightarrow>
           if wl = waitq then kret ()
           else kbind (kget (\<lambda>s. thread_list s wl)) (\<lambda>ts.
             case ts of [] \<Rightarrow> kret () | t # _ \<Rightarrow> thread_suspend t waitq)))"

definition thread_swapin :: "ptr \<Rightarrow> unit kernel" where
  "thread_swapin t =
     kthen (upd_th t (\<lambda>x. x\<lparr> th_as := 0, th_pinned := False, th_sched_joined := False,
       th_sync_waiting := False, th_linked := False, th_sched_pass := 0,
       th_status := (if th_status x = thread_suspended then thread_runnable else th_status x) \<rparr>))
    (kbind (obj t) (\<lambda>ko.
     kwhen (th_status (th ko) = thread_runnable)
       (kthen (thread_link t thread_list_runnable)
       (kthen (thread_sched_adjust t True) (thread_pin t)))))"

definition thread_clear_as :: "ptr \<Rightarrow> unit kernel" where
  "thread_clear_as t =
     kbind (obj t) (\<lambda>ko.
     kwhen (th_as (th ko) \<noteq> 0)
       (kthen (kobject_unpin_hdr (th_as (th ko))) (upd_th t (\<lambda>x. x\<lparr> th_as := 0 \<rparr>))))"

definition thread_swapout :: "ptr \<Rightarrow> unit kernel" where
  "thread_swapout t =
     kthen (thread_unpin t)
    (kthen (thread_sched_adjust t False)
    (kthen (thread_unlink t) (thread_clear_as t)))"

definition thread_disable_fp :: "ptr \<Rightarrow> unit kernel" where
  "thread_disable_fp t = kthen (kobject_dirty t) (upd_th t (\<lambda>x. x\<lparr> th_fp_enabled := False \<rparr>))"

definition thread_change_as :: "ptr \<Rightarrow> cobj_ref \<Rightarrow> unit kernel" where
  "thread_change_as t asref =
     kthen (kobject_dirty t)
    (kthen (thread_clear_as t) (upd_th t (\<lambda>x. x\<lparr> th_asref := asref \<rparr>)))"

lemmas thread_defs = thread_pin_def thread_unpin_def thread_list_remove_def thread_unlink_def
  thread_link_def thread_sched_adjust_def

subsection \<open>What the operations do to the thread lists and the scheduler\<close>

text \<open>The part of the state the invariants are about.\<close>

record tview =
  v_status :: thread_status
  v_linked :: bool
  v_joined :: bool
  v_pinned :: bool
  v_tickets :: u32

definition tview :: "kstate \<Rightarrow> ptr \<Rightarrow> tview" where
  "tview s p = (let x = th (ks_obj s p) in
     \<lparr> v_status = th_status x, v_linked = th_linked x, v_joined = th_sched_joined x,
       v_pinned = th_pinned x, v_tickets = th_sched_tickets x \<rparr>)"

text \<open>Header pins; \<open>hview\<close> is all that the garbage-collection list depends on.\<close>

definition hview :: "kstate \<Rightarrow> ptr \<Rightarrow> u64 \<times> u32" where
  "hview s p = (ko_ref (hdr (ks_obj s p)), ko_pin (hdr (ks_obj s p)))"

definition same_lists :: "kstate \<Rightarrow> kstate \<Rightarrow> bool" where
  "same_lists s t \<longleftrightarrow> ko_list t = ko_list s \<and> ko_gc_list t = ko_gc_list s \<and> hview t = hview s"

definition ticket_val :: "tview \<Rightarrow> u64" where
  "ticket_val v = (if v_joined v then ucast (v_tickets v) else 0)"

lemma tview_simps [simp]:
  "v_status (tview s p) = th_status (th (ks_obj s p))"
  "v_linked (tview s p) = th_linked (th (ks_obj s p))"
  "v_joined (tview s p) = th_sched_joined (th (ks_obj s p))"
  "v_pinned (tview s p) = th_pinned (th (ks_obj s p))"
  "v_tickets (tview s p) = th_sched_tickets (th (ks_obj s p))"
  by (simp_all add: tview_def Let_def)

lemma same_lists_refl [simp]: "same_lists s s"
  by (simp add: same_lists_def)

lemma same_lists_trans [trans]: "same_lists s t \<Longrightarrow> same_lists t u \<Longrightarrow> same_lists s u"
  by (simp add: same_lists_def)

lemma global_pass_update_effect:
  obtains s' where "global_pass_update n s = (Ret (), s')" "ks_obj s' = ks_obj s"
    "thread_list s' = thread_list s" "same_lists s s'" "global_tickets s' = global_tickets s"
    "cur_thread s' = cur_thread s"
  by (simp add: global_pass_update_def karch_get_tsc_def kdefs same_lists_def hview_def fun_eq_iff)

lemma sched_leave_effect:
  obtains s' where "sched_leave t s = (Ret (), s')" "tview s' = tview s"
    "thread_list s' = thread_list s" "same_lists s s'"
    "global_tickets s' = global_tickets s - ucast (v_tickets (tview s t))" "cur_thread s' = cur_thread s"
proof -
  obtain s1 where s1: "global_pass_update 0 s = (Ret (), s1)" "ks_obj s1 = ks_obj s"
      "thread_list s1 = thread_list s" "same_lists s s1" "global_tickets s1 = global_tickets s"
      "cur_thread s1 = cur_thread s"
    by (rule global_pass_update_effect)
  show thesis
    using s1(2-)
    by (intro that [of "snd (sched_leave t s)"])
      (simp_all add: sched_leave_def kthen_case s1(1) kbind_get upd_th_def upd_obj_def
        tview_def same_lists_def hview_def Let_def fun_eq_iff)
qed

lemma sched_join_effect:
  obtains s' where "sched_join t s = (Ret (), s')" "tview s' = tview s"
    "thread_list s' = thread_list s" "same_lists s s'"
    "global_tickets s' = global_tickets s + ucast (v_tickets (tview s t))" "cur_thread s' = cur_thread s"
proof -
  obtain s1 where s1: "global_pass_update 0 s = (Ret (), s1)" "ks_obj s1 = ks_obj s"
      "thread_list s1 = thread_list s" "same_lists s s1" "global_tickets s1 = global_tickets s"
      "cur_thread s1 = cur_thread s"
    by (rule global_pass_update_effect)
  show thesis
    using s1(2-)
    by (intro that [of "snd (sched_join t s)"])
      (simp_all add: sched_join_def kthen_case s1(1) kbind_get upd_th_def upd_obj_def
        tview_def same_lists_def hview_def Let_def fun_eq_iff)
qed

lemma upd_th_run: "upd_th t f s = (Ret (), s\<lparr> ks_obj := (ks_obj s)(t := (ks_obj s t)\<lparr> th := f (th (ks_obj s t)) \<rparr>) \<rparr>)"
  by (simp add: upd_th_def upd_obj_def)

lemma obj_run: "kbind (obj t) f s = f (ks_obj s t) s"
  by (simp add: obj_def kbind_get)

lemma thread_sched_adjust_effect:
  obtains s' where "thread_sched_adjust t b s = (Ret (), s')"
    "tview s' = (tview s)(t := (tview s t)\<lparr> v_joined := b \<rparr>)"
    "thread_list s' = thread_list s" "same_lists s s'"
    "global_tickets s' = global_tickets s - ticket_val (tview s t) + ticket_val (tview s' t)"
    "cur_thread s' = cur_thread s"
proof (cases "th_sched_joined (th (ks_obj s t)) = b")
  case True
  then have "tview s = (tview s)(t := (tview s t)\<lparr> v_joined := b \<rparr>)"
    by (auto simp: tview_def Let_def fun_eq_iff)
  with True show thesis
    by (intro that [of s]) (auto simp: thread_sched_adjust_def obj_run kwhen_def kret_def)
next
  case False
  show thesis
  proof (cases b)
    case True
    obtain s1 where s1: "sched_join t s = (Ret (), s1)" "tview s1 = tview s"
        "thread_list s1 = thread_list s" "same_lists s s1"
        "global_tickets s1 = global_tickets s + ucast (v_tickets (tview s t))" "cur_thread s1 = cur_thread s"
      by (rule sched_join_effect)
    have "thread_sched_adjust t b s = upd_th t (\<lambda>x. x\<lparr> th_sched_joined := True \<rparr>) s1"
      using True False by (simp add: thread_sched_adjust_def obj_run kwhen_def kthen_case s1(1))
    then show thesis
      using s1(2-) True False
      by (intro that [of "snd (thread_sched_adjust t b s)"])
        (auto simp: upd_th_run tview_def same_lists_def hview_def Let_def fun_eq_iff ticket_val_def)
  next
    case nb: False
    obtain s1 where s1: "sched_leave t s = (Ret (), s1)" "tview s1 = tview s"
        "thread_list s1 = thread_list s" "same_lists s s1"
        "global_tickets s1 = global_tickets s - ucast (v_tickets (tview s t))" "cur_thread s1 = cur_thread s"
      by (rule sched_leave_effect)
    have "thread_sched_adjust t b s = upd_th t (\<lambda>x. x\<lparr> th_sched_joined := False \<rparr>) s1"
      using nb False
      by (simp add: thread_sched_adjust_def obj_def kwhen_def kcase s1(1) upd_th_run kret_def)
    then show thesis
      using s1(2-) nb False
      by (intro that [of "snd (thread_sched_adjust t b s)"])
        (auto simp: upd_th_run tview_def same_lists_def hview_def Let_def fun_eq_iff ticket_val_def)
  qed
qed

lemma sync_slots_removed:
  "kfor (\<lambda>sw. kmod (sync_slot_remove sw)) sws s = (Ret (), fold sync_slot_remove sws s)"
  by (induction sws arbitrary: s) (simp_all add: kret_def kthen_case)

lemma fold_sync_slot_remove [simp]:
  "ks_obj (fold sync_slot_remove sws s) = ks_obj s"
  "thread_list (fold sync_slot_remove sws s) = thread_list s"
  "ko_list (fold sync_slot_remove sws s) = ko_list s"
  "ko_gc_list (fold sync_slot_remove sws s) = ko_gc_list s"
  "global_tickets (fold sync_slot_remove sws s) = global_tickets s"
  "cur_thread (fold sync_slot_remove sws s) = cur_thread s"
  by (induction sws arbitrary: s) (simp_all add: sync_slot_remove_def Let_def)

lemma sync_remove_thread_effect:
  assumes "th_sync_waiting (th (ks_obj s t))"
  obtains s' where "sync_remove_thread t s = (Ret (), s')" "tview s' = tview s"
    "thread_list s' = thread_list s" "same_lists s s'" "global_tickets s' = global_tickets s"
    "cur_thread s' = cur_thread s"
  using assms
  by (intro that [of "snd (sync_remove_thread t s)"])
    (simp_all add: sync_remove_thread_def krun sync_slots_removed
      tview_def same_lists_def hview_def Let_def fun_eq_iff)

lemma thread_unlink_effect:
  obtains s' where "thread_unlink t s = (Ret (), s')"
    "tview s' = (tview s)(t := (tview s t)\<lparr> v_linked := False \<rparr>)"
    "thread_list s' = (if th_linked (th (ks_obj s t)) then (\<lambda>q. remove1 t (thread_list s q)) else thread_list s)"
    "same_lists s s'" "global_tickets s' = global_tickets s" "cur_thread s' = cur_thread s"
proof -
  define s1 where "s1 = (if th_linked (th (ks_obj s t))
    then s\<lparr> thread_list := (\<lambda>q. remove1 t (thread_list s q)),
            ks_obj := (ks_obj s)(t := (ks_obj s t)\<lparr> th := (th (ks_obj s t))\<lparr> th_linked := False \<rparr> \<rparr>) \<rparr>
    else s)"
  have run: "thread_unlink t s = kwhen (th_sync_waiting (th (ks_obj s1 t))) (sync_remove_thread t) s1"
    by (simp add: thread_unlink_def obj_def kcase thread_list_remove_def upd_th_run s1_def kwhen_def kret_def)
  have s1: "tview s1 = (tview s)(t := (tview s t)\<lparr> v_linked := False \<rparr>)"
    "thread_list s1 = (if th_linked (th (ks_obj s t)) then (\<lambda>q. remove1 t (thread_list s q)) else thread_list s)"
    "same_lists s s1" "global_tickets s1 = global_tickets s" "cur_thread s1 = cur_thread s"
    by (auto simp: s1_def tview_def same_lists_def hview_def Let_def fun_eq_iff)
  show thesis
  proof (cases "th_sync_waiting (th (ks_obj s1 t))")
    case True
    then obtain s2 where "sync_remove_thread t s1 = (Ret (), s2)" "tview s2 = tview s1"
        "thread_list s2 = thread_list s1" "same_lists s1 s2" "global_tickets s2 = global_tickets s1"
        "cur_thread s2 = cur_thread s1"
      by (rule sync_remove_thread_effect)
    then show thesis
      using True s1 run by (intro that [of s2]) (auto intro: same_lists_trans)
  next
    case False
    then show thesis using s1 run by (intro that [of s1]) (auto simp: kret_def)
  qed
qed

text \<open>The start the three state changes have in common.\<close>

lemma thread_detach_effect:
  assumes "t \<noteq> 0"
  obtains s' where
    "kthen (kobject_dirty t) (kthen (thread_sched_adjust t False) (kthen (thread_unlink t) k)) s = k s'"
    "tview s' = (tview s)(t := (tview s t)\<lparr> v_linked := False, v_joined := False \<rparr>)"
    "thread_list s' = (if th_linked (th (ks_obj s t)) then (\<lambda>q. remove1 t (thread_list s q)) else thread_list s)"
    "same_lists s s'" "global_tickets s' = global_tickets s - ticket_val (tview s t)"
    "cur_thread s' = cur_thread s"
proof -
  define s1 where "s1 = snd (kobject_dirty t s)"
  have d: "kobject_dirty t s = (Ret (), s1)" "tview s1 = tview s" "thread_list s1 = thread_list s"
      "same_lists s s1" "global_tickets s1 = global_tickets s" "cur_thread s1 = cur_thread s"
    using assms
    by (simp_all add: s1_def kobject_dirty_def krun tview_def same_lists_def hview_def Let_def fun_eq_iff)
  obtain s2 where s2: "thread_sched_adjust t False s1 = (Ret (), s2)"
      "tview s2 = (tview s1)(t := (tview s1 t)\<lparr> v_joined := False \<rparr>)"
      "thread_list s2 = thread_list s1" "same_lists s1 s2"
      "global_tickets s2 = global_tickets s1 - ticket_val (tview s1 t) + ticket_val (tview s2 t)"
      "cur_thread s2 = cur_thread s1"
    by (rule thread_sched_adjust_effect)
  obtain s3 where s3: "thread_unlink t s2 = (Ret (), s3)"
      "tview s3 = (tview s2)(t := (tview s2 t)\<lparr> v_linked := False \<rparr>)"
      "thread_list s3 = (if th_linked (th (ks_obj s2 t)) then (\<lambda>q. remove1 t (thread_list s2 q)) else thread_list s2)"
      "same_lists s2 s3" "global_tickets s3 = global_tickets s2" "cur_thread s3 = cur_thread s2"
    by (rule thread_unlink_effect)
  have "th_linked (th (ks_obj s2 t)) = th_linked (th (ks_obj s t))"
    using s2(2) d(2) by (metis fun_upd_same tview.select_convs(2) tview.surjective tview.update_convs(3) tview_simps(2))
  then show thesis
    using d s2 s3
    by (intro that [of s3]) (auto simp: kthen_case ticket_val_def intro: same_lists_trans)
qed

definition sched_view :: "kstate \<Rightarrow> (ptr \<Rightarrow> tview) \<times> (waitq \<Rightarrow> ptr list) \<times> u64" where
  "sched_view s = (tview s, thread_list s, global_tickets s)"

lemma thread_pin_effect:
  obtains s' where "thread_pin t s = (Ret (), s')"
    "tview s' = (tview s)(t := (tview s t)\<lparr> v_pinned := True \<rparr>)"
    "thread_list s' = thread_list s" "global_tickets s' = global_tickets s"
  by (rule that [of "snd (thread_pin t s)"])
    (auto simp: thread_pin_def kobject_pin_hdr_def gc_list_remove_def krun tview_def Let_def fun_eq_iff)

lemma thread_unpin_effect:
  assumes "th_pinned (th (ks_obj s t)) \<Longrightarrow> ko_pin (hdr (ks_obj s t)) \<noteq> 0"
  obtains s' where "thread_unpin t s = (Ret (), s')"
    "tview s' = (tview s)(t := (tview s t)\<lparr> v_pinned := False \<rparr>)"
    "thread_list s' = thread_list s" "global_tickets s' = global_tickets s" "cur_thread s' = cur_thread s"
  using assms
  by (intro that [of "snd (thread_unpin t s)"])
    (auto simp: thread_unpin_def kobject_unpin_hdr_def gc_list_insert_def krun tview_def Let_def fun_eq_iff)

lemma thread_link_effect:
  assumes "\<not> th_linked (th (ks_obj s t))"
  shows "thread_link t q s = (Ret (), (s\<lparr> thread_list := (thread_list s)(q := t # thread_list s q) \<rparr>)
      \<lparr> ks_obj := (ks_obj s)(t := (ks_obj s t)\<lparr> th := (th (ks_obj s t))\<lparr> th_linked := True \<rparr> \<rparr>) \<rparr>)"
  using assms by (simp add: thread_link_def krun)

text \<open>The thread lists after \<open>t\<close> has been taken off the one it is linked on.\<close>

definition unlinked :: "kstate \<Rightarrow> ptr \<Rightarrow> waitq \<Rightarrow> ptr list" where
  "unlinked s t q = (if th_linked (th (ks_obj s t)) then remove1 t (thread_list s q) else thread_list s q)"

lemma thread_set_runnable_effect:
  assumes "t \<noteq> 0"
  obtains s' where "thread_set_runnable t s = (Ret (), s')"
    "tview s' = (tview s)(t := \<lparr> v_status = thread_runnable, v_linked = True, v_joined = True,
        v_pinned = True, v_tickets = v_tickets (tview s t) \<rparr>)"
    "thread_list s' = (unlinked s t)(thread_list_runnable := t # unlinked s t thread_list_runnable)"
    "global_tickets s' = global_tickets s - ticket_val (tview s t) + ucast (v_tickets (tview s t))"
proof -
  let ?k = "kthen (thread_link t thread_list_runnable)
    (kthen (upd_th t (\<lambda>x. x\<lparr> th_status := thread_runnable \<rparr>))
    (kthen (thread_sched_adjust t True) (thread_pin t)))"
  obtain s1 where s1: "thread_set_runnable t s = ?k s1"
      "tview s1 = (tview s)(t := (tview s t)\<lparr> v_linked := False, v_joined := False \<rparr>)"
      "thread_list s1 = unlinked s t" "global_tickets s1 = global_tickets s - ticket_val (tview s t)"
    unfolding thread_set_runnable_def unlinked_def
    by (rule thread_detach_effect [OF assms, of ?k s]) (simp add: fun_eq_iff)
  define s2 where "s2 = snd (upd_th t (\<lambda>x. x\<lparr> th_status := thread_runnable \<rparr>)
                               (snd (thread_link t thread_list_runnable s1)))"
  have nl: "\<not> th_linked (th (ks_obj s1 t))"
    using s1(2) by (metis fun_upd_same tview.select_convs(2) tview.surjective tview.update_convs(2,3) tview_simps(2))
  have r2: "?k s1 = kthen (thread_sched_adjust t True) (thread_pin t) s2"
    by (simp add: kthen_case thread_link_effect [OF nl] upd_th_run s2_def)
  have s2: "tview s2 = (tview s1)(t := (tview s1 t)\<lparr> v_status := thread_runnable, v_linked := True \<rparr>)"
      "thread_list s2 = (thread_list s1)(thread_list_runnable := t # thread_list s1 thread_list_runnable)"
      "global_tickets s2 = global_tickets s1"
    by (auto simp: s2_def thread_link_effect [OF nl] upd_th_run tview_def Let_def fun_eq_iff)
  obtain s3 where s3: "thread_sched_adjust t True s2 = (Ret (), s3)"
      "tview s3 = (tview s2)(t := (tview s2 t)\<lparr> v_joined := True \<rparr>)" "thread_list s3 = thread_list s2"
      "global_tickets s3 = global_tickets s2 - ticket_val (tview s2 t) + ticket_val (tview s3 t)"
    by (rule thread_sched_adjust_effect)
  obtain s4 where s4: "thread_pin t s3 = (Ret (), s4)"
      "tview s4 = (tview s3)(t := (tview s3 t)\<lparr> v_pinned := True \<rparr>)"
      "thread_list s4 = thread_list s3" "global_tickets s4 = global_tickets s3"
    by (rule thread_pin_effect)
  have gt: "ticket_val (tview s2 t) = 0" "ticket_val (tview s3 t) = ucast (v_tickets (tview s t))"
    by (simp_all add: ticket_val_def s3(2) s2(1) s1(2) del: tview_simps)
  show thesis
  proof (rule that [of s4])
    show "thread_set_runnable t s = (Ret (), s4)" unfolding s1(1) r2 by (simp add: kthen_case s3(1) s4(1))
    show "tview s4 = (tview s)(t := \<lparr> v_status = thread_runnable, v_linked = True, v_joined = True,
        v_pinned = True, v_tickets = v_tickets (tview s t) \<rparr>)"
      by (simp add: s4(2) s3(2) s2(1) s1(2) fun_eq_iff)
    show "thread_list s4 = (unlinked s t)(thread_list_runnable := t # unlinked s t thread_list_runnable)"
      by (simp add: s4(3) s3(3) s2(2) s1(3))
    show "global_tickets s4 = global_tickets s - ticket_val (tview s t) + ucast (v_tickets (tview s t))"
      using gt by (simp add: s4(4) s3(4) s2(3) s1(4))
  qed
qed

lemma thread_suspend_effect:
  assumes "t \<noteq> 0"
  obtains s' where "thread_suspend t q s = (Ret (), s')"
    "tview s' = (tview s)(t := \<lparr> v_status = thread_suspended, v_linked = True, v_joined = False,
        v_pinned = True, v_tickets = v_tickets (tview s t) \<rparr>)"
    "thread_list s' = (unlinked s t)(q := t # unlinked s t q)"
    "global_tickets s' = global_tickets s - ticket_val (tview s t)"
proof -
  let ?k = "kthen (thread_link t q)
    (kthen (upd_th t (\<lambda>x. x\<lparr> th_status := thread_suspended \<rparr>)) (thread_pin t))"
  obtain s1 where s1: "thread_suspend t q s = ?k s1"
      "tview s1 = (tview s)(t := (tview s t)\<lparr> v_linked := False, v_joined := False \<rparr>)"
      "thread_list s1 = unlinked s t" "global_tickets s1 = global_tickets s - ticket_val (tview s t)"
    unfolding thread_suspend_def unlinked_def
    by (rule thread_detach_effect [OF assms, of ?k s]) (simp add: fun_eq_iff)
  define s2 where "s2 = snd (upd_th t (\<lambda>x. x\<lparr> th_status := thread_suspended \<rparr>)
                               (snd (thread_link t q s1)))"
  have nl: "\<not> th_linked (th (ks_obj s1 t))"
    using s1(2) by (metis fun_upd_same tview.select_convs(2) tview.surjective tview.update_convs(2,3) tview_simps(2))
  have r2: "?k s1 = thread_pin t s2"
    by (simp add: kthen_case thread_link_effect [OF nl] upd_th_run s2_def)
  have s2: "tview s2 = (tview s1)(t := (tview s1 t)\<lparr> v_status := thread_suspended, v_linked := True \<rparr>)"
      "thread_list s2 = (thread_list s1)(q := t # thread_list s1 q)" "global_tickets s2 = global_tickets s1"
    by (auto simp: s2_def thread_link_effect [OF nl] upd_th_run tview_def Let_def fun_eq_iff)
  obtain s3 where s3: "thread_pin t s2 = (Ret (), s3)"
      "tview s3 = (tview s2)(t := (tview s2 t)\<lparr> v_pinned := True \<rparr>)"
      "thread_list s3 = thread_list s2" "global_tickets s3 = global_tickets s2"
    by (rule thread_pin_effect)
  show thesis
  proof (rule that [of s3])
    show "thread_suspend t q s = (Ret (), s3)" unfolding s1(1) r2 by (rule s3(1))
    show "tview s3 = (tview s)(t := \<lparr> v_status = thread_suspended, v_linked = True, v_joined = False,
        v_pinned = True, v_tickets = v_tickets (tview s t) \<rparr>)"
      by (simp add: s3(2) s2(1) s1(2) fun_eq_iff)
    show "thread_list s3 = (unlinked s t)(q := t # unlinked s t q)"
      by (simp add: s3(3) s2(2) s1(3))
    show "global_tickets s3 = global_tickets s - ticket_val (tview s t)"
      by (simp add: s3(4) s2(3) s1(4))
  qed
qed

lemma thread_halt_effect:
  assumes "t \<noteq> 0" and pin: "th_pinned (th (ks_obj s t)) \<Longrightarrow> ko_pin (hdr (ks_obj s t)) \<noteq> 0"
  obtains s' where "thread_halt t s = (Ret (), s')"
    "tview s' = (tview s)(t := \<lparr> v_status = thread_halted, v_linked = False, v_joined = False,
        v_pinned = False, v_tickets = v_tickets (tview s t) \<rparr>)"
    "thread_list s' = unlinked s t" "global_tickets s' = global_tickets s - ticket_val (tview s t)"
    "cur_thread s' = (if cur_thread s = t then 0 else cur_thread s)"
proof -
  let ?k = "kthen (upd_th t (\<lambda>x. x\<lparr> th_status := thread_halted \<rparr>)) (kthen (thread_unpin t)
       (kmod (\<lambda>s. if cur_thread s = t then s\<lparr> cur_thread := 0 \<rparr> else s)))"
  obtain s1 where s1: "thread_halt t s = ?k s1"
      "tview s1 = (tview s)(t := (tview s t)\<lparr> v_linked := False, v_joined := False \<rparr>)"
      "thread_list s1 = unlinked s t" "same_lists s s1"
      "global_tickets s1 = global_tickets s - ticket_val (tview s t)" "cur_thread s1 = cur_thread s"
    unfolding thread_halt_def unlinked_def
    by (rule thread_detach_effect [OF assms(1), of ?k s]) (simp add: fun_eq_iff)
  define s2 where "s2 = snd (upd_th t (\<lambda>x. x\<lparr> th_status := thread_halted \<rparr>) s1)"
  have s2: "tview s2 = (tview s1)(t := (tview s1 t)\<lparr> v_status := thread_halted \<rparr>)"
      "thread_list s2 = thread_list s1" "same_lists s1 s2" "global_tickets s2 = global_tickets s1"
      "cur_thread s2 = cur_thread s1"
    by (auto simp: s2_def upd_th_run tview_def same_lists_def hview_def Let_def fun_eq_iff)
  have "hview s2 t = hview s t" "th_pinned (th (ks_obj s2 t)) = th_pinned (th (ks_obj s t))"
    using s1(2,4) s2(1,3) by (simp_all add: same_lists_def flip: tview_simps(4))
  then have "th_pinned (th (ks_obj s2 t)) \<Longrightarrow> ko_pin (hdr (ks_obj s2 t)) \<noteq> 0"
    using pin by (simp add: hview_def)
  then obtain s3 where s3: "thread_unpin t s2 = (Ret (), s3)"
      "tview s3 = (tview s2)(t := (tview s2 t)\<lparr> v_pinned := False \<rparr>)"
      "thread_list s3 = thread_list s2" "global_tickets s3 = global_tickets s2" "cur_thread s3 = cur_thread s2"
    by (rule thread_unpin_effect)
  let ?s4 = "if cur_thread s3 = t then s3\<lparr> cur_thread := 0 \<rparr> else s3"
  have v4: "tview ?s4 = tview s3" by (auto simp: tview_def Let_def fun_eq_iff)
  show thesis
  proof (rule that [of ?s4])
    show "thread_halt t s = (Ret (), ?s4)"
      unfolding s1(1) using s3(1) by (simp add: kthen_case s2_def upd_th_run)
    show "tview ?s4 = (tview s)(t := \<lparr> v_status = thread_halted, v_linked = False, v_joined = False,
        v_pinned = False, v_tickets = v_tickets (tview s t) \<rparr>)"
      unfolding v4 by (simp add: s3(2) s2(1) s1(2) fun_eq_iff)
    show "thread_list ?s4 = unlinked s t" by (simp add: s3(3) s2(2) s1(3))
    show "global_tickets ?s4 = global_tickets s - ticket_val (tview s t)" by (simp add: s3(4) s2(4) s1(5))
    show "cur_thread ?s4 = (if cur_thread s = t then 0 else cur_thread s)" by (simp add: s3(5) s2(5) s1(6))
  qed
qed

subsection \<open>The state machine of a thread\<close>

definition waitqs :: "waitq list" where
  "waitqs = [thread_list_runnable, pstate_waiting, sync_time_waiting, kobj_snapshot_waiting]"

lemma set_waitqs [simp]: "set waitqs = UNIV"
  using waitq.exhaust by (auto simp: waitqs_def)

text \<open>The list a thread is on, if any.\<close>

definition where_is :: "kstate \<Rightarrow> ptr \<Rightarrow> waitq option" where
  "where_is s p = find (\<lambda>q. p \<in> set (thread_list s q)) waitqs"

definition thread_ok :: "kstate \<Rightarrow> ptr \<Rightarrow> bool" where
  "thread_ok s p \<longleftrightarrow>
     v_linked (tview s p) = (where_is s p \<noteq> None) \<and>
     v_pinned (tview s p) = (where_is s p \<noteq> None) \<and>
     v_joined (tview s p) = (where_is s p = Some thread_list_runnable) \<and>
     (v_status (tview s p) = thread_runnable \<longleftrightarrow> where_is s p = Some thread_list_runnable) \<and>
     (v_status (tview s p) = thread_suspended \<longleftrightarrow> where_is s p \<notin> {None, Some thread_list_runnable})"

definition thread_inv :: "kstate \<Rightarrow> bool" where
  "thread_inv s \<longleftrightarrow> (\<forall>q. distinct (thread_list s q)) \<and>
     (\<forall>q q'. q \<noteq> q' \<longrightarrow> set (thread_list s q) \<inter> set (thread_list s q') = {}) \<and> (\<forall>p. thread_ok s p)"

definition tickets_inv :: "ptr set \<Rightarrow> kstate \<Rightarrow> bool" where
  "tickets_inv P s \<longleftrightarrow> finite P \<and> (\<forall>p. th_sched_joined (th (ks_obj s p)) \<longrightarrow> p \<in> P) \<and>
     global_tickets s = (\<Sum>p\<in>P. ticket_val (tview s p))"

lemma where_is_Some:
  assumes "\<And>q q'. q \<noteq> q' \<Longrightarrow> set (thread_list s q) \<inter> set (thread_list s q') = {}"
  shows "where_is s p = Some q \<longleftrightarrow> p \<in> set (thread_list s q)"
proof
  assume "where_is s p = Some q"
  then show "p \<in> set (thread_list s q)" by (auto simp: where_is_def find_Some_iff)
next
  assume p: "p \<in> set (thread_list s q)"
  then have "where_is s p \<noteq> None" by (auto simp: where_is_def find_None_iff)
  then obtain q' where "where_is s p = Some q'" "p \<in> set (thread_list s q')"
    by (auto simp: where_is_def find_Some_iff)
  then show "where_is s p = Some q" using assms [of q q'] p by auto
qed

lemma where_is_None: "where_is s p = None \<longleftrightarrow> (\<forall>q. p \<notin> set (thread_list s q))"
  by (simp add: where_is_def find_None_iff)

text \<open>
  One step of the machine: thread \<open>t\<close> goes to a place (a list, or none), its view becomes the one
  that belongs to the place, everything else stays.
\<close>

definition place_view :: "waitq option \<Rightarrow> thread_status \<Rightarrow> u32 \<Rightarrow> tview" where
  "place_view w st n = \<lparr> v_status = st, v_linked = (w \<noteq> None), v_joined = (w = Some thread_list_runnable),
     v_pinned = (w \<noteq> None), v_tickets = n \<rparr>"

definition status_of :: "waitq option \<Rightarrow> thread_status" where
  "status_of w = (case w of None \<Rightarrow> thread_halted
     | Some q \<Rightarrow> if q = thread_list_runnable then thread_runnable else thread_suspended)"

lemma thread_place:
  assumes inv: "thread_inv s"
    and view: "tview s' = (tview s)(t := place_view w (status_of w) (v_tickets (tview s t)))"
    and lists: "thread_list s' = (\<lambda>q. if w = Some q then t # unlinked s t q else unlinked s t q)"
  shows "thread_inv s' \<and> where_is s' = (where_is s)(t := w)"
proof -
  have dist: "distinct (thread_list s q)" for q using inv by (simp add: thread_inv_def)
  have disj: "q \<noteq> q' \<Longrightarrow> set (thread_list s q) \<inter> set (thread_list s q') = {}" for q q'
    using inv by (simp add: thread_inv_def)
  have ok: "thread_ok s p" for p using inv by (simp add: thread_inv_def)
  have un: "set (unlinked s t q) = set (thread_list s q) - {t}" "distinct (unlinked s t q)" for q
    using dist [of q] ok [of t]
    by (auto simp: unlinked_def set_remove1_eq thread_ok_def where_is_None)
  have set': "set (thread_list s' q) = (if w = Some q then insert t (set (thread_list s q)) else set (thread_list s q) - {t})" for q
    by (auto simp: lists un)
  have dist': "distinct (thread_list s' q)" for q using un by (simp add: lists)
  have disj': "q \<noteq> q' \<Longrightarrow> set (thread_list s' q) \<inter> set (thread_list s' q') = {}" for q q'
    using disj [of q q'] by (auto simp: set')
  have place: "where_is s' p = (if p = t then w else where_is s p)" for p
  proof (cases "where_is s' p")
    case None
    then have n: "p \<notin> set (thread_list s' q)" for q by (simp add: where_is_None)
    have "w = None" if "p = t" using n [of "the w"] that by (cases w) (simp_all add: set')
    moreover have "p \<notin> set (thread_list s q)" if "p \<noteq> t" for q
      using n [of q] that by (simp add: set' split: if_splits)
    then have "where_is s p = None" if "p \<noteq> t" using that by (simp add: where_is_None)
    ultimately show ?thesis using None by auto
  next
    case (Some q)
    then have "p \<in> set (thread_list s' q)" using where_is_Some [OF disj'] by simp
    then show ?thesis
      using Some where_is_Some [OF disj, of p q] by (auto simp: set' split: if_splits)
  qed
  have "thread_ok s' p" for p
    using ok [of p] place [of p]
    by (cases "p = t") (auto simp: thread_ok_def view place_view_def status_of_def simp del: tview_simps
        split: option.split if_splits)
  then show ?thesis using dist' disj' place by (auto simp: thread_inv_def fun_eq_iff)
qed

lemma tickets_place:
  assumes "tickets_inv P s" "t \<in> P"
    and view: "tview s' = (tview s)(t := v)"
    and gt: "global_tickets s' = global_tickets s - ticket_val (tview s t) + ticket_val v"
  shows "tickets_inv P s'"
proof -
  have fin: "finite P" using assms(1) by (simp add: tickets_inv_def)
  have "(\<Sum>p\<in>P. ticket_val (tview s' p)) = ticket_val v + (\<Sum>p\<in>P - {t}. ticket_val (tview s p))"
    unfolding view using fin assms(2) by (simp add: sum.remove)
  also have "\<dots> = (\<Sum>p\<in>P. ticket_val (tview s p)) - ticket_val (tview s t) + ticket_val v"
    using fin assms(2) by (simp add: sum.remove)
  finally have "global_tickets s' = (\<Sum>p\<in>P. ticket_val (tview s' p))"
    using gt assms(1) by (simp add: tickets_inv_def)
  moreover have "th_sched_joined (th (ks_obj s' p)) \<longrightarrow> p \<in> P" for p
    using assms(1,2) view by (cases "p = t") (auto simp: tickets_inv_def simp flip: tview_simps(3))
  ultimately show ?thesis using fin by (simp add: tickets_inv_def)
qed

subsection \<open>Properties\<close>

datatype thread_event = SetRunnable | Suspend waitq | Halt

fun thread_step :: "thread_event \<Rightarrow> ptr \<Rightarrow> unit kernel" where
  "thread_step SetRunnable t = thread_set_runnable t"
| "thread_step (Suspend q) t = thread_suspend t q"
| "thread_step Halt t = thread_halt t"

fun thread_dest :: "thread_event \<Rightarrow> waitq option" where
  "thread_dest SetRunnable = Some thread_list_runnable"
| "thread_dest (Suspend q) = Some q"
| "thread_dest Halt = None"

lemma thread_step_effect:
  assumes "t \<noteq> 0" "e \<noteq> Suspend thread_list_runnable"
    and "e = Halt \<Longrightarrow> th_pinned (th (ks_obj s t)) \<Longrightarrow> ko_pin (hdr (ks_obj s t)) \<noteq> 0"
  obtains s' where "thread_step e t s = (Ret (), s')"
    "tview s' = (tview s)(t := place_view (thread_dest e) (status_of (thread_dest e)) (v_tickets (tview s t)))"
    "thread_list s' = (\<lambda>q. if thread_dest e = Some q then t # unlinked s t q else unlinked s t q)"
    "global_tickets s' = global_tickets s - ticket_val (tview s t) +
       ticket_val (place_view (thread_dest e) (status_of (thread_dest e)) (v_tickets (tview s t)))"
proof (cases e)
  case SetRunnable
  show thesis
  proof (rule thread_set_runnable_effect [OF assms(1), of s], goal_cases)
    case (1 s')
    show thesis by (rule that [of s'])
      (use 1 SetRunnable in \<open>simp_all add: place_view_def status_of_def ticket_val_def fun_eq_iff del: tview_simps\<close>)
  qed
next
  case (Suspend q)
  then have q: "q \<noteq> thread_list_runnable" using assms(2) by simp
  show thesis
  proof (rule thread_suspend_effect [OF assms(1), of q s], goal_cases)
    case (1 s')
    show thesis by (rule that [of s'])
      (use 1 Suspend q in \<open>simp_all add: place_view_def status_of_def ticket_val_def fun_eq_iff del: tview_simps\<close>)
  qed
next
  case Halt
  show thesis
  proof (rule thread_halt_effect [OF assms(1) assms(3) [OF Halt]], goal_cases)
    case (2 s')
    show thesis by (rule that [of s'])
      (use 2 Halt in \<open>simp_all add: place_view_def status_of_def ticket_val_def fun_eq_iff del: tview_simps\<close>)
  qed
qed

text \<open>
  C18: the thread state machine. Waking, suspending (on any list but the one of runnable threads)
  and halting a thread always succeed, move exactly this thread to the intended list (or off all
  lists), and keep the invariant that ties a thread's status, its link, scheduler and pin flags and
  the list it is on together, for all threads.
\<close>

theorem thread_step_refines:
  assumes "thread_inv s" "t \<noteq> 0" "e \<noteq> Suspend thread_list_runnable"
    "e = Halt \<longrightarrow> th_pinned (th (ks_obj s t)) \<longrightarrow> ko_pin (hdr (ks_obj s t)) \<noteq> 0"
  shows "\<exists>s'. thread_step e t s = (Ret (), s') \<and> thread_inv s' \<and>
              where_is s' = (where_is s)(t := thread_dest e)"
proof -
  obtain s' where "thread_step e t s = (Ret (), s')"
    "tview s' = (tview s)(t := place_view (thread_dest e) (status_of (thread_dest e)) (v_tickets (tview s t)))"
    "thread_list s' = (\<lambda>q. if thread_dest e = Some q then t # unlinked s t q else unlinked s t q)"
    by (rule thread_step_effect [OF assms(2,3), of s]) (use assms(4) in simp_all)
  then show ?thesis using thread_place [OF assms(1), of s' t "thread_dest e"] by auto
qed

text \<open>
  C32: the scheduler's \<open>global_tickets\<close> is the sum (modulo \<open>2 ^ 64\<close>) of the tickets of the threads
  that have joined it, and waking, suspending and halting threads keep it so.
\<close>

theorem thread_step_tickets:
  assumes "tickets_inv P s" "t \<in> P" "t \<noteq> 0" "e \<noteq> Suspend thread_list_runnable"
    "e = Halt \<longrightarrow> th_pinned (th (ks_obj s t)) \<longrightarrow> ko_pin (hdr (ks_obj s t)) \<noteq> 0"
  shows "tickets_inv P (snd (thread_step e t s))"
proof -
  obtain s' where "thread_step e t s = (Ret (), s')"
    "tview s' = (tview s)(t := place_view (thread_dest e) (status_of (thread_dest e)) (v_tickets (tview s t)))"
    "global_tickets s' = global_tickets s - ticket_val (tview s t) +
       ticket_val (place_view (thread_dest e) (status_of (thread_dest e)) (v_tickets (tview s t)))"
    by (rule thread_step_effect [OF assms(3,4), of s]) (use assms(5) in simp_all)
  then show ?thesis using tickets_place [OF assms(1,2)] by simp
qed

lemma kstate0_threads: "thread_inv kstate0" "tickets_inv {1} kstate0"
  by (auto simp: thread_inv_def thread_ok_def where_is_None where_is_def waitqs_def tickets_inv_def
      ticket_val_def tview_def kstate0_def kobject0_def thread0_def)

theorem thread_step_refines_witness:
  "\<exists>s'. thread_step SetRunnable 1 kstate0 = (Ret (), s') \<and> thread_inv s' \<and>
        where_is s' = (where_is kstate0)(1 := Some thread_list_runnable)"
  using thread_step_refines [OF kstate0_threads(1), of 1 SetRunnable] by simp

theorem thread_step_tickets_witness:
  "tickets_inv {1} (snd (thread_step SetRunnable 1 kstate0))"
  using thread_step_tickets [OF kstate0_threads(2), of 1 SetRunnable] by simp

end
