(* ===== verification/Handle.thy ===== *)
theory Handle
  imports Kstate
begin

unbundle bit_operations_syntax

text \<open>
  \<^verbatim>\<open>src/kern/kern/handle.c\<close>: object ids and categories are consecutive counter values enciphered
  with a 61-bit block cipher, under a key derived from the system key. The lemmas say that ids never
  repeat while the counter stays below \<open>2 ^ 59\<close>, and that one is always found.

  \<open>pihex\<close> is the table of \<^verbatim>\<open>src/inc/blowfish_data.h\<close>.
\<close>

definition SYSTEM_KEY_SIZE :: nat where "SYSTEM_KEY_SIZE = 16"

definition system_key_default :: "u8 list" where
  "system_key_default = map (\<lambda>i. of_nat (i + 5)) [0..<SYSTEM_KEY_SIZE]"

definition key_block :: "u64 \<Rightarrow> u64" where
  "key_block x = foldl (\<lambda>v _. push_bit 8 v OR x) 0 [0..<8]"

definition key_derive_one :: "u32 list \<Rightarrow> bf_ctx \<Rightarrow> u64 \<Rightarrow> bf_ctx \<times> u64" where
  "key_derive_one pihex src ctr =
     (let keybuf = map (\<lambda>i. ucast (bf64_encipher src (key_block (of_nat i + ctr))) :: u8) [0..<SYSTEM_KEY_SIZE]
      in (bf_setkey pihex keybuf, ctr + of_nat SYSTEM_KEY_SIZE))"

definition key_derive :: "u32 list \<Rightarrow> u8 list \<Rightarrow> unit kernel" where
  "key_derive pihex system_key =
     (let init_ctx = bf_setkey pihex system_key;
          (hk, ctr1) = key_derive_one pihex init_ctx 0;
          (pk, ctr2) = key_derive_one pihex init_ctx ctr1
      in kthen (kmod (\<lambda>s. s\<lparr> handle_key_ctx := hk, pstate_key_ctx := pk \<rparr>))
           (kassert (ctr2 < 0x100)))"

definition key_generate :: "u32 list \<Rightarrow> unit kernel" where
  "key_generate pihex = key_derive pihex system_key_default"

lemma counter_step:
  fixes c :: u64
  assumes "\<not> 2 ^ 61 \<le> c + 1"
  shows "2 ^ 64 - unat (2 + c) < 2 ^ 64 - unat (c + 1)"
proof -
  have "unat (c + 1) < 2 ^ 61" using assms by (simp add: word_le_nat_alt)
  moreover have "2 + c = (c + 1) + 1" by simp
  ultimately have "unat (2 + c) = unat (c + 1) + 1"
    using unat_add_carry [of "c + 1" 1] by simp
  then show ?thesis using \<open>unat (c + 1) < 2 ^ 61\<close> by simp
qed

function handle_alloc :: "kstate \<Rightarrow> u64 outcome \<times> kstate" where
  "handle_alloc s =
     (let new_count = handle_counter s;
          s1 = s\<lparr> handle_counter := new_count + 1 \<rparr>;
          new_crypt = bf61_encipher (handle_key_ctx s1) new_count
      in if 2 ^ 61 \<le> handle_counter s1 then (Panic, s1)
         else if new_crypt \<noteq> 0 then (Ret new_crypt, s1)
         else handle_alloc s1)"
  by pat_completeness auto

termination
  by (relation "measure (\<lambda>s. 2 ^ 64 - unat (handle_counter s + 1))") (use counter_step in \<open>auto simp: Let_def\<close>)

declare handle_alloc.simps [simp del]

lemma handle_alloc_unfold:
  "handle_alloc s =
     (if 2 ^ 61 \<le> handle_counter s + 1 then (Panic, s\<lparr> handle_counter := handle_counter s + 1 \<rparr>)
      else if bf61_encipher (handle_key_ctx s) (handle_counter s) \<noteq> 0
      then (Ret (bf61_encipher (handle_key_ctx s) (handle_counter s)), s\<lparr> handle_counter := handle_counter s + 1 \<rparr>)
      else handle_alloc (s\<lparr> handle_counter := handle_counter s + 1 \<rparr>))"
  by (subst handle_alloc.simps) (simp add: Let_def)

lemma word_inc:
  fixes c :: u64
  assumes "c + 1 < 2 ^ 61" "c < 2 ^ 61"
  shows "unat (c + 1) = Suc (unat c)"
  using assms by (simp add: unat_add_carry word_less_nat_alt)

text \<open>A handle is the image of a counter value that this call has consumed; only the counter changes.\<close>

lemma handle_alloc_counter:
  assumes "handle_alloc s = (Ret h, s')" "handle_counter s < 2 ^ 61"
  shows "h \<noteq> 0 \<and> s' = s\<lparr> handle_counter := handle_counter s' \<rparr> \<and> handle_counter s' < 2 ^ 61 \<and>
    (\<exists>c. handle_counter s \<le> c \<and> c < handle_counter s' \<and> h = bf61_encipher (handle_key_ctx s) c)"
  using assms
proof (induction s rule: handle_alloc.induct)
  case (1 s)
  let ?c = "handle_counter s" and ?k = "handle_key_ctx s"
  let ?s1 = "s\<lparr> handle_counter := ?c + 1 \<rparr>"
  have lt: "?c + 1 < 2 ^ 61" using 1(2) by (auto simp: handle_alloc_unfold [of s] split: if_splits)
  then have nle: "\<not> 2 ^ 61 \<le> ?c + 1" by (simp only: not_le not_False_eq_True)
  have up: "?c < ?c + 1" using word_inc [OF lt 1(3)] by (simp add: word_less_nat_alt)
  show ?case
  proof (cases "bf61_encipher ?k ?c = 0")
    case False
    then have "h = bf61_encipher ?k ?c" "s' = ?s1"
      using 1(2) lt by (auto simp: handle_alloc_unfold [of s] split: if_splits)
    then show ?thesis using False lt up by (auto intro!: exI [of _ ?c])
  next
    case True
    then have rec: "handle_alloc ?s1 = (Ret h, s')"
      using 1(2) nle by (simp add: handle_alloc_unfold [of s])
    have ih: "h \<noteq> 0 \<and> s' = ?s1\<lparr> handle_counter := handle_counter s' \<rparr> \<and> handle_counter s' < 2 ^ 61 \<and>
      (\<exists>c. ?c + 1 \<le> c \<and> c < handle_counter s' \<and> h = bf61_encipher ?k c)"
      using 1(1) [OF refl refl refl] True rec lt nle by simp
    then obtain c where c: "?c + 1 \<le> c" "c < handle_counter s'" "h = bf61_encipher ?k c" by blast
    have "?c \<le> c" using up c(1) by simp
    then show ?thesis using ih c by auto
  qed
qed

lemma handle_allocs_counter:
  assumes "krepeat n handle_alloc s = (Ret hs, s')" "handle_counter s < 2 ^ 61"
  shows "s' = s\<lparr> handle_counter := handle_counter s' \<rparr> \<and> handle_counter s \<le> handle_counter s' \<and>
    handle_counter s' < 2 ^ 61 \<and> 0 \<notin> set hs \<and> length hs = n \<and>
    (\<exists>cs. hs = map (bf61_encipher (handle_key_ctx s)) cs \<and> sorted_wrt (<) cs \<and>
          (\<forall>c\<in>set cs. handle_counter s \<le> c \<and> c < handle_counter s'))"
  using assms
proof (induction n arbitrary: s hs)
  case 0
  then show ?case by (simp add: kret_def)
next
  case (Suc n)
  from Suc.prems(1) obtain h s1 hs1 where h: "handle_alloc s = (Ret h, s1)" and
    hs1: "krepeat n handle_alloc s1 = (Ret hs1, s')" and hs: "hs = h # hs1"
    by (auto elim!: kbind_RetE simp: kret_def)
  note a = handle_alloc_counter [OF h Suc.prems(2)]
  then obtain c where c: "handle_counter s \<le> c" "c < handle_counter s1" "h = bf61_encipher (handle_key_ctx s) c"
    by blast
  from a have key: "handle_key_ctx s1 = handle_key_ctx s" by (metis kstate.select_convs(15) kstate.surjective kstate.update_convs(14))
  note ih = Suc.IH [OF hs1] a
  then obtain cs where cs: "hs1 = map (bf61_encipher (handle_key_ctx s)) cs" "sorted_wrt (<) cs"
    "\<forall>c\<in>set cs. handle_counter s1 \<le> c \<and> c < handle_counter s'" unfolding key by auto
  have "s' = s\<lparr> handle_counter := handle_counter s' \<rparr>"
    using ih by (metis kstate.update_convs(14) kstate.surjective)
  moreover have "\<exists>cs. hs = map (bf61_encipher (handle_key_ctx s)) cs \<and> sorted_wrt (<) cs \<and>
          (\<forall>c\<in>set cs. handle_counter s \<le> c \<and> c < handle_counter s')"
    using ih c cs by (intro exI [of _ "c # cs"]) (fastforce simp: hs)
  moreover have "handle_counter s \<le> handle_counter s'" using ih c by auto
  ultimately show ?case using ih by (simp add: hs)
qed

text \<open>
  C31: as long as the counter does not pass \<open>2 ^ 59\<close>, the handles that a sequence of calls returns are
  pairwise different and none of them is 0.
\<close>

theorem handle_alloc_unique:
  assumes "krepeat n handle_alloc s = (Ret hs, s')" "handle_counter s < 2 ^ 59" "handle_counter s' \<le> 2 ^ 59"
  shows "distinct hs \<and> 0 \<notin> set hs \<and> length hs = n"
proof -
  have "handle_counter s < 2 ^ 61" using assms(2) by (simp add: word_less_nat_alt)
  from handle_allocs_counter [OF assms(1) this] obtain cs where
    cs: "hs = map (bf61_encipher (handle_key_ctx s)) cs" "sorted_wrt (<) cs" "0 \<notin> set hs" "length hs = n"
    "\<forall>c\<in>set cs. c < handle_counter s'" by auto
  have inj: "inj_on (bf61_encipher (handle_key_ctx s)) (set cs)"
  proof (rule inj_onI)
    fix v w assume vw: "v \<in> set cs" "w \<in> set cs" "bf61_encipher (handle_key_ctx s) v = bf61_encipher (handle_key_ctx s) w"
    then have "v < 2 ^ 59" "w < 2 ^ 59" using cs(5) assms(3) by (auto intro: order_less_le_trans)
    then show "v = w" using vw(3) bf61_split_inj by (simp only: bf61_encipher_split)
  qed
  have "distinct cs" using cs(2) by (simp add: strict_sorted_iff)
  then show ?thesis using cs inj by (simp add: distinct_map)
qed

lemma handle_alloc_two_tries:
  assumes "handle_counter s + 2 < 2 ^ 59" "handle_counter s < 2 ^ 59"
  shows "\<exists>h s'. handle_alloc s = (Ret h, s') \<and> handle_counter s' \<le> handle_counter s + 2"
proof -
  let ?c = "handle_counter s" and ?e = "bf61_encipher (handle_key_ctx s)"
  have c: "unat (?c + 1) = unat ?c + 1" "unat (?c + 2) = unat ?c + 2" "unat ?c + 2 < 2 ^ 59"
    using assms by (auto simp: unat_add_carry word_less_nat_alt split: if_splits)
  have lt: "\<not> 2 ^ 61 \<le> ?c + 1" "\<not> 2 ^ 61 \<le> ?c + 2" "?c + 1 < 2 ^ 59" "?c + 1 \<le> ?c + 2"
    using c by (simp_all add: word_le_nat_alt word_less_nat_alt)
  have "?c \<noteq> ?c + 1" using c by (metis n_not_Suc_n Suc_eq_plus1)
  then have "?e ?c \<noteq> 0 \<or> ?e (?c + 1) \<noteq> 0"
    using bf61_split_inj [of ?c "?c + 1"] assms(2) lt(3) bf61_encipher_split [of "handle_key_ctx s" ?c "?c + 1"] by metis
  then show ?thesis
    using lt by (auto simp: handle_alloc_unfold [of s] handle_alloc_unfold [of "s\<lparr> handle_counter := ?c + 1 \<rparr>"] add.assoc)
qed

text \<open>while the counter is well below \<open>2 ^ 59\<close>, the call returns a handle and consumes at most two counter values.\<close>

theorem handle_alloc_returns:
  assumes "handle_counter s + 2 < 2 ^ 59" "handle_counter s < 2 ^ 59"
  shows "\<exists>h s'. handle_alloc s = (Ret h, s') \<and> handle_counter s' \<le> handle_counter s + 2"
  using assms by (rule handle_alloc_two_tries)

theorem handle_alloc_returns_witness:
  "\<exists>h s'. handle_alloc kstate0 = (Ret h, s') \<and> handle_counter s' \<le> 2"
  using handle_alloc_returns [of kstate0] by (simp add: kstate0_def)

theorem handle_alloc_unique_witness:
  "\<exists>h1 h2 s'. krepeat 2 handle_alloc kstate0 = (Ret [h1, h2], s') \<and> h1 \<noteq> h2 \<and> h1 \<noteq> 0 \<and> h2 \<noteq> 0"
proof -
  have c0: "handle_counter kstate0 = 0" by (simp add: kstate0_def)
  obtain h1 s1 where s1: "handle_alloc kstate0 = (Ret h1, s1)" "handle_counter s1 \<le> 2"
    using handle_alloc_two_tries [of kstate0] by (auto simp: c0)
  then have "unat (handle_counter s1) \<le> 2" by (simp add: word_le_nat_alt)
  then have "handle_counter s1 + 2 < 2 ^ 59" "handle_counter s1 < 2 ^ 59" "handle_counter s1 + 2 \<le> 4"
    by (simp_all add: word_less_nat_alt word_le_nat_alt unat_add_carry)
  then obtain h2 s2 where s2: "handle_alloc s1 = (Ret h2, s2)" "handle_counter s2 \<le> 2 ^ 59"
    using handle_alloc_two_tries [of s1] by (auto intro: order_trans)
  have run: "krepeat 2 handle_alloc kstate0 = (Ret [h1, h2], s2)"
    using s1(1) s2(1) by (simp add: numeral_2_eq_2 kbind_def kret_def)
  then show ?thesis using handle_alloc_unique [OF run] s2(2) by (simp add: c0)
qed

end
