(* ===== verification/Pstate.thy ===== *)
theory Pstate
  imports Threads
begin

unbundle bit_operations_syntax

text \<open>
  The part of \<^verbatim>\<open>src/kern/kern/pstate.c\<close> that the rest of the kernel calls: encrypted timestamps, the
  one-place queue of delayed disk operations and the requests that suspend the current thread until
  an object is read in or a snapshot is written. The disk side (the \<^verbatim>\<open>_stackwrap\<close> functions) is named
  by \<^typ>\<open>pstate_fn\<close> and not run here.
\<close>

definition PSTATE_MAGIC :: u64 where "PSTATE_MAGIC = 0x4A4F535053544154"

definition pstate_ts_alloc :: "u64 kernel" where
  "pstate_ts_alloc =
     kbind (kget (\<lambda>s. bf61_encipher (pstate_key_ctx s) (pstate_counter s))) (\<lambda>ts.
     kthen (kmod (\<lambda>s. s\<lparr> pstate_counter := pstate_counter s + 1 \<rparr>)) (kret ts))"

definition pstate_ts_decrypt :: "kstate \<Rightarrow> u64 \<Rightarrow> u64" where
  "pstate_ts_decrypt s v = bf61_decipher (pstate_key_ctx s) v"

subsection \<open>Delayed operations\<close>

fun op_num :: "pstate_op \<Rightarrow> nat" where
  "op_num op_none = 0"
| "op_num op_swapin = 1"
| "op_num op_swapout_obj = 2"
| "op_num op_swapout_global = 3"
| "op_num op_swapout_global_gc = 4"

definition op_queue_put :: "pstate_op_t \<Rightarrow> pstate_op_t \<Rightarrow> pstate_op_t" where
  "op_queue_put new cur = (if op_num (op_prio cur) < op_num (op_prio new) then new else cur)"

definition pstate_op_schedule :: "pstate_op \<Rightarrow> pstate_fn \<Rightarrow> u64 \<Rightarrow> u64 \<Rightarrow> u64 \<Rightarrow> unit kernel" where
  "pstate_op_schedule prio fn a0 a1 a2 =
     kmod (\<lambda>s. s\<lparr> pstate_op_queue :=
       op_queue_put \<lparr> op_prio = prio, op_fn = fn, op_arg = (a0, a1, a2) \<rparr> (pstate_op_queue s) \<rparr>)"

definition pstate_swapin :: "u64 \<Rightarrow> unit kernel" where
  "pstate_swapin kid =
     kbind (kget pstate_part) (\<lambda>part.
     if \<not> part then kthen (kobject_negative_insert kid) (kerr E_RESTART)
     else kthen (thread_suspend_cur pstate_waiting)
            (kthen (pstate_op_schedule op_swapin pstate_swapin_stackwrap kid 0 0) (kerr E_RESTART)))"

definition pstate_sync_schedule :: "bool \<Rightarrow> unit kernel" where
  "pstate_sync_schedule gc =
     pstate_op_schedule (if gc then op_swapout_global_gc else op_swapout_global) pstate_sync_stackwrap 0 0 0"

definition pstate_sync :: "bool \<Rightarrow> unit kernel" where
  "pstate_sync gc =
     kbind (kget pstate_part) (\<lambda>part.
     if \<not> part then kret ()
     else kthen (thread_suspend_cur pstate_waiting) (pstate_sync_schedule gc))"

definition pstate_sync_object :: "u64 \<Rightarrow> ptr \<Rightarrow> u64 \<Rightarrow> u64 \<Rightarrow> unit kernel" where
  "pstate_sync_object timestamp ko start nbytes =
     kbind (kget (\<lambda>s. s)) (\<lambda>s.
     kthen (kassert (cur_thread s \<noteq> 0))
     (if \<not> pstate_part s then kret ()
      else if stable_magic s \<noteq> PSTATE_MAGIC
      then kthen (thread_suspend_cur pstate_waiting) (kthen (pstate_sync_schedule False) (kerr E_RESTART))
      else if ko_sync_ts (hdr (ks_obj s ko)) \<noteq> 0 \<and>
              pstate_ts_decrypt s timestamp < pstate_ts_decrypt s (ko_sync_ts (hdr (ks_obj s ko)))
      then kret ()
      else kthen (thread_suspend_cur pstate_waiting)
             (kthen (pstate_op_schedule op_swapout_obj pstate_sync_object_stackwrap (of_nat ko) start nbytes)
               (kerr E_RESTART))))"

definition pstate_sync_user :: "u64 \<Rightarrow> unit kernel" where
  "pstate_sync_user timestamp =
     kbind (kget (\<lambda>s. s)) (\<lambda>s.
     kthen (kassert (cur_thread s \<noteq> 0))
     (if \<not> pstate_part s then kret ()
      else if stable_magic s = PSTATE_MAGIC \<and>
              pstate_ts_decrypt s timestamp < pstate_ts_decrypt s (stable_sync_ts s)
      then kret ()
      else kthen (thread_suspend_cur pstate_waiting) (kthen (pstate_sync_schedule False) (kerr E_RESTART))))"

subsection \<open>Timestamps are ordered like the counter\<close>

lemma unat_bf61_split:
  "unat (bf61_split v) = (unat v div 2 ^ 29) mod 2 ^ 30 * 2 ^ 31 + unat v mod 2 ^ 31"
proof -
  have "bf61_split v = push_bit 31 (take_bit 30 (drop_bit 29 v)) + take_bit 31 v"
    unfolding bf61_split_def take_bit_eq_mask [symmetric]
    by (rule disjunctive_add_eq_or [symmetric]) (auto intro!: bit_word_eqI simp: bit_simps)
  moreover have "(unat v div 2 ^ 29) mod 2 ^ 30 * 2 ^ 31 + unat v mod 2 ^ 31 < 2 ^ 64"
  proof -
    have "(unat v div 2 ^ 29) mod 2 ^ 30 \<le> 2 ^ 30 - 1" "unat v mod 2 ^ 31 < 2 ^ 31"
      by (simp_all add: less_Suc_eq_le [symmetric])
    then have "(unat v div 2 ^ 29) mod 2 ^ 30 * 2 ^ 31 + unat v mod 2 ^ 31 < (2 ^ 30 - 1) * 2 ^ 31 + 2 ^ 31"
      by (intro add_le_less_mono mult_right_mono) simp_all
    also have "\<dots> < 2 ^ 64" by simp
    finally show ?thesis .
  qed
  moreover have "unat v div 2 ^ 29 < 2 ^ 64"
    using unat_less_exp [of v] by (simp add: div_less_iff_less_mult)
  ultimately show ?thesis
    by (simp add: unat_word_ariths unsigned_push_bit_eq unsigned_take_bit_eq unsigned_drop_bit_eq
        take_bit_eq_mod drop_bit_eq_div push_bit_eq_mult)
qed

lemma digit_less:
  fixes a b c m n :: nat
  assumes "a < b" "m < c"
  shows "a * c + m < b * c + n"
proof -
  have "Suc a * c \<le> b * c" using assms(1) by (intro mult_le_mono1) simp
  then show ?thesis using assms(2) by simp
qed

lemma split_mono_nat:
  fixes v w :: nat
  assumes "v < w"
  shows "v div 2 ^ 29 * 2 ^ 31 + v mod 2 ^ 31 < w div 2 ^ 29 * 2 ^ 31 + w mod 2 ^ 31"
proof (cases "v div 2 ^ 29 = w div 2 ^ 29")
  case True
  have "x div 2 ^ 31 = x div 2 ^ 29 div 4" for x :: nat by (simp flip: div_mult2_eq)
  then have "v div 2 ^ 31 = w div 2 ^ 31" using True by simp
  then have "v mod 2 ^ 31 < w mod 2 ^ 31"
    using assms by (metis add_less_cancel_left div_mult_mod_eq)
  then show ?thesis using True by (simp only: add_less_cancel_left)
next
  case False
  then have "v div 2 ^ 29 < w div 2 ^ 29"
    using div_le_mono [OF less_imp_le [OF assms], of "2 ^ 29"] by (simp only: le_neq_implies_less)
  then show ?thesis by (rule digit_less) simp
qed

lemma bf61_split_mono:
  assumes "v < w" "w < 2 ^ 59"
  shows "bf61_split v < bf61_split w"
proof -
  let ?v = "unat v" and ?w = "unat w"
  have vw: "?v < ?w" "?w < 2 ^ 59" using assms by (simp_all add: word_less_nat_alt)
  then have small: "?v div 2 ^ 29 < 2 ^ 30" "?w div 2 ^ 29 < 2 ^ 30" by (auto simp: div_less_iff_less_mult)
  have "?v div 2 ^ 29 * 2 ^ 31 + ?v mod 2 ^ 31 < ?w div 2 ^ 29 * 2 ^ 31 + ?w mod 2 ^ 31"
    using vw(1) by (rule split_mono_nat)
  then show ?thesis using small by (simp add: word_less_nat_alt unat_bf61_split)
qed

lemma pstate_ts_order:
  assumes "c < 2 ^ 59" "d < 2 ^ 59"
  shows "pstate_ts_decrypt s (bf61_encipher (pstate_key_ctx s) c) < pstate_ts_decrypt s (bf61_encipher (pstate_key_ctx s) d)
     \<longleftrightarrow> c < d"
  using bf61_split_mono [of c d] bf61_split_mono [of d c] assms
  by (cases c d rule: linorder_cases) (auto simp: pstate_ts_decrypt_def bf61_decipher_encipher not_less intro: less_imp_le)

subsection \<open>The queue keeps the most important request\<close>

lemma op_queue_fold:
  "foldr op_queue_put (rev ops) q \<in> set (q # ops) \<and>
   (\<forall>x\<in>set (q # ops). op_num (op_prio x) \<le> op_num (op_prio (foldr op_queue_put (rev ops) q)))"
  by (induction ops rule: rev_induct) (auto simp: op_queue_put_def not_less)

text \<open>
  after any sequence of requests the queue holds one of the requests made (or what it held
  before), and none of the others has a higher priority.
\<close>

theorem pstate_op_schedule_max:
  "let reqs = map (\<lambda>(p, f, a, b, c). \<lparr> op_prio = p, op_fn = f, op_arg = (a, b, c) \<rparr>) ops;
       s' = snd (kfor (\<lambda>(p, f, a, b, c). pstate_op_schedule p f a b c) ops s)
   in pstate_op_queue s' \<in> insert (pstate_op_queue s) (set reqs) \<and>
      (\<forall>x \<in> insert (pstate_op_queue s) (set reqs). op_num (op_prio x) \<le> op_num (op_prio (pstate_op_queue s')))"
proof -
  let ?reqs = "map (\<lambda>(p, f, a, b, c). \<lparr> op_prio = p, op_fn = f, op_arg = (a, b, c) \<rparr>)"
  have "pstate_op_queue (snd (kfor (\<lambda>(p, f, a, b, c). pstate_op_schedule p f a b c) ops s)) =
      foldr op_queue_put (rev (?reqs ops)) (pstate_op_queue s)"
    by (induction ops arbitrary: s) (auto simp: kret_def kthen_case pstate_op_schedule_def)
  then show ?thesis using op_queue_fold [of "?reqs ops" "pstate_op_queue s"] by (simp add: Let_def)
qed

theorem pstate_op_schedule_max_witness:
  "op_num op_swapout_global_gc \<le>
     op_num (op_prio (pstate_op_queue (snd (kfor (\<lambda>(p, f, a, b, c). pstate_op_schedule p f a b c)
       [(op_swapout_global_gc, pstate_sync_stackwrap, 0, 0, 0), (op_swapin, pstate_swapin_stackwrap, 7, 0, 0)] kstate0))))"
  using pstate_op_schedule_max [of "[(op_swapout_global_gc, pstate_sync_stackwrap, 0, 0, 0),
      (op_swapin, pstate_swapin_stackwrap, 7, 0, 0)]" kstate0]
  by (simp add: Let_def)

subsection \<open>Waiting for a snapshot\<close>

lemma thread_suspend_cur_effect:
  assumes "cur_thread s \<noteq> 0"
  obtains s' where "thread_suspend_cur pstate_waiting s = (Ret (), s')"
    "thread_list s' = (unlinked s (cur_thread s))(pstate_waiting := cur_thread s # unlinked s (cur_thread s) pstate_waiting)"
    "v_status (tview s' (cur_thread s)) = thread_suspended"
  by (rule thread_suspend_effect [OF assms, of pstate_waiting s])
    (use assms that in \<open>simp add: thread_suspend_cur_def kbind_get del: tview_simps\<close>)

text \<open>
  C34: a thread that asks for everything up to a timestamp to be on disk goes on at once exactly if the
  stable snapshot was begun later than the timestamp was issued; otherwise it is suspended on the list of disk
  waiters and the operation queue holds a global sync or something more urgent. Timestamps are
  enciphered counter values below \<open>2 ^ 59\<close>.
\<close>

theorem pstate_sync_user_exact:
  assumes "cur_thread s \<noteq> 0" "pstate_part s" "c < 2 ^ 59" "d < 2 ^ 59"
    "stable_sync_ts s = bf61_encipher (pstate_key_ctx s) d"
  shows "case pstate_sync_user (bf61_encipher (pstate_key_ctx s) c) s of
      (Ret _, s') \<Rightarrow> stable_magic s = PSTATE_MAGIC \<and> c < d \<and> s' = s
    | (Err e, s') \<Rightarrow> e = E_RESTART \<and> \<not> (stable_magic s = PSTATE_MAGIC \<and> c < d) \<and>
        v_status (tview s' (cur_thread s)) = thread_suspended \<and>
        cur_thread s \<in> set (thread_list s' pstate_waiting) \<and>
        op_num op_swapout_global \<le> op_num (op_prio (pstate_op_queue s'))
    | _ \<Rightarrow> False"
proof (cases "stable_magic s = PSTATE_MAGIC \<and> c < d")
  case True
  then show ?thesis using assms pstate_ts_order [OF assms(3,4), of s]
    by (simp add: pstate_sync_user_def kbind_get kret_def)
next
  case False
  obtain s1 where s1: "thread_suspend_cur pstate_waiting s = (Ret (), s1)"
    "thread_list s1 = (unlinked s (cur_thread s))(pstate_waiting := cur_thread s # unlinked s (cur_thread s) pstate_waiting)"
    "v_status (tview s1 (cur_thread s)) = thread_suspended"
    by (rule thread_suspend_cur_effect [OF assms(1)])
  have "\<not> (stable_magic s = PSTATE_MAGIC \<and> pstate_ts_decrypt s (bf61_encipher (pstate_key_ctx s) c)
      < pstate_ts_decrypt s (stable_sync_ts s))"
    using False pstate_ts_order [OF assms(3,4), of s] assms(5) by simp
  then show ?thesis using assms s1 False
    by (auto simp: pstate_sync_user_def kbind_get kthen_case kerr_def pstate_sync_schedule_def
        pstate_op_schedule_def op_queue_put_def tview_def Let_def)
qed

definition sync_state :: kstate where
  "sync_state = kstate0\<lparr> cur_thread := 1, pstate_part := True, stable_magic := PSTATE_MAGIC,
     stable_sync_ts := bf61_encipher (pstate_key_ctx kstate0) 7 \<rparr>"

theorem pstate_sync_user_exact_witness:
  "fst (pstate_sync_user (bf61_encipher (pstate_key_ctx sync_state) 5) sync_state) = Ret () \<and>
   fst (pstate_sync_user (bf61_encipher (pstate_key_ctx sync_state) 7) sync_state) = Err E_RESTART"
  using pstate_sync_user_exact [of sync_state 5 7] pstate_sync_user_exact [of sync_state 7 7]
  by (auto simp: sync_state_def kstate0_def split: prod.splits outcome.splits)

end
