(* ===== verification/Pagealloc.thy ===== *)
theory Pagealloc
  imports Pstate
begin

text \<open>
  \<^verbatim>\<open>src/kern/kern/pagealloc.c\<close>: the free list of physical pages. \<^verbatim>\<open>scrub_free_pages\<close> is off in the
  source, so the contents of a page are not touched; every caller clears or fills a page it gets.
  When there is no memory the allocator schedules a garbage-collecting sync and asks for a restart.
\<close>

definition page_free :: "ptr \<Rightarrow> unit kernel" where
  "page_free v =
     kbind (kget (\<lambda>s. pi_freepage (ks_pi s v))) (\<lambda>was_free.
     kthen (kassert (\<not> was_free))
    (kthen (upd_pi v (\<lambda>pi. pi\<lparr> pi_freepage := True \<rparr>))
       (kmod (\<lambda>s. s\<lparr> page_free_list := v # page_free_list s,
                     page_stat := (page_stat s)\<lparr> pages_avail := pages_avail (page_stat s) + 1,
                                                 pages_used := pages_used (page_stat s) - 1 \<rparr> \<rparr>))))"

definition page_alloc :: "ptr kernel" where
  "page_alloc =
     kbind (kget page_free_list) (\<lambda>fl.
     case fl of
       [] \<Rightarrow> kthen (kmod (\<lambda>s. s\<lparr> page_stat := (page_stat s)\<lparr> ps_failures := ps_failures (page_stat s) + 1 \<rparr> \<rparr>))
              (kthen (pstate_sync True) (kerr E_RESTART))
     | pl # rest \<Rightarrow>
         kthen (kmod (\<lambda>s. s\<lparr> page_free_list := rest,
             page_stat := (page_stat s)\<lparr> pages_avail := pages_avail (page_stat s) - 1,
                                         pages_used := pages_used (page_stat s) + 1,
                                         ps_allocations := ps_allocations (page_stat s) + 1 \<rparr> \<rparr>))
        (kbind (kget (\<lambda>s. pi_freepage (ks_pi s pl))) (\<lambda>was_free.
         kthen (kassert was_free)
        (kthen (upd_pi pl (\<lambda>pi. pi\<lparr> pi_freepage := False \<rparr>))
         (kret pl)))))"

subsection \<open>The allocator's contract\<close>

text \<open>
  What the users of a page allocator rely on. \<open>avail\<close> is the set of pages on the free list.
\<close>

locale page_allocator =
  fixes inv :: "'s \<Rightarrow> bool"
    and avail :: "'s \<Rightarrow> 'p set"
    and alloc :: "('s, 'p) km"
    and release :: "'p \<Rightarrow> ('s, unit) km"
  assumes alloc_avail: "inv s \<Longrightarrow> avail s \<noteq> {} \<Longrightarrow>
      \<exists>p s'. alloc s = (Ret p, s') \<and> p \<in> avail s \<and> avail s' = avail s - {p} \<and> inv s'"
    and release_avail: "inv s \<Longrightarrow> p \<notin> avail s \<Longrightarrow>
      \<exists>s'. release p s = (Ret (), s') \<and> avail s' = insert p (avail s) \<and> inv s'"
    and release_twice: "inv s \<Longrightarrow> p \<in> avail s \<Longrightarrow> fst (release p s) = Panic"
begin

text \<open>As many pages as are free can be had, all different, and giving them back restores the set.\<close>

lemma alloc_n_distinct:
  assumes "inv s" "finite (avail s)" "n \<le> card (avail s)"
  shows "\<exists>ps s'. krepeat n alloc s = (Ret ps, s') \<and> length ps = n \<and> distinct ps \<and>
    set ps \<subseteq> avail s \<and> avail s' = avail s - set ps \<and> inv s'"
  using assms
proof (induction n arbitrary: s)
  case 0
  then show ?case by (simp add: kret_def)
next
  case (Suc n)
  then have "avail s \<noteq> {}" by auto
  with Suc.prems(1) obtain p s1 where
    p: "alloc s = (Ret p, s1)" "p \<in> avail s" "avail s1 = avail s - {p}" "inv s1"
    using alloc_avail by blast
  have "finite (avail s1)" "n \<le> card (avail s1)" using p Suc.prems by simp_all
  then obtain ps s2 where "krepeat n alloc s1 = (Ret ps, s2)" "length ps = n" "distinct ps"
    "set ps \<subseteq> avail s1" "avail s2 = avail s1 - set ps" "inv s2"
    using Suc.IH [OF p(4)] by blast
  then show ?case using p by (auto simp: kbind_def kret_def)
qed

lemma release_all:
  assumes "inv s" "distinct ps" "set ps \<inter> avail s = {}"
  shows "\<exists>s'. kfor release ps s = (Ret (), s') \<and> avail s' = avail s \<union> set ps \<and> inv s'"
  using assms
proof (induction ps arbitrary: s)
  case Nil
  then show ?case by (simp add: kret_def)
next
  case (Cons p ps)
  then obtain s1 where "release p s = (Ret (), s1)" "avail s1 = insert p (avail s)" "inv s1"
    using release_avail [of s p] by auto
  moreover from this obtain s2 where "kfor release ps s1 = (Ret (), s2)" "avail s2 = avail s1 \<union> set ps" "inv s2"
    using Cons.IH [of s1] Cons.prems by auto
  ultimately show ?case by (auto simp: kthen_case)
qed

end

definition free_inv :: "kstate \<Rightarrow> bool" where
  "free_inv s \<longleftrightarrow> distinct (page_free_list s) \<and> (\<forall>p. pi_freepage (ks_pi s p) \<longleftrightarrow> p \<in> set (page_free_list s)) \<and>
     pages_avail (page_stat s) = of_nat (length (page_free_list s))"

lemma page_alloc_run:
  assumes "page_free_list s = p # ps" "pi_freepage (ks_pi s p)"
  shows "page_alloc s = (Ret p, s\<lparr> page_free_list := ps,
      page_stat := (page_stat s)\<lparr> pages_avail := pages_avail (page_stat s) - 1,
        pages_used := pages_used (page_stat s) + 1, ps_allocations := ps_allocations (page_stat s) + 1 \<rparr>,
      ks_pi := (ks_pi s)(p := (ks_pi s p)\<lparr> pi_freepage := False \<rparr>) \<rparr>)"
  using assms by (simp add: page_alloc_def krun)

lemma page_free_run:
  "page_free p s = (if pi_freepage (ks_pi s p) then (Panic, s) else (Ret (), s\<lparr>
      ks_pi := (ks_pi s)(p := (ks_pi s p)\<lparr> pi_freepage := True \<rparr>),
      page_free_list := p # page_free_list s,
      page_stat := (page_stat s)\<lparr> pages_avail := pages_avail (page_stat s) + 1,
                                  pages_used := pages_used (page_stat s) - 1 \<rparr> \<rparr>))"
  by (simp add: page_free_def krun)

lemma page_alloc_free_inv:
  assumes "free_inv s" "page_free_list s \<noteq> []"
  shows "\<exists>p s'. page_alloc s = (Ret p, s') \<and> p \<in> set (page_free_list s) \<and>
    set (page_free_list s') = set (page_free_list s) - {p} \<and> free_inv s'"
proof -
  obtain p ps where fl: "page_free_list s = p # ps" using assms(2) by (cases "page_free_list s") auto
  have fp: "pi_freepage (ks_pi s p)" using assms(1) by (simp add: free_inv_def fl)
  show ?thesis
    using assms(1) by (auto simp: page_alloc_run [OF fl fp] free_inv_def fl)
qed

interpretation pga: page_allocator free_inv "\<lambda>s. set (page_free_list s)" page_alloc page_free
proof (unfold_locales, goal_cases)
  case (1 s)
  then show ?case using page_alloc_free_inv [of s] by auto
next
  case (2 s p)
  then show ?case by (auto simp: page_free_run free_inv_def)
next
  case (3 s p)
  then show ?case by (simp add: page_free_run free_inv_def)
qed

text \<open>
  C23: from a consistent free list of at least \<open>n\<close> pages, \<open>n\<close> calls of \<open>page_alloc\<close> return \<open>n\<close>
  different pages that were free and are not any more, and freeing them all makes the same pages free
  again; the free list stays consistent with the \<open>pi_freepage\<close> bits and the statistics throughout.
\<close>

theorem page_alloc_free_pages:
  assumes "free_inv s" "n \<le> length (page_free_list s)"
  shows "\<exists>ps s1 s2. krepeat n page_alloc s = (Ret ps, s1) \<and> length ps = n \<and> distinct ps \<and>
    set (page_free_list s1) = set (page_free_list s) - set ps \<and> free_inv s1 \<and>
    kfor page_free ps s1 = (Ret (), s2) \<and> set (page_free_list s2) = set (page_free_list s) \<and> free_inv s2"
proof -
  have "card (set (page_free_list s)) = length (page_free_list s)"
    using assms(1) by (simp add: free_inv_def distinct_card)
  then obtain ps s1 where a: "krepeat n page_alloc s = (Ret ps, s1)" "length ps = n" "distinct ps"
    "set ps \<subseteq> set (page_free_list s)" "set (page_free_list s1) = set (page_free_list s) - set ps" "free_inv s1"
    using pga.alloc_n_distinct [OF assms(1), of n] assms(2) by auto
  moreover obtain s2 where "kfor page_free ps s1 = (Ret (), s2)" "free_inv s2"
    "set (page_free_list s2) = set (page_free_list s1) \<union> set ps"
    using pga.release_all [OF a(6) a(3)] a(5) by auto
  ultimately show ?thesis by blast
qed

definition two_pages :: kstate where
  "two_pages = kstate0\<lparr> page_free_list := [4, 9],
     ks_pi := (\<lambda>p. page_info0\<lparr> pi_freepage := (p = 4 \<or> p = 9) \<rparr>),
     page_stat := \<lparr> pages_used = 0, pages_avail = 2, ps_allocations = 0, ps_failures = 0 \<rparr> \<rparr>"

theorem page_alloc_free_pages_witness:
  "\<exists>ps s1 s2. krepeat 2 page_alloc two_pages = (Ret ps, s1) \<and> length ps = 2 \<and> distinct ps \<and>
     kfor page_free ps s1 = (Ret (), s2) \<and> set (page_free_list s2) = {4, 9}"
  using page_alloc_free_pages [of two_pages 2] by (auto simp: free_inv_def two_pages_def page_info0_def)

end
