(* ===== verification/Pmap.thy ===== *)
theory Pmap
  imports Pagealloc
begin

unbundle bit_operations_syntax

text \<open>
  Page pins (\<^verbatim>\<open>src/kern/kern/pagetree.c\<close>, end of the file) and the hardware page tables of
  \<^verbatim>\<open>src/kern/arch/amd64/pmap-x86.c\<close> and \<^verbatim>\<open>pmap.c\<close>. A page table is a page of 512 words, four levels
  of them (\<^verbatim>\<open>NPTLVLS\<close> is the number of the top one); a page table entry is named by its page and index.
  The processor's TLB is not part of the state: \<^verbatim>\<open>invlpg\<close> and \<^verbatim>\<open>lcr3\<close> only clear the queue of
  addresses to be flushed.
\<close>

subsection \<open>Pins\<close>

text \<open>Pages beyond \<^verbatim>\<open>global_npages\<close> (device memory) have no \<^verbatim>\<open>page_info\<close>.\<close>

definition has_pageinfo :: "kstate \<Rightarrow> ptr \<Rightarrow> bool" where
  "has_pageinfo s p \<longleftrightarrow> p \<le> global_npages s"

text \<open>
  Pins climb the chain of \<^verbatim>\<open>pi_parent\<close> pointers. A page tree has at most four levels of indirect
  pages above a data page, so five steps are enough.
\<close>

definition pagetree_depth :: nat where "pagetree_depth = 5"

fun incpin_write_from :: "nat \<Rightarrow> ptr \<Rightarrow> unit kernel" where
  "incpin_write_from 0 p = knofuel"
| "incpin_write_from (Suc n) p =
     kbind (kget (\<lambda>s. (has_pageinfo s p, ks_pi s p))) (\<lambda>(has, pi).
     if \<not> has then kret ()
     else if pi_ref pi \<noteq> 1 + pi_write_shared_ref pi then kpanic
     else kthen (upd_pi p (\<lambda>pi. pi\<lparr> pi_hw_write_pin := pi_hw_write_pin pi + 1 \<rparr>))
       (if pi_hw_write_pin pi + 1 = 0 then kpanic
        else if pi_parent pi \<noteq> 0 then incpin_write_from n (pi_parent pi)
        else kret ()))"

definition pagetree_incpin_write :: "ptr \<Rightarrow> unit kernel" where
  "pagetree_incpin_write = incpin_write_from pagetree_depth"

fun decpin_write_from :: "nat \<Rightarrow> ptr \<Rightarrow> unit kernel" where
  "decpin_write_from 0 p = knofuel"
| "decpin_write_from (Suc n) p =
     kbind (kget (\<lambda>s. (has_pageinfo s p, ks_pi s p))) (\<lambda>(has, pi).
     if \<not> has then kret ()
     else if pi_ref pi \<noteq> 1 + pi_write_shared_ref pi then kpanic
     else if pi_hw_write_pin pi = 0 then kpanic
     else kthen (upd_pi p (\<lambda>pi. pi\<lparr> pi_hw_write_pin := pi_hw_write_pin pi - 1 \<rparr>))
       (if pi_parent pi \<noteq> 0
        then (if pi_ref pi \<noteq> 1 then kpanic else decpin_write_from n (pi_parent pi))
        else kret ()))"

definition pagetree_decpin_write :: "ptr \<Rightarrow> unit kernel" where
  "pagetree_decpin_write = decpin_write_from pagetree_depth"

definition pagetree_incpin_read :: "ptr \<Rightarrow> unit kernel" where
  "pagetree_incpin_read p =
     kbind (kget (\<lambda>s. (has_pageinfo s p, ks_pi s p))) (\<lambda>(has, pi).
     if \<not> has then kret ()
     else kthen (upd_pi p (\<lambda>pi. pi\<lparr> pi_hw_read_pin := pi_hw_read_pin pi + 1 \<rparr>))
       (if pi_hw_read_pin pi + 1 = 0 then kpanic else kret ()))"

definition pagetree_decpin_read :: "ptr \<Rightarrow> unit kernel" where
  "pagetree_decpin_read p =
     kbind (kget (\<lambda>s. (has_pageinfo s p, ks_pi s p))) (\<lambda>(has, pi).
     if \<not> has then kret ()
     else if pi_hw_read_pin pi = 0 then kpanic
     else upd_pi p (\<lambda>pi. pi\<lparr> pi_hw_read_pin := pi_hw_read_pin pi - 1 \<rparr>))"

subsection \<open>Page table entries\<close>

definition PTE_P :: u64 where "PTE_P = 0x1"
definition PTE_W :: u64 where "PTE_W = 0x2"
definition PTE_U :: u64 where "PTE_U = 0x4"
definition PTE_D :: u64 where "PTE_D = 0x40"
definition PTE_PS :: u64 where "PTE_PS = 0x80"
definition PTE_NX :: u64 where "PTE_NX = 0x8000000000000000"

definition NPTLVLS :: nat where "NPTLVLS = 3"
definition NPTENTRIES :: nat where "NPTENTRIES = 512"
definition ULIM :: u64 where "ULIM = 0x0000800000000000"

lemmas pte_defs = PTE_P_def PTE_W_def PTE_U_def PTE_D_def PTE_PS_def PTE_NX_def

definition pte_has :: "u64 \<Rightarrow> u64 \<Rightarrow> bool" where
  "pte_has pte flag \<longleftrightarrow> pte AND flag \<noteq> 0"

definition PDSHIFT :: "nat \<Rightarrow> nat" where
  "PDSHIFT n = 12 + 9 * n"

definition PDX :: "nat \<Rightarrow> u64 \<Rightarrow> nat" where
  "PDX n la = unat (drop_bit (PDSHIFT n) la AND 511)"

definition kva2pa :: "ptr \<Rightarrow> u64" where
  "kva2pa p = push_bit 12 (of_nat p)"

definition PTE_ADDR :: "u64 \<Rightarrow> u64" where
  "PTE_ADDR pte = pte AND 0xffffffffff000"

definition pa2kva :: "u64 \<Rightarrow> ptr" where
  "pa2kva pa = unat (drop_bit 12 pa)"

type_synonym pteloc = "ptr \<times> nat"

definition pte_read :: "pteloc \<Rightarrow> u64 kernel" where
  "pte_read l = kget (\<lambda>s. pg_words (ks_page s (fst l)) ! snd l)"

definition pte_write :: "pteloc \<Rightarrow> u64 \<Rightarrow> unit kernel" where
  "pte_write l v = upd_page (fst l) (\<lambda>pg. pg\<lparr> pg_words := (pg_words pg)[snd l := v] \<rparr>)"

definition page_zero :: "ptr \<Rightarrow> unit kernel" where
  "page_zero p = upd_page p (\<lambda>_. page0)"

subsection \<open>Walking the tables\<close>

definition page_map_alloc :: "ptr kernel" where
  "page_map_alloc =
     kbind page_alloc (\<lambda>pmap.
     kthen (kmod (\<lambda>s. s\<lparr> ks_page := (ks_page s)(pmap := bootpml4 s) \<rparr>)) (kret pmap))"

fun page_map_free_level :: "nat \<Rightarrow> ptr \<Rightarrow> unit kernel" where
  "page_map_free_level 0 pgmap = page_free pgmap"
| "page_map_free_level (Suc n) pgmap =
     kthen (kfor (\<lambda>i. kbind (pte_read (pgmap, i)) (\<lambda>ptent.
              kwhen (pte_has ptent PTE_P) (page_map_free_level n (pa2kva (PTE_ADDR ptent)))))
            [0..<(if Suc n = NPTLVLS then NPTENTRIES div 2 else NPTENTRIES)])
       (page_free pgmap)"

definition page_map_free :: "ptr \<Rightarrow> unit kernel" where
  "page_map_free pgmap = page_map_free_level NPTLVLS pgmap"

text \<open>
  The callback gets the entry and the address; the value it returns is passed on to the next call
  (the out-parameter of \<open>pgdir_walk_cb\<close>, nothing for the others).
\<close>

fun page_map_traverse_internal ::
  "ptr \<Rightarrow> nat \<Rightarrow> u64 \<Rightarrow> u64 \<Rightarrow> bool \<Rightarrow> (pteloc \<Rightarrow> u64 \<Rightarrow> 'a \<Rightarrow> 'a kernel) \<Rightarrow> u64 \<Rightarrow> 'a \<Rightarrow> 'a kernel" where
  "page_map_traverse_internal pgmap 0 first lst create cb va_base a =
     kfold (\<lambda>idx a.
       kbind (pte_read (pgmap, idx)) (\<lambda>pm_ent.
       let ent_va = va_base + push_bit (PDSHIFT 0) (of_nat idx)
       in if create \<or> pte_has pm_ent PTE_P then cb (pgmap, idx) ent_va a else kret a))
       [PDX 0 first..<Suc (PDX 0 lst)] a"
| "page_map_traverse_internal pgmap (Suc n) first lst create cb va_base a =
     kfold (\<lambda>idx a.
       kbind (pte_read (pgmap, idx)) (\<lambda>pm_ent.
       let ent_va = va_base + push_bit (PDSHIFT (Suc n)) (of_nat idx);
           first_next = (if idx = PDX (Suc n) first then first else 0);
           last_next = (if idx = PDX (Suc n) lst then lst else - 1)
       in if Suc n = 1 \<and> pte_has pm_ent PTE_PS then cb (pgmap, idx) ent_va a
          else if pte_has pm_ent PTE_P
          then page_map_traverse_internal (pa2kva (PTE_ADDR pm_ent)) n first_next last_next create cb ent_va a
          else if \<not> create then kret a
          else kbind page_alloc (\<lambda>p.
               kthen (page_zero p)
              (kthen (pte_write (pgmap, idx) (kva2pa p OR PTE_P OR PTE_U OR PTE_W))
                 (page_map_traverse_internal (pa2kva (PTE_ADDR (kva2pa p OR PTE_P OR PTE_U OR PTE_W)))
                    n first_next last_next create cb ent_va a)))))
       [PDX (Suc n) first..<Suc (PDX (Suc n) lst)] a"

definition page_map_traverse ::
  "ptr \<Rightarrow> u64 \<Rightarrow> u64 \<Rightarrow> bool \<Rightarrow> (pteloc \<Rightarrow> u64 \<Rightarrow> 'a \<Rightarrow> 'a kernel) \<Rightarrow> 'a \<Rightarrow> 'a kernel" where
  "page_map_traverse pgmap first lst create cb a =
     page_map_traverse_internal pgmap NPTLVLS first (if ULIM \<le> lst then ULIM - PGSIZE else lst) create cb 0 a"

definition pgdir_walk :: "ptr \<Rightarrow> u64 \<Rightarrow> bool \<Rightarrow> pteloc option kernel" where
  "pgdir_walk pgmap va create =
     kbind (page_map_traverse pgmap va va create (\<lambda>ptep _ _. kret (Some ptep)) None) (\<lambda>pte_store.
     if create \<and> pte_store = None then kerr E_INVAL else kret pte_store)"

definition page_lookup :: "ptr \<Rightarrow> u64 \<Rightarrow> (ptr \<times> pteloc option) kernel" where
  "page_lookup pgmap va =
     (if ULIM \<le> va then kpanic
      else ktry (pgdir_walk pgmap va False) (\<lambda>r.
        case r of
          Inl _ \<Rightarrow> kpanic
        | Inr None \<Rightarrow> kret (0, None)
        | Inr (Some ptep) \<Rightarrow> kbind (pte_read ptep) (\<lambda>pte.
            if \<not> pte_has pte PTE_P then kret (0, Some ptep)
            else kret (pa2kva (PTE_ADDR pte), Some ptep))))"

subsection \<open>Entry management\<close>

definition pmap_invlpg_max :: nat where "pmap_invlpg_max = 4"

definition pmap_queue_invlpg :: "ptr \<Rightarrow> u64 \<Rightarrow> unit kernel" where
  "pmap_queue_invlpg pgmap addr =
     kmod (\<lambda>s. if cur_pgmap s \<noteq> pgmap then s
       else if pmap_invlpg_max \<le> invlpg_count s then s\<lparr> invlpg_count := pmap_invlpg_max + 1 \<rparr>
       else if 0 < invlpg_count s \<and> invlpg_addrs s ! (invlpg_count s - 1) = addr then s
       else s\<lparr> invlpg_addrs := take (invlpg_count s) (invlpg_addrs s) @ [addr],
               invlpg_count := invlpg_count s + 1 \<rparr>)"

definition pmap_set_current :: "ptr \<Rightarrow> unit kernel" where
  "pmap_set_current new_pgmap = kmod (\<lambda>s. s\<lparr> cur_pgmap := new_pgmap, invlpg_count := 0 \<rparr>)"

definition as_arch_collect_dirty_bits :: "ptr \<Rightarrow> pteloc \<Rightarrow> u64 \<Rightarrow> unit kernel" where
  "as_arch_collect_dirty_bits pgmap ptep va =
     kbind (pte_read ptep) (\<lambda>pte.
     if \<not> pte_has pte PTE_P \<or> \<not> pte_has pte PTE_D then kret ()
     else kbind (kget (\<lambda>s. has_pageinfo s (pa2kva (PTE_ADDR pte)))) (\<lambda>has.
          kthen (kwhen has
                  (kthen (upd_pi (pa2kva (PTE_ADDR pte)) (\<lambda>pi. pi\<lparr> pi_dirty := True \<rparr>))
                         (pte_write ptep (pte AND NOT PTE_D))))
            (pmap_queue_invlpg pgmap va)))"

definition as_arch_page_invalidate_cb :: "ptr \<Rightarrow> pteloc \<Rightarrow> u64 \<Rightarrow> unit kernel" where
  "as_arch_page_invalidate_cb pgmap ptep va =
     kthen (as_arch_collect_dirty_bits pgmap ptep va)
    (kbind (pte_read ptep) (\<lambda>pte.
     kwhen (pte_has pte PTE_P)
       (kthen (if pte_has pte PTE_W then pagetree_decpin_write (pa2kva (PTE_ADDR pte))
               else pagetree_decpin_read (pa2kva (PTE_ADDR pte)))
       (kthen (pte_write ptep 0) (pmap_queue_invlpg pgmap va)))))"

definition as_arch_page_map_ro_cb :: "ptr \<Rightarrow> pteloc \<Rightarrow> u64 \<Rightarrow> unit kernel" where
  "as_arch_page_map_ro_cb pgmap ptep va =
     kthen (as_arch_collect_dirty_bits pgmap ptep va)
    (kbind (pte_read ptep) (\<lambda>pte.
     kwhen (pte_has pte PTE_P \<and> pte_has pte PTE_W)
       (kthen (pagetree_decpin_write (pa2kva (PTE_ADDR pte)))
       (kthen (pagetree_incpin_read (pa2kva (PTE_ADDR pte)))
       (kthen (pte_write ptep (pte AND NOT PTE_W)) (pmap_queue_invlpg pgmap va))))))"

definition ptflags_of :: "u32 \<Rightarrow> u64" where
  "ptflags_of flags =
     (let f0 = PTE_P OR PTE_U OR PTE_NX;
          f1 = (if flags AND SEGMAP_WRITE \<noteq> 0 then f0 OR PTE_W else f0)
      in if flags AND SEGMAP_EXEC \<noteq> 0 then f1 AND NOT PTE_NX else f1)"

definition as_arch_putpage :: "ptr \<Rightarrow> u64 \<Rightarrow> ptr \<Rightarrow> u32 \<Rightarrow> unit kernel" where
  "as_arch_putpage pgmap va pp flags =
     kbind (pgdir_walk pgmap va True) (\<lambda>ptep_opt.
     let ptep = the ptep_opt; ptflags = ptflags_of flags
     in kthen (as_arch_page_invalidate_cb pgmap ptep va)
       (kthen (pte_write ptep (kva2pa pp OR ptflags))
       (kthen (if pte_has ptflags PTE_W then pagetree_incpin_write pp else pagetree_incpin_read pp)
         (pmap_queue_invlpg pgmap va))))"

end
