(* ===== verification/Pagetree.thy ===== *)
theory Pagetree
  imports Pmap
begin

unbundle bit_operations_syntax

text \<open>
  Copy-on-write page trees (\<^verbatim>\<open>src/kern/kern/pagetree.c\<close>) together with what copying a page calls
  back into: removing the mappings of a segment (\<^verbatim>\<open>segment_invalidate\<close> of \<^verbatim>\<open>segment.c\<close>,
  \<^verbatim>\<open>as_invalidate_sm\<close> of \<^verbatim>\<open>as.c\<close>), which looks up the user's segment mapping with a read-only walk
  of another page tree (\<^verbatim>\<open>kobject_get_page\<close> of \<^verbatim>\<open>kobj.c\<close>).

  The source has one \<^verbatim>\<open>pagetree_get_page\<close> with a sharing mode. A read-only walk never copies a page, so it is
  defined first (the \<open>_ro\<close> functions), then the copying, then the general walk; the general walk in
  mode \<open>page_shared_ro\<close> is shown to be the read-only one.
\<close>

subsection \<open>Entries\<close>

definition pt_of :: "kstate \<Rightarrow> ptid \<Rightarrow> pagetree" where
  "pt_of s t = (case t of PtActive p \<Rightarrow> ko_pt (ks_obj s p) | PtSnap p \<Rightarrow> ko_pt (ks_snap s p)
     | PtSegmap p \<Rightarrow> as_segmap_pt (aspace (ks_obj s p)))"

definition upd_pt :: "ptid \<Rightarrow> (pagetree \<Rightarrow> pagetree) \<Rightarrow> unit kernel" where
  "upd_pt t f = (case t of
       PtActive p \<Rightarrow> upd_obj p (\<lambda>ko. ko\<lparr> ko_pt := f (ko_pt ko) \<rparr>)
     | PtSnap p \<Rightarrow> kmod (\<lambda>s. s\<lparr> ks_snap := (ks_snap s)(p := (ks_snap s p)\<lparr> ko_pt := f (ko_pt (ks_snap s p)) \<rparr>) \<rparr>)
     | PtSegmap p \<Rightarrow> upd_as p (\<lambda>a. a\<lparr> as_segmap_pt := f (as_segmap_pt a) \<rparr>))"

definition ent_of :: "kstate \<Rightarrow> entloc \<Rightarrow> pagetree_entry" where
  "ent_of s l = (case l of EDirect t i \<Rightarrow> pt_direct (pt_of s t) ! i | EIndirect t i \<Rightarrow> pt_indirect (pt_of s t) ! i
     | EPage p i \<Rightarrow> pg_ents (ks_page s p) ! i)"

definition upd_ent :: "entloc \<Rightarrow> (pagetree_entry \<Rightarrow> pagetree_entry) \<Rightarrow> unit kernel" where
  "upd_ent l f = (case l of
       EDirect t i \<Rightarrow> upd_pt t (\<lambda>pt. pt\<lparr> pt_direct := (pt_direct pt)[i := f (pt_direct pt ! i)] \<rparr>)
     | EIndirect t i \<Rightarrow> upd_pt t (\<lambda>pt. pt\<lparr> pt_indirect := (pt_indirect pt)[i := f (pt_indirect pt ! i)] \<rparr>)
     | EPage p i \<Rightarrow> upd_page p (\<lambda>pg. pg\<lparr> pg_ents := (pg_ents pg)[i := f (pg_ents pg ! i)] \<rparr>))"

definition ent_page :: "entloc \<Rightarrow> ptr kernel" where
  "ent_page l = kget (\<lambda>s. pe_page (ent_of s l))"

definition pi_of :: "ptr \<Rightarrow> page_info kernel" where
  "pi_of p = kget (\<lambda>s. ks_pi s p)"

definition pagetree_link_entry :: "entloc \<Rightarrow> unit kernel" where
  "pagetree_link_entry ep =
     kbind (ent_page ep) (\<lambda>p. upd_pi p (\<lambda>pi. pi\<lparr> pi_plist := ep # pi_plist pi \<rparr>))"

definition pagetree_set_entry :: "entloc \<Rightarrow> ptr \<Rightarrow> unit kernel" where
  "pagetree_set_entry ep p =
     kbind (ent_page ep) (\<lambda>old.
     kthen (kwhen (old \<noteq> 0) (upd_pi old (\<lambda>pi. pi\<lparr> pi_plist := remove1 ep (pi_plist pi) \<rparr>)))
    (kthen (kwhen (p \<noteq> 0) (upd_pi p (\<lambda>pi. pi\<lparr> pi_plist := ep # pi_plist pi \<rparr>)))
       (upd_ent ep (\<lambda>e. e\<lparr> pe_page := p \<rparr>))))"

subsection \<open>Reference counts of pages\<close>

text \<open>
  Freeing recurses into the children of an indirect page; the argument bounds the depth
  (\<open>pagetree_depth\<close> is enough for four levels of indirect pages).
\<close>

function (sequential) pagetree_free_page :: "nat \<Rightarrow> ptr \<Rightarrow> unit kernel"
  and pagetree_decref :: "nat \<Rightarrow> ptr \<Rightarrow> unit kernel" where
  "pagetree_free_page n p =
     kbind (pi_of p) (\<lambda>pi.
     kthen (kassert (pi_ref pi = 0))
    (kthen (kassert (pi_write_shared_ref pi = 0))
    (kthen (kassert (pi_hw_write_pin pi = 0))
    (kthen (kassert (pi_hw_read_pin pi = 0))
    (kthen (kwhen (pi_indir pi)
        (kfor (\<lambda>i. kbind (ent_page (EPage p i)) (\<lambda>c.
            kwhen (c \<noteq> 0) (kthen (pagetree_decref n c) (pagetree_set_entry (EPage p i) p))))
          [0..<PAGETREE_ENTRIES_PER_PAGE]))
    (kthen (upd_pi p (\<lambda>_. page_info0)) (page_free p)))))))"
| "pagetree_decref 0 p = knofuel"
| "pagetree_decref (Suc n) p =
     kthen (upd_pi p (\<lambda>pi. pi\<lparr> pi_ref := pi_ref pi - 1 \<rparr>))
    (kbind (pi_of p) (\<lambda>pi. if pi_ref pi = 0 then pagetree_free_page n p else kret ()))"
  by pat_completeness auto

termination
  by (relation "measure (\<lambda>x. case x of Inl (n, _) \<Rightarrow> 2 * n + 1 | Inr (n, _) \<Rightarrow> 2 * n)") auto

definition pagetree_incref :: "ptr \<Rightarrow> unit kernel" where
  "pagetree_incref p = upd_pi p (\<lambda>pi. pi\<lparr> pi_ref := pi_ref pi + 1 \<rparr>)"

subsection \<open>Read-only lookup\<close>

definition set_pi_parent :: "ptr \<Rightarrow> ptr \<Rightarrow> unit kernel" where
  "set_pi_parent p parent = upd_pi p (\<lambda>pi. pi\<lparr> pi_parent := parent \<rparr>)"

text \<open>
  Returns the entry and its indirect page, or no entry if an indirect page is missing. Numbers are
  unsigned 64-bit; the slot is truncated to 32 bits.
\<close>

fun get_entp_indirect_ro :: "entloc \<Rightarrow> u64 \<Rightarrow> nat \<Rightarrow> ptr \<Rightarrow> (entloc \<times> ptr) option kernel" where
  "get_entp_indirect_ro indir npage 0 parent =
     kbind (ent_page indir) (\<lambda>pip.
     if pip = 0 then kret None
     else kthen (set_pi_parent pip parent) (kret (Some (EPage pip (unat npage), pip))))"
| "get_entp_indirect_ro indir npage (Suc level) parent =
     kbind (ent_page indir) (\<lambda>pip.
     if pip = 0 then kret None
     else kthen (set_pi_parent pip parent)
       (let n_pages_per_pip_entry = of_nat PAGETREE_ENTRIES_PER_PAGE ^ Suc level;
            next_slot = ucast (npage div n_pages_per_pip_entry) :: u32;
            next_page = ucast (npage mod n_pages_per_pip_entry) :: u32
        in kthen (kassert (unat next_slot < PAGETREE_ENTRIES_PER_PAGE))
             (get_entp_indirect_ro (EPage pip (unat next_slot)) (ucast next_page) level pip)))"

text \<open>
  The choice among direct pages and the four indirect trees: the tree \<open>i\<close> holds
  \<open>PAGETREE_ENTRIES_PER_PAGE ^ (i + 1)\<close> pages.
\<close>

fun pagetree_indirect_tree :: "u64 \<Rightarrow> nat list \<Rightarrow> u64 \<Rightarrow> (nat \<times> u64) option" where
  "pagetree_indirect_tree npage [] num_indirect_pages = None"
| "pagetree_indirect_tree npage (i # is) num_indirect_pages =
     (let num = num_indirect_pages * of_nat PAGETREE_ENTRIES_PER_PAGE
      in if npage < num then Some (i, npage)
         else pagetree_indirect_tree (npage - num) is num)"

definition pagetree_get_entp_ro :: "ptid \<Rightarrow> u64 \<Rightarrow> (entloc \<times> ptr) option kernel" where
  "pagetree_get_entp_ro pt npage =
     (if npage < of_nat PAGETREE_DIRECT_PAGES then kret (Some (EDirect pt (unat npage), 0))
      else case pagetree_indirect_tree (npage - of_nat PAGETREE_DIRECT_PAGES) [0..<PAGETREE_INDIRECTS] 1 of
        Some (i, n) \<Rightarrow> get_entp_indirect_ro (EIndirect pt i) n i 0
      | None \<Rightarrow> kerr E_NO_SPACE)"

definition pagetree_get_page_ro :: "ptid \<Rightarrow> u64 \<Rightarrow> ptr kernel" where
  "pagetree_get_page_ro pt npage =
     kbind (pagetree_get_entp_ro pt npage) (\<lambda>r.
     case r of None \<Rightarrow> kret 0 | Some (ent, _) \<Rightarrow> ent_page ent)"

definition note_shared :: "ptr \<Rightarrow> ptr \<Rightarrow> unit kernel" where
  "note_shared ko p =
     kbind (pi_of p) (\<lambda>ptp.
     kwhen (1 + pi_write_shared_ref ptp < pi_ref ptp)
       (upd_hdr ko (\<lambda>h. h\<lparr> ko_flags := ko_flags h OR KOBJ_SHARED_MAPPINGS \<rparr>)))"

definition kobject_get_page_ro :: "ptr \<Rightarrow> u64 \<Rightarrow> ptr kernel" where
  "kobject_get_page_ro ko npage =
     kbind (hd_of ko) (\<lambda>h.
     if kobject_npages h \<le> npage then kerr E_INVAL
     else kbind (pagetree_get_page_ro (PtActive ko) npage) (\<lambda>p.
       if p = 0 then kpanic
       else kthen (note_shared ko p) (kret p)))"

subsection \<open>Removing mappings\<close>

text \<open>A \<^verbatim>\<open>u_segment_mapping\<close> is six words of a page of its address space.\<close>

record u_segment_mapping =
  usm_segment :: cobj_ref
  usm_start_page :: u64
  usm_num_pages :: u64
  usm_kslot :: u32
  usm_flags :: u32
  usm_va :: u64

definition usm_decode :: "u64 list \<Rightarrow> u_segment_mapping" where
  "usm_decode w = \<lparr> usm_segment = COBJ (w ! 0) (w ! 1), usm_start_page = w ! 2, usm_num_pages = w ! 3,
     usm_kslot = ucast (w ! 4), usm_flags = ucast (drop_bit 32 (w ! 4)), usm_va = w ! 5 \<rparr>"

definition usm_encode :: "u_segment_mapping \<Rightarrow> u64 list" where
  "usm_encode u = [cobj_container (usm_segment u), cobj_object (usm_segment u), usm_start_page u,
     usm_num_pages u, ucast (usm_kslot u) OR push_bit 32 (ucast (usm_flags u)), usm_va u]"

type_synonym usmloc = "ptr \<times> nat"

definition usm_read :: "usmloc \<Rightarrow> u_segment_mapping kernel" where
  "usm_read l = kget (\<lambda>s. usm_decode (take 6 (drop (6 * snd l) (pg_words (ks_page s (fst l))))))"

definition usm_write :: "usmloc \<Rightarrow> u_segment_mapping \<Rightarrow> unit kernel" where
  "usm_write l u = upd_page (fst l) (\<lambda>pg. pg\<lparr> pg_words :=
     take (6 * snd l) (pg_words pg) @ usm_encode u @ drop (6 * snd l + 6) (pg_words pg) \<rparr>)"

definition as_get_usegmap_ro :: "ptr \<Rightarrow> u64 \<Rightarrow> usmloc kernel" where
  "as_get_usegmap_ro asp smi =
     kbind (kobject_get_page_ro asp (smi div of_nat N_USEGMAP_PER_PAGE)) (\<lambda>p.
     kret (p, unat (smi mod of_nat N_USEGMAP_PER_PAGE)))"

definition sm_of :: "smloc \<Rightarrow> segment_mapping kernel" where
  "sm_of l = kget (\<lambda>s. pg_sms (ks_page s (fst l)) ! snd l)"

definition upd_sm :: "smloc \<Rightarrow> (segment_mapping \<Rightarrow> segment_mapping) \<Rightarrow> unit kernel" where
  "upd_sm l f = upd_page (fst l) (\<lambda>pg. pg\<lparr> pg_sms := (pg_sms pg)[snd l := f (pg_sms pg ! snd l)] \<rparr>)"

text \<open>\<^verbatim>\<open>LIST_REMOVE(sm, sm_link)\<close>: the mapping is on one of the two lists of its object.\<close>

definition segmap_list_remove :: "ptr \<Rightarrow> smloc \<Rightarrow> unit kernel" where
  "segmap_list_remove ko sm =
     upd_obj ko (\<lambda>k. k\<lparr> sg_segmap_list := remove1 sm (sg_segmap_list k),
                        dv := (dv k)\<lparr> dv_segmap_list := remove1 sm (dv_segmap_list (dv k)) \<rparr> \<rparr>)"

text \<open>\<^verbatim>\<open>assert(f() == 0)\<close>\<close>

definition kmust :: "('s, 'a) km \<Rightarrow> ('s, 'a) km" where
  "kmust m = ktry m (\<lambda>r. case r of Inl _ \<Rightarrow> kpanic | Inr a \<Rightarrow> kret a)"

definition usm_last_va :: "u_segment_mapping \<Rightarrow> u64" where
  "usm_last_va usm = usm_va usm + (usm_num_pages usm - 1) * PGSIZE"

definition as_invalidate_sm :: "smloc \<Rightarrow> unit kernel" where
  "as_invalidate_sm sm =
     kbind (sm_of sm) (\<lambda>m.
     if sm_ko m = 0 then kret ()
     else kbind (kmust (as_get_usegmap_ro (sm_as m) (sm_as_slot m))) (\<lambda>ul.
          kbind (usm_read ul) (\<lambda>usm.
          kbind (kget (\<lambda>s. as_pgmap (aspace (ks_obj s (sm_as m))))) (\<lambda>pgmap.
          kthen (kmust (page_map_traverse pgmap (usm_va usm) (usm_last_va usm) False
                   (\<lambda>ptep va _. as_arch_page_invalidate_cb pgmap ptep va) ()))
         (kthen (segmap_list_remove (sm_ko m) sm)
         (kthen (kobject_unpin_page (sm_ko m))
            (upd_sm sm (\<lambda>x. x\<lparr> sm_ko := 0, sm_rw_mappings := False \<rparr>))))))))"

text \<open>
  \<open>segment_invalidate\<close> walks the list; \<open>k\<close> mappings have been skipped so far. Every step removes a
  mapping or skips one, so as many steps as the list is long, and one more, are enough.
\<close>

fun segment_invalidate_from :: "nat \<Rightarrow> ptr \<Rightarrow> u64 \<Rightarrow> nat \<Rightarrow> unit kernel" where
  "segment_invalidate_from 0 sg parent_ct k = knofuel"
| "segment_invalidate_from (Suc n) sg parent_ct k =
     kbind (kget (\<lambda>s. sg_segmap_list (ks_obj s sg))) (\<lambda>l.
     if length l \<le> k then kret ()
     else kbind (sm_of (l ! k)) (\<lambda>m.
       if parent_ct = 0 \<or> parent_ct = sm_ct_id m
       then kthen (as_invalidate_sm (l ! k)) (segment_invalidate_from n sg parent_ct k)
       else segment_invalidate_from n sg parent_ct (Suc k)))"

definition segment_invalidate :: "ptr \<Rightarrow> u64 \<Rightarrow> unit kernel" where
  "segment_invalidate sg parent_ct =
     kbind (kget (\<lambda>s. Suc (length (sg_segmap_list (ks_obj s sg))))) (\<lambda>n.
     segment_invalidate_from n sg parent_ct 0)"

end
