(* ===== verification/Pagecow.thy ===== *)
theory Pagecow
  imports Pagetree
begin

unbundle bit_operations_syntax

text \<open>
  The rest of \<^verbatim>\<open>src/kern/kern/pagetree.c\<close>: copy-on-write, allocation of indirect pages, and the
  operations of a page tree built on them, with \<^verbatim>\<open>kobject_get_page\<close> of \<^verbatim>\<open>kobj.c\<close> in all its modes.
\<close>

subsection \<open>Copy-on-write\<close>

text \<open>Every tree that shares the page may have it mapped read-only: follow the parents up to the segments.\<close>

fun invalidate_ro_from :: "nat \<Rightarrow> ptr \<Rightarrow> unit kernel" where
  "invalidate_ro_from 0 pg = knofuel"
| "invalidate_ro_from (Suc n) pg =
     kbind (pi_of pg) (\<lambda>pi.
     kfor (\<lambda>pe. kbind (kget (\<lambda>s. pe_par (ent_of s pe))) (\<lambda>par.
       case par of
         ParPage parent \<Rightarrow> invalidate_ro_from n parent
       | ParNull \<Rightarrow> kret ()
       | ParKobj ko \<Rightarrow> kbind (hd_of ko) (\<lambda>h.
           if ko_type h \<noteq> kobj_segment then kpanic else segment_invalidate ko 0)))
       (pi_plist pi))"

definition pagetree_invalidate_ro_segments :: "ptr \<Rightarrow> unit kernel" where
  "pagetree_invalidate_ro_segments = invalidate_ro_from pagetree_depth"

definition assert_fresh :: "page_info \<Rightarrow> unit kernel" where
  "assert_fresh pi = kassert (pi_ref pi = 0 \<and> pi_write_shared_ref pi = 0 \<and> pi_hw_write_pin pi = 0 \<and> pi_hw_read_pin pi = 0)"

text \<open>The result says whether the page was copied (return value 1 of the source).\<close>

function (sequential) pagetree_indir_copy :: "nat \<Rightarrow> ptr \<Rightarrow> ptr \<Rightarrow> unit kernel"
  and pagetree_cow :: "nat \<Rightarrow> entloc \<Rightarrow> bool kernel" where
  "pagetree_indir_copy n src dst =
     kthen (kfor (\<lambda>i. kbind (ent_page (EPage dst i)) (\<lambda>p.
         kthen (kwhen (p \<noteq> 0) (kthen (pagetree_incref p) (pagetree_link_entry (EPage dst i))))
               (upd_ent (EPage dst i) (\<lambda>e. e\<lparr> pe_par := ParPage dst \<rparr>))))
       [0..<PAGETREE_ENTRIES_PER_PAGE])
    (kthen (kfor (\<lambda>i. kbind (ent_page (EPage dst i)) (\<lambda>p.
         kbind (pi_of p) (\<lambda>pi.
         kwhen (p \<noteq> 0 \<and> pi_hw_write_pin pi \<noteq> 0)
           (kbind (pagetree_cow n (EPage dst i)) (\<lambda>_. kret ())))))
       [0..<PAGETREE_ENTRIES_PER_PAGE])
    (kbind (pi_of src) (\<lambda>pi.
     kthen (kassert (pi_indir pi)) (upd_pi dst (\<lambda>pi. pi\<lparr> pi_indir := True \<rparr>)))))"
| "pagetree_cow 0 ent = knofuel"
| "pagetree_cow (Suc n) ent =
     kbind (ent_page ent) (\<lambda>p.
     if p = 0 then kret False
     else kbind (pi_of p) (\<lambda>ptp.
       kthen (kassert (0 < pi_ref ptp))
      (if pi_ref ptp \<le> 1 + pi_write_shared_ref ptp then kret False
       else
       kthen (kwhen (pi_hw_read_pin ptp \<noteq> 0)
               (kthen (kassert (\<not> pi_indir ptp)) (pagetree_invalidate_ro_segments p)))
      (kbind page_alloc (\<lambda>copy.
       kthen (kbind (pi_of copy) assert_fresh)
      (kthen (kmod (\<lambda>s. s\<lparr> ks_page := (ks_page s)(copy := ks_page s p) \<rparr>))
      (kthen (pagetree_incref copy)
      (kthen (kwhen (pi_indir ptp)
               (ktry (pagetree_indir_copy n p copy) (\<lambda>r.
                  case r of Inl e \<Rightarrow> kthen (pagetree_decref pagetree_depth copy) (kerr e) | Inr _ \<Rightarrow> kret ())))
      (kthen (kbind (pi_of p) (\<lambda>pi. upd_pi copy (\<lambda>c. c\<lparr> pi_dirty := pi_dirty pi \<rparr>)))
      (kthen (pagetree_decref pagetree_depth p)
      (kthen (pagetree_set_entry ent copy)
         (kret True))))))))))))"
  by pat_completeness auto

termination
  by (relation "measure (\<lambda>x. case x of Inl (n, _) \<Rightarrow> 2 * n + 1 | Inr (n, _) \<Rightarrow> 2 * n)") auto

subsection \<open>Trees\<close>

definition pt_entries :: "ptid \<Rightarrow> entloc list" where
  "pt_entries t = map (EDirect t) [0..<PAGETREE_DIRECT_PAGES] @ map (EIndirect t) [0..<PAGETREE_INDIRECTS]"

definition pagetree_init :: "ptid \<Rightarrow> pe_parent \<Rightarrow> unit kernel" where
  "pagetree_init t kobjptr =
     upd_pt t (\<lambda>_. \<lparr> pt_direct = replicate PAGETREE_DIRECT_PAGES \<lparr> pe_page = 0, pe_par = kobjptr \<rparr>,
                     pt_indirect = replicate PAGETREE_INDIRECTS \<lparr> pe_page = 0, pe_par = kobjptr \<rparr> \<rparr>)"

definition for_mapped :: "ptid \<Rightarrow> (ptr \<Rightarrow> unit kernel) \<Rightarrow> unit kernel" where
  "for_mapped t f = kfor (\<lambda>e. kbind (ent_page e) (\<lambda>p. kwhen (p \<noteq> 0) (f p))) (pt_entries t)"

definition pagetree_free_ent :: "entloc \<Rightarrow> unit kernel" where
  "pagetree_free_ent ent =
     kbind (ent_page ent) (\<lambda>p.
     kwhen (p \<noteq> 0) (kthen (pagetree_decref pagetree_depth p) (pagetree_set_entry ent 0)))"

definition pagetree_free :: "ptid \<Rightarrow> bool \<Rightarrow> unit kernel" where
  "pagetree_free t was_share_pinned =
     kthen (kwhen was_share_pinned
              (for_mapped t (\<lambda>p. upd_pi p (\<lambda>pi. pi\<lparr> pi_write_shared_ref := pi_write_shared_ref pi - 1 \<rparr>))))
    (kthen (kfor pagetree_free_ent (pt_entries t))
       (pagetree_init t ParNull))"

text \<open>
  \<open>share\<close> says whether the caller passes \<^verbatim>\<open>share_pinned\<close>; the result is what is stored there. The search
  stops at the first pinned page if sharing is allowed.
\<close>

definition pagetree_copy :: "ptid \<Rightarrow> ptid \<Rightarrow> pe_parent \<Rightarrow> bool \<Rightarrow> bool kernel" where
  "pagetree_copy src dst kobjptr share =
     kbind (kget (\<lambda>s. pt_of s src)) (\<lambda>spt.
     kthen (upd_pt dst (\<lambda>_. spt))
    (kthen (kfor (\<lambda>e. kbind (ent_page e) (\<lambda>p.
         kthen (kwhen (p \<noteq> 0) (kthen (pagetree_incref p) (pagetree_link_entry e)))
               (upd_ent e (\<lambda>x. x\<lparr> pe_par := kobjptr \<rparr>)))) (pt_entries dst))
    (kbind (kfind (\<lambda>e. kbind (ent_page e) (\<lambda>p. kbind (pi_of p) (\<lambda>pi.
         if p \<noteq> 0 \<and> pi_hw_write_pin pi \<noteq> 0
         then (if share then kret (Some ())
               else ktry (pagetree_cow pagetree_depth e) (\<lambda>r.
                  case r of Inl er \<Rightarrow> kthen (pagetree_free dst False) (kerr er) | Inr _ \<Rightarrow> kret None))
         else kret None))) (pt_entries dst)) (\<lambda>pinned.
     kthen (kwhen (pinned \<noteq> None)
              (for_mapped dst (\<lambda>p. upd_pi p (\<lambda>pi. pi\<lparr> pi_write_shared_ref := pi_write_shared_ref pi + 1 \<rparr>))))
       (kret (pinned \<noteq> None))))))"

definition indirect_ensure :: "entloc \<Rightarrow> unit kernel" where
  "indirect_ensure indir =
     kbind (ent_page indir) (\<lambda>pip.
     kwhen (pip = 0)
       (kbind page_alloc (\<lambda>p.
        kthen (page_zero p)
       (kthen (pagetree_incref p)
       (kthen (pagetree_set_entry indir p)
       (kthen (upd_pi p (\<lambda>pi. pi\<lparr> pi_indir := True \<rparr>))
          (kfor (\<lambda>i. upd_ent (EPage p i) (\<lambda>e. e\<lparr> pe_par := ParPage p \<rparr>)) [0..<PAGETREE_ENTRIES_PER_PAGE])))))))"

definition indirect_prepare :: "entloc \<Rightarrow> page_sharing_mode \<Rightarrow> unit kernel" where
  "indirect_prepare indir rw =
     kwhen (rw \<noteq> page_shared_ro)
       (kbind (pagetree_cow pagetree_depth indir) (\<lambda>_. indirect_ensure indir))"

fun pagetree_get_entp_indirect ::
  "entloc \<Rightarrow> u64 \<Rightarrow> page_sharing_mode \<Rightarrow> nat \<Rightarrow> ptr \<Rightarrow> (entloc \<times> ptr) option kernel" where
  "pagetree_get_entp_indirect indir npage rw 0 parent =
     kthen (indirect_prepare indir rw)
    (kbind (ent_page indir) (\<lambda>pip.
     if pip = 0 then kret None
     else kthen (set_pi_parent pip parent) (kret (Some (EPage pip (unat npage), pip)))))"
| "pagetree_get_entp_indirect indir npage rw (Suc level) parent =
     kthen (indirect_prepare indir rw)
    (kbind (ent_page indir) (\<lambda>pip.
     if pip = 0 then kret None
     else kthen (set_pi_parent pip parent)
       (let n_pages_per_pip_entry = of_nat PAGETREE_ENTRIES_PER_PAGE ^ Suc level;
            next_slot = ucast (npage div n_pages_per_pip_entry) :: u32;
            next_page = ucast (npage mod n_pages_per_pip_entry) :: u32
        in kthen (kassert (unat next_slot < PAGETREE_ENTRIES_PER_PAGE))
             (pagetree_get_entp_indirect (EPage pip (unat next_slot)) (ucast next_page) rw level pip))))"

definition pagetree_get_entp :: "ptid \<Rightarrow> u64 \<Rightarrow> page_sharing_mode \<Rightarrow> (entloc \<times> ptr) option kernel" where
  "pagetree_get_entp pt npage rw =
     (if npage < of_nat PAGETREE_DIRECT_PAGES then kret (Some (EDirect pt (unat npage), 0))
      else case pagetree_indirect_tree (npage - of_nat PAGETREE_DIRECT_PAGES) [0..<PAGETREE_INDIRECTS] 1 of
        Some (i, n) \<Rightarrow> pagetree_get_entp_indirect (EIndirect pt i) n rw i 0
      | None \<Rightarrow> kerr E_NO_SPACE)"

definition pagetree_get_page :: "ptid \<Rightarrow> u64 \<Rightarrow> page_sharing_mode \<Rightarrow> (ptr \<times> bool) kernel" where
  "pagetree_get_page pt npage rw =
     kbind (pagetree_get_entp pt npage rw) (\<lambda>r.
     case r of
       None \<Rightarrow> kret (0, False)
     | Some (ent, parent) \<Rightarrow> kbind (ent_page ent) (\<lambda>page.
         if rw = page_shared_ro \<or> page = 0 then kret (page, False)
         else kbind (pagetree_cow pagetree_depth ent) (\<lambda>copied.
              kbind (ent_page ent) (\<lambda>page.
              kthen (set_pi_parent page parent) (kret (page, copied))))))"

definition pagetree_put_page :: "ptid \<Rightarrow> u64 \<Rightarrow> ptr \<Rightarrow> unit kernel" where
  "pagetree_put_page pt npage page =
     kbind (pagetree_get_entp pt npage page_excl_dirty) (\<lambda>r.
     case r of
       None \<Rightarrow> kpanic
     | Some (ent, parent) \<Rightarrow> kbind (ent_page ent) (\<lambda>old.
         kthen (kwhen (old \<noteq> 0) (pagetree_decref pagetree_depth old))
        (kthen (kwhen (page \<noteq> 0) (kthen (pagetree_incref page) (set_pi_parent page parent)))
           (pagetree_set_entry ent page))))"

definition pagetree_maxpages :: u64 where
  "pagetree_maxpages =
     fst (foldl (\<lambda>(npages, indirs) _. let indirs = indirs * of_nat PAGETREE_ENTRIES_PER_PAGE
                                       in (npages + indirs, indirs))
            (of_nat PAGETREE_DIRECT_PAGES, 1) [0..<PAGETREE_INDIRECTS])"

definition kobject_get_page :: "ptr \<Rightarrow> u64 \<Rightarrow> page_sharing_mode \<Rightarrow> ptr kernel" where
  "kobject_get_page ko npage rw =
     kbind (hd_of ko) (\<lambda>h.
     if kobject_npages h \<le> npage then kerr E_INVAL
     else
     kthen (kwhen (rw = page_excl_dirty) (kobject_dirty ko))
    (kthen (kwhen (rw = page_excl_dirty_later)
              (kthen (kassert (ko_type h = kobj_segment))
                     (upd_hdr ko (\<lambda>h. h\<lparr> ko_flags := ko_flags h OR KOBJ_DIRTY_LATER \<rparr>))))
    (kbind (pagetree_get_page (PtActive ko) npage rw) (\<lambda>(p, copied).
       if p = 0 then kpanic
       else kbind (hd_of ko) (\<lambda>h.
         kthen (kwhen (copied \<and> ko_type h = kobj_segment \<and> has_flag (ko_flags h) KOBJ_SHARED_MAPPINGS)
                  (kthen (upd_hdr ko (\<lambda>h. h\<lparr> ko_flags := ko_flags h AND NOT KOBJ_SHARED_MAPPINGS \<rparr>))
                         (segment_invalidate ko 0)))
        (kthen (note_shared ko p) (kret p)))))))"

subsection \<open>The read-only mode\<close>

lemma get_entp_indirect_shared_ro:
  "pagetree_get_entp_indirect indir npage page_shared_ro level parent = get_entp_indirect_ro indir npage level parent"
  by (induction level arbitrary: indir npage parent) (simp_all add: indirect_prepare_def Let_def cong: if_cong)

lemma pagetree_get_entp_shared_ro: "pagetree_get_entp pt npage page_shared_ro = pagetree_get_entp_ro pt npage"
  by (simp add: pagetree_get_entp_def pagetree_get_entp_ro_def get_entp_indirect_shared_ro split: option.split prod.split)

lemma pagetree_get_page_shared_ro:
  "pagetree_get_page pt npage page_shared_ro = kbind (pagetree_get_page_ro pt npage) (\<lambda>p. kret (p, False))"
  unfolding pagetree_get_page_def pagetree_get_page_ro_def pagetree_get_entp_shared_ro kbind_assoc
  by (intro arg_cong2 [where f = kbind] refl ext) (simp split: option.split prod.split)

lemma kbind_get_const: "kbind (kget f) (\<lambda>_. m) = m"
  by (simp add: kbind_def fun_eq_iff)

lemma kobject_get_page_shared_ro: "kobject_get_page ko npage page_shared_ro = kobject_get_page_ro ko npage"
  unfolding kobject_get_page_def kobject_get_page_ro_def pagetree_get_page_shared_ro
  by (simp add: kbind_assoc hd_of_def kbind_get_const cong: if_cong)

end
