(* ===== verification/Pagelookup.thy ===== *)
theory Pagelookup
  imports Pagecow
begin

unbundle bit_operations_syntax

text \<open>
  What a walk of a page tree computes: a page number is a choice of one of the four indirect trees
  followed by base-128 digits, the walk in the source follows exactly these digits, never fails an
  assertion, and changes nothing but cached parent pointers.
\<close>

subsection \<open>The walk, as a function of the state\<close>

fun pt_walk :: "kstate \<Rightarrow> entloc \<Rightarrow> nat \<Rightarrow> nat \<Rightarrow> entloc option" where
  "pt_walk s indir n 0 =
     (let p = pe_page (ent_of s indir) in if p = 0 then None else Some (EPage p n))"
| "pt_walk s indir n (Suc l) =
     (let p = pe_page (ent_of s indir)
      in if p = 0 then None
         else pt_walk s (EPage p (n div PAGETREE_ENTRIES_PER_PAGE ^ Suc l)) (n mod PAGETREE_ENTRIES_PER_PAGE ^ Suc l) l)"

text \<open>Tree \<open>i\<close> starts at page number \<open>pt_base i\<close>.\<close>

definition pt_base :: "nat \<Rightarrow> nat" where
  "pt_base i = PAGETREE_DIRECT_PAGES + (\<Sum>j<i. PAGETREE_ENTRIES_PER_PAGE ^ Suc j)"

definition pt_entry :: "kstate \<Rightarrow> ptid \<Rightarrow> nat \<Rightarrow> entloc option" where
  "pt_entry s t n =
     (if n < PAGETREE_DIRECT_PAGES then Some (EDirect t n)
      else case find (\<lambda>i. n < pt_base (Suc i)) [0..<PAGETREE_INDIRECTS] of
        Some i \<Rightarrow> pt_walk s (EIndirect t i) (n - pt_base i) i
      | None \<Rightarrow> None)"

definition pt_lookup :: "kstate \<Rightarrow> ptid \<Rightarrow> nat \<Rightarrow> ptr" where
  "pt_lookup s t n = (case pt_entry s t n of None \<Rightarrow> 0 | Some e \<Rightarrow> pe_page (ent_of s e))"

subsection \<open>Only parent pointers change\<close>

definition parents_only :: "kstate \<Rightarrow> kstate \<Rightarrow> bool" where
  "parents_only s s' \<longleftrightarrow> (\<exists>f. s' = s\<lparr> ks_pi := (\<lambda>p. (ks_pi s p)\<lparr> pi_parent := f p \<rparr>) \<rparr>)"

lemma parents_only_refl [simp]: "parents_only s s"
  unfolding parents_only_def by (rule exI [of _ "\<lambda>p. pi_parent (ks_pi s p)"]) simp

lemma parents_only_trans: "parents_only s t \<Longrightarrow> parents_only t u \<Longrightarrow> parents_only s u"
  unfolding parents_only_def by auto

lemma parents_only_ent: "parents_only s s' \<Longrightarrow> ent_of s' l = ent_of s l"
  unfolding parents_only_def by (auto simp: ent_of_def pt_of_def split: entloc.split ptid.split)

lemma parents_only_walk: "parents_only s s' \<Longrightarrow> pt_walk s' e n l = pt_walk s e n l"
  by (induction l arbitrary: e n) (simp_all add: parents_only_ent Let_def)

lemma set_pi_parent_run:
  "set_pi_parent p q s = (Ret (), s\<lparr> ks_pi := (ks_pi s)(p := (ks_pi s p)\<lparr> pi_parent := q \<rparr>) \<rparr>)"
  by (simp add: set_pi_parent_def upd_pi_def)

lemma set_pi_parent_only:
  "parents_only s (s\<lparr> ks_pi := (ks_pi s)(p := (ks_pi s p)\<lparr> pi_parent := q \<rparr>) \<rparr>)"
  unfolding parents_only_def
  by (rule exI [of _ "(\<lambda>p. pi_parent (ks_pi s p))(p := q)"]) (auto intro!: arg_cong [where f = "\<lambda>x. s\<lparr> ks_pi := x \<rparr>"])

subsection \<open>Digits\<close>

lemma per_page: "PAGETREE_ENTRIES_PER_PAGE = 2 ^ 7"
  by (simp add: PAGETREE_ENTRIES_PER_PAGE_def)

lemma unat_pow128:
  assumes "k \<le> 4"
  shows "unat (of_nat PAGETREE_ENTRIES_PER_PAGE ^ k :: u64) = PAGETREE_ENTRIES_PER_PAGE ^ k"
proof -
  have "k = 0 \<or> k = 1 \<or> k = 2 \<or> k = 3 \<or> k = 4" using assms by auto
  then show ?thesis by (elim disjE) (simp_all add: PAGETREE_ENTRIES_PER_PAGE_def)
qed

lemma digit_bounds:
  assumes "n < PAGETREE_ENTRIES_PER_PAGE ^ Suc (Suc l)" "Suc l \<le> 3"
  shows "n div PAGETREE_ENTRIES_PER_PAGE ^ Suc l < PAGETREE_ENTRIES_PER_PAGE"
    "n div PAGETREE_ENTRIES_PER_PAGE ^ Suc l < 2 ^ 32" "n mod PAGETREE_ENTRIES_PER_PAGE ^ Suc l < 2 ^ 32"
proof -
  show 1: "n div PAGETREE_ENTRIES_PER_PAGE ^ Suc l < PAGETREE_ENTRIES_PER_PAGE"
    using assms(1) by (simp add: less_mult_imp_div_less mult.commute)
  then show "n div PAGETREE_ENTRIES_PER_PAGE ^ Suc l < 2 ^ 32"
    by (rule order_less_trans) (simp add: per_page)
  have "n mod PAGETREE_ENTRIES_PER_PAGE ^ Suc l < PAGETREE_ENTRIES_PER_PAGE ^ Suc l" by (simp add: per_page)
  also have "\<dots> \<le> 2 ^ 21"
    using assms(2) power_increasing [of "Suc l" 3 "PAGETREE_ENTRIES_PER_PAGE"] by (simp add: per_page)
  also have "\<dots> < 2 ^ 32" by simp
  finally show "n mod PAGETREE_ENTRIES_PER_PAGE ^ Suc l < 2 ^ 32" .
qed

lemma unat_ucast_small: "unat x < 2 ^ 32 \<Longrightarrow> unat (ucast (x :: u64) :: u32) = unat x"
  by (simp add: unsigned_ucast_eq take_bit_nat_eq_self_iff)

lemma unat_ucast_wide: "unat (ucast (x :: u32) :: u64) = unat x"
proof -
  have "unat x < 2 ^ 64" using unat_less_exp [of x] by (rule order_less_le_trans) simp
  then show ?thesis by (simp add: unsigned_ucast_eq take_bit_nat_eq_self_iff)
qed

lemma get_entp_indirect_ro_walk:
  assumes "unat npage < PAGETREE_ENTRIES_PER_PAGE ^ Suc level" "level \<le> 3"
  shows "\<exists>r s'. get_entp_indirect_ro indir npage level parent s = (Ret r, s') \<and>
    map_option fst r = pt_walk s indir (unat npage) level \<and> parents_only s s'"
  using assms
proof (induction level arbitrary: indir npage parent s)
  case 0
  show ?case
    by (simp add: ent_page_def kbind_get kret_def kthen_case set_pi_parent_run set_pi_parent_only Let_def)
next
  case (Suc l)
  let ?p = "pe_page (ent_of s indir)" and ?m = "of_nat PAGETREE_ENTRIES_PER_PAGE ^ Suc l :: u64"
  let ?s1 = "s\<lparr> ks_pi := (ks_pi s)(?p := (ks_pi s ?p)\<lparr> pi_parent := parent \<rparr>) \<rparr>"
  have m: "unat ?m = PAGETREE_ENTRIES_PER_PAGE ^ Suc l" using Suc.prems(2) by (intro unat_pow128) simp
  note b = digit_bounds [OF Suc.prems(1)]
  have slot: "unat (ucast (npage div ?m) :: u32) = unat npage div PAGETREE_ENTRIES_PER_PAGE ^ Suc l"
    and pg: "unat (ucast (ucast (npage mod ?m) :: u32) :: u64) = unat npage mod PAGETREE_ENTRIES_PER_PAGE ^ Suc l"
    using b Suc.prems(2) m by (simp_all add: unat_ucast_small unat_div unat_mod unat_ucast_wide)
  show ?case
  proof (cases "?p = 0")
    case True
    then show ?thesis by (simp add: ent_page_def kbind_get kret_def)
  next
    case False
    have "unat (ucast (ucast (npage mod ?m) :: u32) :: u64) < PAGETREE_ENTRIES_PER_PAGE ^ Suc l"
      unfolding pg by (simp add: per_page)
    then obtain r s' where r: "get_entp_indirect_ro (EPage ?p (unat (ucast (npage div ?m) :: u32)))
        (ucast (ucast (npage mod ?m) :: u32)) l ?p ?s1 = (Ret r, s')"
      "map_option fst r = pt_walk ?s1 (EPage ?p (unat npage div PAGETREE_ENTRIES_PER_PAGE ^ Suc l))
         (unat npage mod PAGETREE_ENTRIES_PER_PAGE ^ Suc l) l" "parents_only ?s1 s'"
      using Suc.IH [of "ucast (ucast (npage mod ?m) :: u32)" "EPage ?p (unat (ucast (npage div ?m) :: u32))" ?p ?s1]
        Suc.prems(2) slot pg by auto
    have "get_entp_indirect_ro indir npage (Suc l) parent s = (Ret r, s')"
      using False r(1) slot b(1) Suc.prems(2)
      by (simp add: ent_page_def kbind_get kthen_case set_pi_parent_run Let_def)
    then show ?thesis
      using False r parents_only_trans [OF set_pi_parent_only r(3)]
        parents_only_walk [OF set_pi_parent_only, of s ?p parent]
      by (simp add: Let_def del: power_Suc)
  qed
qed

subsection \<open>Choosing the tree\<close>

lemma pt_base_vals:
  "pt_base 0 = 4" "pt_base (Suc 0) = 132" "pt_base (Suc (Suc 0)) = 16516" "pt_base (Suc (Suc (Suc 0))) = 2113668"
  "pt_base (Suc (Suc (Suc (Suc 0)))) = 270549124"
  by (simp_all add: pt_base_def PAGETREE_DIRECT_PAGES_def PAGETREE_ENTRIES_PER_PAGE_def)

lemma upt_indirects: "[0..<PAGETREE_INDIRECTS] = [0, Suc 0, Suc (Suc 0), Suc (Suc (Suc 0))]"
  by (simp add: PAGETREE_INDIRECTS_def upt_rec)

lemma pagetree_maxpages_val: "pagetree_maxpages = 270549124"
  by (simp add: pagetree_maxpages_def upt_indirects PAGETREE_DIRECT_PAGES_def PAGETREE_ENTRIES_PER_PAGE_def)

lemma word_diff_less:
  fixes w a b :: u64
  assumes "\<not> w < a" "unat a + unat b < 2 ^ 64"
  shows "w - a < b \<longleftrightarrow> w < a + b"
proof -
  have "unat (w - a) = unat w - unat a" "unat a \<le> unat w"
    using assms(1) by (simp_all add: unat_sub word_le_nat_alt not_less)
  moreover have "unat (a + b) = unat a + unat b" using assms(2) by (simp add: unat_add_carry)
  ultimately show ?thesis by (auto simp: word_less_nat_alt)
qed

lemma pagetree_indirect_tree_cases:
  "pagetree_indirect_tree w [0..<PAGETREE_INDIRECTS] 1 =
     (if w < 128 then Some (0, w) else if w < 16512 then Some (Suc 0, w - 128)
      else if w < 2113664 then Some (Suc (Suc 0), w - 16512)
      else if w < 270549120 then Some (Suc (Suc (Suc 0)), w - 2113664) else None)"
  using word_diff_less [of w 128 16384] word_diff_less [of w 16512 2097152] word_diff_less [of w 2113664 268435456]
  by (simp add: upt_indirects PAGETREE_ENTRIES_PER_PAGE_def Let_def diff_diff_eq)

lemma pt_entry_cases:
  "pt_entry s t n =
     (if n < 4 then Some (EDirect t n) else if n < 132 then pt_walk s (EIndirect t 0) (n - 4) 0
      else if n < 16516 then pt_walk s (EIndirect t (Suc 0)) (n - 132) (Suc 0)
      else if n < 2113668 then pt_walk s (EIndirect t (Suc (Suc 0))) (n - 16516) (Suc (Suc 0))
      else if n < 270549124 then pt_walk s (EIndirect t (Suc (Suc (Suc 0)))) (n - 2113668) (Suc (Suc (Suc 0)))
      else None)"
  by (simp add: pt_entry_def upt_indirects pt_base_vals PAGETREE_DIRECT_PAGES_def)

text \<open>The tree and the number within it that the source picks are those of \<open>pt_entry\<close>.\<close>

lemma pagetree_get_entp_ro_entry:
  assumes "npage < pagetree_maxpages"
  shows "\<exists>r s'. pagetree_get_entp_ro pt npage s = (Ret r, s') \<and>
    map_option fst r = pt_entry s pt (unat npage) \<and> parents_only s s'"
proof (cases "npage < 4")
  case True
  then show ?thesis
    by (simp add: pagetree_get_entp_ro_def PAGETREE_DIRECT_PAGES_def pt_entry_cases kret_def word_less_nat_alt)
next
  case False
  let ?w = "npage - 4"
  have w: "unat ?w = unat npage - 4" "4 \<le> unat npage"
    using False by (simp_all add: unat_sub word_le_nat_alt not_less)
  have mx: "unat npage < 270549124" using assms by (simp add: pagetree_maxpages_val word_less_nat_alt)
  have "\<exists>i n. pagetree_indirect_tree ?w [0..<PAGETREE_INDIRECTS] 1 = Some (i, n) \<and>
      unat n < PAGETREE_ENTRIES_PER_PAGE ^ Suc i \<and> i \<le> 3 \<and>
      pt_entry s pt (unat npage) = pt_walk s (EIndirect pt i) (unat n) i"
    using w mx unfolding pagetree_indirect_tree_cases pt_entry_cases
    by (auto simp: word_less_nat_alt unat_sub word_le_nat_alt not_less PAGETREE_ENTRIES_PER_PAGE_def)
  then obtain i n where i: "pagetree_indirect_tree ?w [0..<PAGETREE_INDIRECTS] 1 = Some (i, n)"
    "unat n < PAGETREE_ENTRIES_PER_PAGE ^ Suc i" "i \<le> 3"
    "pt_entry s pt (unat npage) = pt_walk s (EIndirect pt i) (unat n) i" by blast
  then show ?thesis
    using False get_entp_indirect_ro_walk [OF i(2,3), of "EIndirect pt i" 0 s]
    by (simp add: pagetree_get_entp_ro_def PAGETREE_DIRECT_PAGES_def del: upt.simps)
qed

lemma pagetree_get_page_ro_lookup:
  assumes "npage < pagetree_maxpages"
  shows "\<exists>s'. pagetree_get_page_ro pt npage s = (Ret (pt_lookup s pt (unat npage)), s') \<and> parents_only s s'"
proof -
  obtain r s' where r: "pagetree_get_entp_ro pt npage s = (Ret r, s')"
    "map_option fst r = pt_entry s pt (unat npage)" "parents_only s s'"
    using pagetree_get_entp_ro_entry [OF assms] by blast
  then show ?thesis
    by (auto simp: pagetree_get_page_ro_def kbind_def pt_lookup_def kret_def ent_page_def
        parents_only_ent simp flip: r(2) split: option.split)
qed

text \<open>
  C20: the read-only lookup of page \<open>npage\<close> follows the base-128 digits of the number through the
  direct entries and the four indirect trees and returns the page it finds there (0 if an indirect page is
  missing); no assertion fails, nothing but cached parent pointers changes, and exactly the numbers
  from \<open>pagetree_maxpages\<close> on are refused.
\<close>

theorem pagetree_get_page_lookup:
  "\<exists>s'. parents_only s s' \<and> pagetree_get_page pt npage page_shared_ro s =
     ((if npage < pagetree_maxpages then Ret (pt_lookup s pt (unat npage), False) else Err E_NO_SPACE), s')"
proof (cases "npage < pagetree_maxpages")
  case True
  then show ?thesis
    using pagetree_get_page_ro_lookup [OF True, of pt s]
    by (auto simp: pagetree_get_page_shared_ro kbind_def kret_def)
next
  case False
  then have "unat npage \<ge> 270549124" by (simp add: pagetree_maxpages_val word_le_nat_alt not_less)
  then have "\<not> npage < 4" "\<not> npage - 4 < 128" "\<not> npage - 4 < 16512" "\<not> npage - 4 < 2113664"
    "\<not> npage - 4 < 270549120"
    by (simp_all add: word_less_nat_alt unat_sub word_le_nat_alt)
  then have "pagetree_get_entp_ro pt npage = kerr E_NO_SPACE"
    by (simp add: pagetree_get_entp_ro_def PAGETREE_DIRECT_PAGES_def pagetree_indirect_tree_cases)
  then have "pagetree_get_page pt npage page_shared_ro s = (Err E_NO_SPACE, s)"
    by (simp add: pagetree_get_page_shared_ro pagetree_get_page_ro_def kerr_def kbind_def)
  then show ?thesis using False parents_only_refl by auto
qed

end
