(* ===== verification/Label.thy ===== *)
theory Label
  imports Pagelookup
begin

unbundle bit_operations_syntax

text \<open>
  Labels, \<^verbatim>\<open>src/kern/kern/label.c\<close>: levels and the two orders on them, the slots of a label (32 in
  the object, 512 per page after that), looking up the level of a category, and comparing two labels.
  That the comparison decides the pointwise order of the two labels as functions from
  categories to levels is shown in the theories that follow.

  Loop counters of the source are 32 bits wide and a label has fewer than \<open>2 ^ 32\<close> slots.
\<close>

subsection \<open>Levels\<close>

definition LB_LEVEL_STAR :: u8 where "LB_LEVEL_STAR = 4"
definition LB_LEVEL_UNDEF :: u8 where "LB_LEVEL_UNDEF = 5"

definition LB_HANDLE :: "u64 \<Rightarrow> u64" where
  "LB_HANDLE ent = ent AND 0x1fffffffffffffff"

definition LB_LEVEL :: "u64 \<Rightarrow> u8" where
  "LB_LEVEL ent = ucast (drop_bit 61 ent)"

definition LB_CODE :: "u64 \<Rightarrow> u8 \<Rightarrow> u64" where
  "LB_CODE h level = h OR push_bit 61 (ucast level)"

definition label_leq_starlo_fn :: "u8 \<Rightarrow> u8 \<Rightarrow> bool" where
  "label_leq_starlo_fn a b =
     (if a = LB_LEVEL_STAR then True else if b = LB_LEVEL_STAR then False else a \<le> b)"

definition label_leq_starhi_fn :: "u8 \<Rightarrow> u8 \<Rightarrow> bool" where
  "label_leq_starhi_fn a b =
     (if b = LB_LEVEL_STAR then True else if a = LB_LEVEL_STAR then False else a \<le> b)"

fun comparator_gen :: "level_comparator \<Rightarrow> u8 \<Rightarrow> u8 \<Rightarrow> bool" where
  "comparator_gen label_leq_starlo = label_leq_starlo_fn"
| "comparator_gen label_leq_starhi = label_leq_starhi_fn"

text \<open>
  The tables that \<^verbatim>\<open>level_comparator_init\<close> fills once: \<open>True\<close> for a result of 0, and the larger of the
  two levels. Their indices run up to \<open>LB_LEVEL_STAR\<close>; reading beyond them has no defined result.
\<close>

definition level_comparator_init :: "level_comparator \<Rightarrow> bool list list \<times> u8 list list" where
  "level_comparator_init c =
     (let levels = map of_nat [0..<Suc (unat LB_LEVEL_STAR)]
      in (map (\<lambda>a. map (\<lambda>b. comparator_gen c a b) levels) levels,
          map (\<lambda>a. map (\<lambda>b. if comparator_gen c a b then b else a) levels) levels))"

definition table_read :: "'a list list \<Rightarrow> u8 \<Rightarrow> u8 \<Rightarrow> ('s, 'a) km" where
  "table_read tab a b =
     (if unat a < length tab \<and> unat b < length (tab ! unat a) then kret (tab ! unat a ! unat b) else kpanic)"

definition level_cmp :: "level_comparator \<Rightarrow> u8 \<Rightarrow> u8 \<Rightarrow> unit kernel" where
  "level_cmp cmp a b =
     kbind (table_read (fst (level_comparator_init cmp)) a b) (\<lambda>ok. if ok then kret () else kerr E_LABEL)"

subsection \<open>Slots\<close>

text \<open>Where a slot is: in the object itself, or in a page.\<close>

datatype lbslot = LbInline ptr nat | LbPage ptr nat

definition label_nslots :: "ptr \<Rightarrow> u32 kernel" where
  "label_nslots l =
     kbind (hd_of l) (\<lambda>h. kret (of_nat NUM_LB_ENT_INLINE + ucast (kobject_npages h * of_nat NUM_LB_ENT_PER_PAGE)))"

definition slot_value :: "kstate \<Rightarrow> lbslot \<Rightarrow> u64" where
  "slot_value s sl = (case sl of LbInline l i \<Rightarrow> lb_ent (lb (ks_obj s l)) ! i | LbPage p i \<Rightarrow> pg_words (ks_page s p) ! i)"

definition slot_store :: "lbslot \<Rightarrow> u64 \<Rightarrow> unit kernel" where
  "slot_store sl v = (case sl of
       LbInline l i \<Rightarrow> upd_lb l (\<lambda>x. x\<lparr> lb_ent := (lb_ent x)[i := v] \<rparr>)
     | LbPage p i \<Rightarrow> upd_page p (\<lambda>pg. pg\<lparr> pg_words := (pg_words pg)[i := v] \<rparr>))"

definition label_get_slotp_read :: "ptr \<Rightarrow> u32 \<Rightarrow> lbslot kernel" where
  "label_get_slotp_read l slotnum =
     (if slotnum < of_nat NUM_LB_ENT_INLINE then kret (LbInline l (unat slotnum))
      else let n = slotnum - of_nat NUM_LB_ENT_INLINE
           in kbind (kobject_get_page_ro l (ucast (n div of_nat NUM_LB_ENT_PER_PAGE))) (\<lambda>lpg.
              kret (LbPage lpg (unat (n mod of_nat NUM_LB_ENT_PER_PAGE)))))"

definition label_get_slotp_write :: "ptr \<Rightarrow> u32 \<Rightarrow> lbslot kernel" where
  "label_get_slotp_write l slotnum =
     kthen (upd_lb l (\<lambda>x. if lb_nent x \<le> ucast slotnum then x\<lparr> lb_nent := ucast (slotnum + 1) \<rparr> else x))
     (if slotnum < of_nat NUM_LB_ENT_INLINE then kret (LbInline l (unat slotnum))
      else let n = slotnum - of_nat NUM_LB_ENT_INLINE
           in kbind (kobject_get_page l (ucast (n div of_nat NUM_LB_ENT_PER_PAGE)) page_excl_dirty) (\<lambda>lpg.
              kret (LbPage lpg (unat (n mod of_nat NUM_LB_ENT_PER_PAGE)))))"

definition label_read :: "ptr \<Rightarrow> nat \<Rightarrow> u64 kernel" where
  "label_read l i = kbind (label_get_slotp_read l (of_nat i)) (\<lambda>sl. kget (\<lambda>s. slot_value s sl))"

definition label_nents :: "ptr \<Rightarrow> nat list kernel" where
  "label_nents l = kget (\<lambda>s. [0..<unat (lb_nent (lb (ks_obj s l)))])"

definition label_get_level :: "ptr \<Rightarrow> u64 \<Rightarrow> u8 kernel" where
  "label_get_level l handle =
     kbind (label_nents l) (\<lambda>is.
     kbind (kfind (\<lambda>i. kbind (kmust (label_read l i)) (\<lambda>ent.
              kret (if ent \<noteq> 0 \<and> LB_HANDLE ent = handle then Some (LB_LEVEL ent) else None))) is) (\<lambda>r.
     case r of Some lv \<Rightarrow> kret lv | None \<Rightarrow> kget (\<lambda>s. lb_def_level (lb (ks_obj s l)))))"

subsection \<open>Comparison\<close>

definition compare_cached :: "u64 \<Rightarrow> u64 \<Rightarrow> level_comparator \<Rightarrow> bool kernel" where
  "compare_cached lhs rhs cmp =
     kget (\<lambda>s. \<exists>e\<in>set (compare_cache s). cc_lhs e = lhs \<and> cc_rhs e = rhs \<and> cc_cmp e = Some cmp)"

text \<open>
  The next slot is a signed counter modulo 16; a negative remainder is outside the array, and storing
  there has no defined result.
\<close>

definition compare_cache_put :: "u64 \<Rightarrow> u64 \<Rightarrow> level_comparator \<Rightarrow> unit kernel" where
  "compare_cache_put lhs rhs cmp =
     kbind (kget compare_cache_next) (\<lambda>n.
     let cache_slot = (if 0 \<le> sint n then sint n mod int compare_cache_size
                       else - ((- sint n) mod int compare_cache_size))
     in kthen (kmod (\<lambda>s. s\<lparr> compare_cache_next := n + 1 \<rparr>))
       (if cache_slot < 0 then kpanic
        else kmod (\<lambda>s. s\<lparr> compare_cache := (compare_cache s)[nat cache_slot :=
               \<lparr> cc_lhs = lhs, cc_rhs = rhs, cc_cmp = Some cmp \<rparr>] \<rparr>)))"

definition label_compare :: "ptr \<Rightarrow> ptr \<Rightarrow> level_comparator \<Rightarrow> bool \<Rightarrow> unit kernel" where
  "label_compare l1 l2 cmp cacheable =
     kthen (kassert (l1 \<noteq> 0))
    (kthen (kassert (l2 \<noteq> 0))
    (kbind (hd_of l1) (\<lambda>h1.
     kbind (hd_of l2) (\<lambda>h2.
     kbind (if cacheable then compare_cached (ko_id h1) (ko_id h2) cmp else kret False) (\<lambda>hit.
     if hit then kret ()
     else
     kthen (kbind (label_nents l1) (\<lambda>is.
       kfor (\<lambda>i. kbind (label_read l1 i) (\<lambda>ent.
         kwhen (ent \<noteq> 0)
           (kbind (label_get_level l2 (LB_HANDLE ent)) (\<lambda>lv2. level_cmp cmp (LB_LEVEL ent) lv2)))) is))
    (kthen (kbind (label_nents l2) (\<lambda>is.
       kfor (\<lambda>i. kbind (label_read l2 i) (\<lambda>ent.
         kwhen (ent \<noteq> 0)
           (kbind (label_get_level l1 (LB_HANDLE ent)) (\<lambda>lv1. level_cmp cmp lv1 (LB_LEVEL ent))))) is))
    (kthen (kbind (kget (\<lambda>s. (lb_def_level (lb (ks_obj s l1)), lb_def_level (lb (ks_obj s l2))))) (\<lambda>(d1, d2).
              level_cmp cmp d1 d2))
       (kwhen cacheable (compare_cache_put (ko_id h1) (ko_id h2) cmp)))))))))"

end
