(* ===== verification/Labelcmp.thy ===== *)
theory Labelcmp
  imports Label
begin

unbundle bit_operations_syntax

text \<open>
  What the label comparison decides. A label in memory denotes a function from categories to levels,
  \<open>label_fun\<close>; \<open>label_compare\<close> returns 0 exactly if the function of the first label is below
  that of the second at every category, in the order of its comparator.

  Reading a label may touch cached parent pointers and the shared-mappings flag of objects. \<open>reads\<close> relates
  a state to one that differs in nothing else, and \<open>returns\<close> says that an operation
  has a result and changes no more than that.
\<close>

subsection \<open>Operations that only read\<close>

definition shared_bit :: "u32 \<Rightarrow> u32 \<Rightarrow> bool" where
  "shared_bit f g \<longleftrightarrow> g = f \<or> g = f OR KOBJ_SHARED_MAPPINGS"

definition reads :: "kstate \<Rightarrow> kstate \<Rightarrow> bool" where
  "reads s s' \<longleftrightarrow> (\<exists>f g. (\<forall>p. shared_bit (ko_flags (hdr (ks_obj s p))) (g p)) \<and>
     s' = s\<lparr> ks_pi := (\<lambda>p. (ks_pi s p)\<lparr> pi_parent := f p \<rparr>),
             ks_obj := (\<lambda>p. (ks_obj s p)\<lparr> hdr := (hdr (ks_obj s p))\<lparr> ko_flags := g p \<rparr> \<rparr>) \<rparr>)"

definition returns :: "'a kernel \<Rightarrow> kstate \<Rightarrow> 'a outcome \<Rightarrow> bool" where
  "returns m s r \<longleftrightarrow> (\<exists>s'. m s = (r, s') \<and> reads s s')"

lemma shared_bit_trans: "shared_bit f g \<Longrightarrow> shared_bit g h \<Longrightarrow> shared_bit f h"
  by (auto simp: shared_bit_def or.assoc)

lemma reads_refl [simp]: "reads s s"
  unfolding reads_def
  by (intro exI [of _ "\<lambda>p. pi_parent (ks_pi s p)"] exI [of _ "\<lambda>p. ko_flags (hdr (ks_obj s p))"])
    (simp add: shared_bit_def)

lemma reads_trans:
  assumes "reads s t" "reads t u"
  shows "reads s u"
proof -
  obtain f g where st: "\<forall>p. shared_bit (ko_flags (hdr (ks_obj s p))) (g p)"
    "t = s\<lparr> ks_pi := (\<lambda>p. (ks_pi s p)\<lparr> pi_parent := f p \<rparr>),
            ks_obj := (\<lambda>p. (ks_obj s p)\<lparr> hdr := (hdr (ks_obj s p))\<lparr> ko_flags := g p \<rparr> \<rparr>) \<rparr>"
    using assms(1) unfolding reads_def by blast
  obtain f' g' where tu: "\<forall>p. shared_bit (ko_flags (hdr (ks_obj t p))) (g' p)"
    "u = t\<lparr> ks_pi := (\<lambda>p. (ks_pi t p)\<lparr> pi_parent := f' p \<rparr>),
            ks_obj := (\<lambda>p. (ks_obj t p)\<lparr> hdr := (hdr (ks_obj t p))\<lparr> ko_flags := g' p \<rparr> \<rparr>) \<rparr>"
    using assms(2) unfolding reads_def by blast
  have "\<forall>p. shared_bit (ko_flags (hdr (ks_obj s p))) (g' p)"
    using st tu(1) by (auto intro: shared_bit_trans)
  then show ?thesis unfolding reads_def
    by (intro exI [of _ f'] exI [of _ g']) (simp add: st(2) tu(2))
qed

lemma parents_only_reads:
  assumes "parents_only s s'"
  shows "reads s s'"
proof -
  obtain f where "s' = s\<lparr> ks_pi := (\<lambda>p. (ks_pi s p)\<lparr> pi_parent := f p \<rparr>) \<rparr>"
    using assms unfolding parents_only_def by blast
  then show ?thesis unfolding reads_def
    by (intro exI [of _ f] exI [of _ "\<lambda>p. ko_flags (hdr (ks_obj s p))"]) (simp add: shared_bit_def)
qed

lemma note_shared_returns: "returns (note_shared ko p) s (Ret ())"
proof -
  have "reads s (s\<lparr> ks_obj := (ks_obj s)(ko := (ks_obj s ko)\<lparr> hdr := (hdr (ks_obj s ko))\<lparr>
      ko_flags := ko_flags (hdr (ks_obj s ko)) OR KOBJ_SHARED_MAPPINGS \<rparr> \<rparr>) \<rparr>)"
    unfolding reads_def
    by (intro exI [of _ "\<lambda>p. pi_parent (ks_pi s p)"]
        exI [of _ "(\<lambda>p. ko_flags (hdr (ks_obj s p)))(ko := ko_flags (hdr (ks_obj s ko)) OR KOBJ_SHARED_MAPPINGS)"])
      (auto simp: shared_bit_def intro!: arg_cong [where f = "\<lambda>x. s\<lparr> ks_obj := x \<rparr>"])
  then show ?thesis by (simp add: returns_def note_shared_def pi_of_def krun)
qed

lemma returns_kret: "returns (kret a) s (Ret a)"
  by (simp add: returns_def kret_def)

lemma returns_kerr: "returns (kerr e) s (Err e)"
  by (simp add: returns_def kerr_def)

lemma returns_kget: "returns (kget f) s (Ret (f s))"
  by (simp add: returns_def)

lemma returns_kbind:
  assumes "returns m s (Ret a)" "\<And>s'. reads s s' \<Longrightarrow> returns (f a) s' r"
  shows "returns (kbind m f) s r"
proof -
  obtain s' where "m s = (Ret a, s')" "reads s s'" using assms(1) by (auto simp: returns_def)
  then show ?thesis using assms(2) [of s'] by (auto simp: returns_def kbind_def intro: reads_trans)
qed

lemma returns_kthen:
  "returns m s (Ret a) \<Longrightarrow> (\<And>s'. reads s s' \<Longrightarrow> returns k s' r) \<Longrightarrow> returns (kthen m k) s r"
  by (simp add: kthen_def returns_kbind)

lemma returns_kbind_Err: "returns m s (Err e) \<Longrightarrow> returns (kbind m f) s (Err e)"
  by (auto simp: returns_def kbind_def)

lemma returns_kmust: "returns m s (Ret a) \<Longrightarrow> returns (kmust m) s (Ret a)"
  by (auto simp: returns_def kmust_def ktry_def kret_def)

lemma returns_kfor:
  assumes "\<And>x s'. x \<in> set xs \<Longrightarrow> reads s s' \<Longrightarrow> returns (f x) s' (if P x then Ret () else Err e)"
  shows "returns (kfor f xs) s (if \<forall>x\<in>set xs. P x then Ret () else Err e)"
  using assms
proof (induction xs arbitrary: s)
  case Nil
  then show ?case by (simp add: returns_kret)
next
  case (Cons x xs)
  have x: "returns (f x) s (if P x then Ret () else Err e)" using Cons.prems [of x s] by simp
  show ?case
  proof (cases "P x")
    case True
    have "returns (kfor f xs) s' (if \<forall>x\<in>set xs. P x then Ret () else Err e)" if "reads s s'" for s'
      by (rule Cons.IH) (use Cons.prems reads_trans [OF that] in simp)
    then show ?thesis using x True returns_kthen [of "f x" s "()" "kfor f xs"] by simp
  next
    case False
    then show ?thesis using x by (simp add: kthen_def returns_kbind_Err)
  qed
qed

lemma returns_kfind:
  assumes "\<And>x s'. x \<in> set xs \<Longrightarrow> reads s s' \<Longrightarrow> returns (f x) s' (Ret (g x))"
  shows "returns (kfind f xs) s (Ret (case find (\<lambda>x. g x \<noteq> None) xs of None \<Rightarrow> None | Some x \<Rightarrow> g x))"
  using assms
proof (induction xs arbitrary: s)
  case Nil
  then show ?case by (simp add: returns_kret)
next
  case (Cons x xs)
  have x: "returns (f x) s (Ret (g x))" using Cons.prems [of x s] by simp
  have "returns (kfind f xs) s' (Ret (case find (\<lambda>x. g x \<noteq> None) xs of None \<Rightarrow> None | Some x \<Rightarrow> g x))"
    if "reads s s'" for s'
    by (rule Cons.IH) (use Cons.prems reads_trans [OF that] in simp)
  then show ?case using x
    by (auto intro!: returns_kbind returns_kret split: option.split)
qed

subsection \<open>What a label denotes\<close>

definition slot_word :: "kstate \<Rightarrow> ptr \<Rightarrow> nat \<Rightarrow> u64" where
  "slot_word s l i =
     (if i < NUM_LB_ENT_INLINE then lb_ent (lb (ks_obj s l)) ! i
      else pg_words (ks_page s (pt_lookup s (PtActive l) ((i - NUM_LB_ENT_INLINE) div NUM_LB_ENT_PER_PAGE)))
             ! ((i - NUM_LB_ENT_INLINE) mod NUM_LB_ENT_PER_PAGE))"

definition label_n :: "kstate \<Rightarrow> ptr \<Rightarrow> nat" where
  "label_n s l = unat (lb_nent (lb (ks_obj s l)))"

text \<open>The words in use, and the level of a category: the first entry for it, or the default.\<close>

definition label_words :: "kstate \<Rightarrow> ptr \<Rightarrow> u64 list" where
  "label_words s l = map (slot_word s l) [0..<label_n s l]"

definition words_fun :: "u64 list \<Rightarrow> u8 \<Rightarrow> u64 \<Rightarrow> u8" where
  "words_fun ws d h = (case find (\<lambda>w. w \<noteq> 0 \<and> LB_HANDLE w = h) ws of None \<Rightarrow> d | Some w \<Rightarrow> LB_LEVEL w)"

definition label_fun :: "kstate \<Rightarrow> ptr \<Rightarrow> u64 \<Rightarrow> u8" where
  "label_fun s l = words_fun (label_words s l) (lb_def_level (lb (ks_obj s l)))"

text \<open>
  Slots are backed by memory, levels are in the range of the comparison tables, and no category has two entries.
\<close>

definition slot_backed :: "kstate \<Rightarrow> ptr \<Rightarrow> nat \<Rightarrow> bool" where
  "slot_backed s l i \<longleftrightarrow> NUM_LB_ENT_INLINE \<le> i \<longrightarrow>
     (let n = (i - NUM_LB_ENT_INLINE) div NUM_LB_ENT_PER_PAGE
      in n < unat (kobject_npages (hdr (ks_obj s l))) \<and> n < unat pagetree_maxpages \<and> pt_lookup s (PtActive l) n \<noteq> 0)"

definition words_ok :: "u64 list \<Rightarrow> bool" where
  "words_ok ws \<longleftrightarrow> (\<forall>w\<in>set ws. w \<noteq> 0 \<longrightarrow> LB_LEVEL w \<le> LB_LEVEL_STAR) \<and>
     distinct (map LB_HANDLE (filter (\<lambda>w. w \<noteq> 0) ws))"

definition label_wf :: "kstate \<Rightarrow> ptr \<Rightarrow> bool" where
  "label_wf s l \<longleftrightarrow> l \<noteq> 0 \<and> label_n s l < 2 ^ 32 \<and> (\<forall>i<label_n s l. slot_backed s l i) \<and>
     lb_def_level (lb (ks_obj s l)) \<le> LB_LEVEL_STAR \<and> words_ok (label_words s l)"

lemma reads_frame:
  assumes "reads s s'"
  shows "lb (ks_obj s' p) = lb (ks_obj s p)" "ks_page s' = ks_page s" "pt_of s' t = pt_of s t"
    "kobject_npages (hdr (ks_obj s' p)) = kobject_npages (hdr (ks_obj s p))"
    "compare_cache s' = compare_cache s" "compare_cache_next s' = compare_cache_next s"
    "ko_id (hdr (ks_obj s' p)) = ko_id (hdr (ks_obj s p))"
    "ko_hash s' = ko_hash s" "cur_thread s' = cur_thread s" "th (ks_obj s' p) = th (ks_obj s p)"
    "ko_label (hdr (ks_obj s' p)) = ko_label (hdr (ks_obj s p))" "ko_ref (hdr (ks_obj s' p)) = ko_ref (hdr (ks_obj s p))"
    "ko_type (hdr (ks_obj s' p)) = ko_type (hdr (ks_obj s p))" "kobject_neg s' = kobject_neg s" "pstate_part s' = pstate_part s"
    "ko_label_cache (ks_obj s' p) = ko_label_cache (ks_obj s p)" "ct (ks_obj s' p) = ct (ks_obj s p)"
    "ko_parent (hdr (ks_obj s' p)) = ko_parent (hdr (ks_obj s p))"
    "ko_quota_total (hdr (ks_obj s' p)) = ko_quota_total (hdr (ks_obj s p))"
    "ko_quota_used (hdr (ks_obj s' p)) = ko_quota_used (hdr (ks_obj s p))"
  using assms unfolding reads_def by (auto simp: pt_of_def kobject_npages_def split: ptid.split)

lemma reads_ent_of: "reads s s' \<Longrightarrow> ent_of s' l = ent_of s l"
  by (simp add: ent_of_def reads_frame split: entloc.split)

lemma reads_pt_walk: "reads s s' \<Longrightarrow> pt_walk s' e n l = pt_walk s e n l"
  by (induction l arbitrary: e n) (simp_all add: reads_ent_of Let_def)

lemma reads_pt_lookup: "reads s s' \<Longrightarrow> pt_lookup s' t n = pt_lookup s t n"
  by (simp add: pt_lookup_def pt_entry_def reads_ent_of reads_pt_walk cong: option.case_cong)

lemma reads_label:
  assumes "reads s s'"
  shows "slot_word s' l = slot_word s l" "label_n s' l = label_n s l" "label_words s' l = label_words s l"
    "label_fun s' l = label_fun s l" "label_wf s' l = label_wf s l"
proof -
  show 1: "slot_word s' l = slot_word s l" "label_n s' l = label_n s l"
    using assms by (auto simp: slot_word_def label_n_def reads_frame reads_pt_lookup fun_eq_iff)
  then show 2: "label_words s' l = label_words s l" by (simp add: label_words_def)
  show "label_fun s' l = label_fun s l" using assms 2 by (simp add: label_fun_def reads_frame)
  show "label_wf s' l = label_wf s l"
    using assms 1 2 by (simp add: label_wf_def slot_backed_def reads_frame reads_pt_lookup)
qed

subsection \<open>Reading slots and levels\<close>

lemma kobject_get_page_ro_returns:
  assumes "unat n < unat (kobject_npages (hdr (ks_obj s l)))" "unat n < unat pagetree_maxpages"
    "pt_lookup s (PtActive l) (unat n) \<noteq> 0"
  shows "returns (kobject_get_page_ro l n) s (Ret (pt_lookup s (PtActive l) (unat n)))"
proof -
  have "n < pagetree_maxpages" using assms(2) by (simp add: word_less_nat_alt)
  then have 1: "returns (pagetree_get_page_ro (PtActive l) n) s (Ret (pt_lookup s (PtActive l) (unat n)))"
    using pagetree_get_page_ro_lookup [of n "PtActive l" s] parents_only_reads by (auto simp: returns_def)
  have "returns (kthen (note_shared l p) (kret p)) s' (Ret p)" for p s'
    by (rule returns_kthen [OF note_shared_returns]) (rule returns_kret)
  then have "returns (kbind (pagetree_get_page_ro (PtActive l) n)
      (\<lambda>p. if p = 0 then kpanic else kthen (note_shared l p) (kret p))) s (Ret (pt_lookup s (PtActive l) (unat n)))"
    using assms(3) by (intro returns_kbind [OF 1]) simp
  then show ?thesis
    using assms(1) by (simp add: kobject_get_page_ro_def hd_of_def returns_def kbind_get word_le_nat_alt)
qed

lemma label_read_returns:
  assumes "label_wf s l" "i < label_n s l"
  shows "returns (label_read l i) s (Ret (slot_word s l i))"
proof (cases "i < NUM_LB_ENT_INLINE")
  case True
  then have "take_bit 32 i = i" by (simp add: NUM_LB_ENT_INLINE_def take_bit_nat_eq_self_iff)
  then have "(of_nat i :: u32) < of_nat NUM_LB_ENT_INLINE" "unat (of_nat i :: u32) = i"
    using True by (simp_all add: NUM_LB_ENT_INLINE_def word_less_nat_alt unsigned_of_nat)
  then show ?thesis
    using True by (simp add: label_read_def label_get_slotp_read_def slot_word_def slot_value_def returns_def)
next
  case False
  have i: "i < 2 ^ 32" using assms by (simp add: label_wf_def)
  let ?n = "of_nat i - of_nat NUM_LB_ENT_INLINE :: u32" and ?k = "i - NUM_LB_ENT_INLINE"
  have tb: "take_bit 32 i = i" using i by (simp add: take_bit_nat_eq_self_iff)
  then have ui: "unat (of_nat i :: u32) = i" by (simp add: unsigned_of_nat)
  have nl: "\<not> (of_nat i :: u32) < of_nat NUM_LB_ENT_INLINE"
    using False tb by (simp add: NUM_LB_ENT_INLINE_def word_less_nat_alt unsigned_of_nat)
  have un: "unat ?n = ?k"
    using False tb by (simp add: unat_sub NUM_LB_ENT_INLINE_def word_le_nat_alt unsigned_of_nat)
  have pg: "unat (ucast (?n div of_nat NUM_LB_ENT_PER_PAGE) :: u64) = ?k div NUM_LB_ENT_PER_PAGE"
    and off: "unat (?n mod of_nat NUM_LB_ENT_PER_PAGE) = ?k mod NUM_LB_ENT_PER_PAGE"
    using un by (simp_all add: unat_ucast_wide unat_div unat_mod NUM_LB_ENT_PER_PAGE_def)
  have "slot_backed s l i" using assms by (simp add: label_wf_def)
  then have "returns (kobject_get_page_ro l (ucast (?n div of_nat NUM_LB_ENT_PER_PAGE))) s
      (Ret (pt_lookup s (PtActive l) (?k div NUM_LB_ENT_PER_PAGE)))"
    using False kobject_get_page_ro_returns [of "ucast (?n div of_nat NUM_LB_ENT_PER_PAGE)" s l]
    by (simp add: pg slot_backed_def Let_def)
  then have "returns (label_get_slotp_read l (of_nat i)) s
      (Ret (LbPage (pt_lookup s (PtActive l) (?k div NUM_LB_ENT_PER_PAGE)) (?k mod NUM_LB_ENT_PER_PAGE)))"
    unfolding label_get_slotp_read_def using nl off
    by (simp add: Let_def) (auto intro: returns_kbind returns_kret)
  then show ?thesis unfolding label_read_def
    by (rule returns_kbind) (use False in \<open>simp add: slot_word_def returns_def slot_value_def reads_frame\<close>)
qed

lemma find_map_some:
  "(case find (\<lambda>i. (if P (f i) then Some (g (f i)) else None) \<noteq> None) is of
      None \<Rightarrow> None | Some i \<Rightarrow> if P (f i) then Some (g (f i)) else None)
   = map_option g (find P (map f is))"
  by (induction "is") auto

lemma label_get_level_returns:
  assumes "label_wf s l"
  shows "returns (label_get_level l h) s (Ret (label_fun s l h))"
proof -
  let ?g = "\<lambda>i. if slot_word s l i \<noteq> 0 \<and> LB_HANDLE (slot_word s l i) = h then Some (LB_LEVEL (slot_word s l i)) else None"
  let ?is = "[0..<label_n s l]"
  have body: "returns (kbind (kmust (label_read l i)) (\<lambda>ent.
      kret (if ent \<noteq> 0 \<and> LB_HANDLE ent = h then Some (LB_LEVEL ent) else None))) s' (Ret (?g i))"
    if "i \<in> set ?is" "reads s s'" for i s'
  proof (rule returns_kbind [OF returns_kmust])
    show "returns (label_read l i) s' (Ret (slot_word s l i))"
      using that assms label_read_returns [of s' l i] by (simp add: reads_label)
  qed (rule returns_kret)
  have "(case find (\<lambda>i. ?g i \<noteq> None) ?is of None \<Rightarrow> None | Some i \<Rightarrow> ?g i) =
      map_option LB_LEVEL (find (\<lambda>w. w \<noteq> 0 \<and> LB_HANDLE w = h) (label_words s l))"
    unfolding label_words_def by (rule find_map_some [where P = "\<lambda>w. w \<noteq> 0 \<and> LB_HANDLE w = h"])
  then have "returns (kfind (\<lambda>i. kbind (kmust (label_read l i)) (\<lambda>ent.
      kret (if ent \<noteq> 0 \<and> LB_HANDLE ent = h then Some (LB_LEVEL ent) else None))) ?is) s
      (Ret (map_option LB_LEVEL (find (\<lambda>w. w \<noteq> 0 \<and> LB_HANDLE w = h) (label_words s l))))"
    using returns_kfind [of ?is s _ ?g, OF body] by (simp only:)
  then show ?thesis unfolding label_get_level_def label_nents_def label_n_def [symmetric]
    by (auto simp: returns_def kbind_get kbind_def label_fun_def words_fun_def kret_def reads_frame split: option.split)
qed

subsection \<open>The orders\<close>

lemma level_range: "(a :: u8) \<le> LB_LEVEL_STAR \<longleftrightarrow> unat a < 5"
  by (auto simp: LB_LEVEL_STAR_def word_le_nat_alt)

lemma level_comparator_table:
  assumes "a \<le> LB_LEVEL_STAR" "b \<le> LB_LEVEL_STAR"
  shows "table_read (fst (level_comparator_init c)) a b = kret (comparator_gen c a b)"
    "table_read (snd (level_comparator_init c)) a b = kret (if comparator_gen c a b then b else a)"
proof -
  have ab: "unat a < 5" "unat b < 5" using assms by (simp_all add: level_range)
  have star: "Suc (unat LB_LEVEL_STAR) = 5" by (simp add: LB_LEVEL_STAR_def)
  show "table_read (fst (level_comparator_init c)) a b = kret (comparator_gen c a b)"
    "table_read (snd (level_comparator_init c)) a b = kret (if comparator_gen c a b then b else a)"
    using ab by (simp_all add: table_read_def level_comparator_init_def star Let_def)
qed

lemma level_cmp_returns:
  assumes "a \<le> LB_LEVEL_STAR" "b \<le> LB_LEVEL_STAR"
  shows "returns (level_cmp c a b) s (if comparator_gen c a b then Ret () else Err E_LABEL)"
  by (simp add: level_cmp_def level_comparator_table [OF assms] returns_kret returns_kerr)

definition label_leq :: "kstate \<Rightarrow> level_comparator \<Rightarrow> ptr \<Rightarrow> ptr \<Rightarrow> bool" where
  "label_leq s c l1 l2 \<longleftrightarrow> (\<forall>h. comparator_gen c (label_fun s l1 h) (label_fun s l2 h))"

lemma words_fun_entry:
  assumes "words_ok ws" "w \<in> set ws" "w \<noteq> 0"
  shows "words_fun ws d (LB_HANDLE w) = LB_LEVEL w"
proof -
  have "find (\<lambda>x. x \<noteq> 0 \<and> LB_HANDLE x = LB_HANDLE w) ws = Some w"
    using assms by (induction ws) (auto simp: words_ok_def image_iff split: if_splits)
  then show ?thesis by (simp add: words_fun_def)
qed

lemma words_fun_cases:
  "words_fun ws d h = d \<and> (\<forall>w\<in>set ws. w \<noteq> 0 \<longrightarrow> LB_HANDLE w \<noteq> h) \<or>
   (\<exists>w\<in>set ws. w \<noteq> 0 \<and> LB_HANDLE w = h \<and> words_fun ws d h = LB_LEVEL w)"
proof (cases "find (\<lambda>w. w \<noteq> 0 \<and> LB_HANDLE w = h) ws")
  case None
  have "words_fun ws d h = d" using None by (simp add: words_fun_def)
  moreover have "\<forall>w\<in>set ws. w \<noteq> 0 \<longrightarrow> LB_HANDLE w \<noteq> h" using None by (auto simp: find_None_iff)
  ultimately show ?thesis by blast
next
  case (Some w)
  then have "w \<in> set ws" "w \<noteq> 0" "LB_HANDLE w = h" by (auto simp: find_Some_iff)
  then show ?thesis using Some by (auto simp: words_fun_def)
qed

lemma words_fun_range: "words_ok ws \<Longrightarrow> d \<le> LB_LEVEL_STAR \<Longrightarrow> words_fun ws d h \<le> LB_LEVEL_STAR"
  using words_fun_cases [of ws d h] by (auto simp: words_ok_def)

lemma LB_HANDLE_not_max: "LB_HANDLE w \<noteq> - 1"
proof
  assume "LB_HANDLE w = - 1"
  then have "bit (LB_HANDLE w) 63" by simp
  then show False by (simp add: LB_HANDLE_def bit_and_iff)
qed

lemma words_pointwise:
  assumes "words_ok ws1" "words_ok ws2"
  shows "(\<forall>h. R (words_fun ws1 d1 h) (words_fun ws2 d2 h)) \<longleftrightarrow>
    (\<forall>w\<in>set ws1. w \<noteq> 0 \<longrightarrow> R (LB_LEVEL w) (words_fun ws2 d2 (LB_HANDLE w))) \<and>
    (\<forall>w\<in>set ws2. w \<noteq> 0 \<longrightarrow> R (words_fun ws1 d1 (LB_HANDLE w)) (LB_LEVEL w)) \<and> R d1 d2"
  (is "?l \<longleftrightarrow> ?r")
proof
  assume l: ?l
  have "words_fun ws d (- 1) = d" for ws d
    using words_fun_cases [of ws d "- 1"] LB_HANDLE_not_max by auto
  then have "R d1 d2" using l by metis
  then show ?r using l words_fun_entry [OF assms(1)] words_fun_entry [OF assms(2)] by metis
next
  assume r: ?r
  show ?l
  proof
    fix h
    show "R (words_fun ws1 d1 h) (words_fun ws2 d2 h)"
      using r words_fun_cases [of ws1 d1 h] words_fun_cases [of ws2 d2 h] by metis
  qed
qed

subsection \<open>Comparing\<close>

text \<open>One of the two loops of \<open>label_compare\<close>: every entry of the label passes a test of its word.\<close>

lemma label_loop_returns:
  assumes "label_wf s l"
    and "\<And>w s'. w \<in> set (label_words s l) \<Longrightarrow> w \<noteq> 0 \<Longrightarrow> reads s s' \<Longrightarrow>
      returns (body w) s' (if P w then Ret () else Err e)"
  shows "returns (kbind (label_nents l) (\<lambda>is. kfor (\<lambda>i. kbind (label_read l i) (\<lambda>ent. kwhen (ent \<noteq> 0) (body ent))) is)) s
    (if \<forall>w\<in>set (label_words s l). w \<noteq> 0 \<longrightarrow> P w then Ret () else Err e)"
proof -
  let ?Q = "\<lambda>i. slot_word s l i \<noteq> 0 \<longrightarrow> P (slot_word s l i)"
  have "returns (kbind (label_read l i) (\<lambda>ent. kwhen (ent \<noteq> 0) (body ent))) s' (if ?Q i then Ret () else Err e)"
    if i: "i \<in> set [0..<label_n s l]" and r: "reads s s'" for i s'
  proof (rule returns_kbind)
    show "returns (label_read l i) s' (Ret (slot_word s l i))"
      using i r assms(1) label_read_returns [of s' l i] by (simp add: reads_label)
    fix t assume "reads s' t"
    then have t: "reads s t" by (rule reads_trans [OF r])
    have "slot_word s l i \<in> set (label_words s l)" using i by (simp add: label_words_def)
    then show "returns (kwhen (slot_word s l i \<noteq> 0) (body (slot_word s l i))) t (if ?Q i then Ret () else Err e)"
      using assms(2) [of "slot_word s l i" t] t by (auto simp: kwhen_def returns_kret)
  qed
  then have "returns (kfor (\<lambda>i. kbind (label_read l i) (\<lambda>ent. kwhen (ent \<noteq> 0) (body ent))) [0..<label_n s l]) s
      (if \<forall>i\<in>set [0..<label_n s l]. ?Q i then Ret () else Err e)"
    by (rule returns_kfor)
  moreover have "(\<forall>i\<in>set [0..<label_n s l]. ?Q i) \<longleftrightarrow> (\<forall>w\<in>set (label_words s l). w \<noteq> 0 \<longrightarrow> P w)"
    by (auto simp: label_words_def)
  ultimately show ?thesis by (simp add: label_nents_def returns_def kbind_get label_n_def)
qed

lemma returns_kthen_if:
  assumes "returns m s (if P then Ret () else Err e)"
    and "\<And>s'. P \<Longrightarrow> reads s s' \<Longrightarrow> returns k s' (if Q then Ret () else Err e)"
  shows "returns (kthen m k) s (if P \<and> Q then Ret () else Err e)"
  using assms returns_kthen [of m s "()" k] returns_kbind_Err [of m s e "\<lambda>_. k"]
  by (cases P) (auto simp: kthen_def)

definition compare_body :: "ptr \<Rightarrow> ptr \<Rightarrow> level_comparator \<Rightarrow> unit kernel" where
  "compare_body l1 l2 cmp =
     kthen (kbind (label_nents l1) (\<lambda>is.
       kfor (\<lambda>i. kbind (label_read l1 i) (\<lambda>ent.
         kwhen (ent \<noteq> 0)
           (kbind (label_get_level l2 (LB_HANDLE ent)) (\<lambda>lv2. level_cmp cmp (LB_LEVEL ent) lv2)))) is))
    (kthen (kbind (label_nents l2) (\<lambda>is.
       kfor (\<lambda>i. kbind (label_read l2 i) (\<lambda>ent.
         kwhen (ent \<noteq> 0)
           (kbind (label_get_level l1 (LB_HANDLE ent)) (\<lambda>lv1. level_cmp cmp lv1 (LB_LEVEL ent))))) is))
       (kbind (kget (\<lambda>s. (lb_def_level (lb (ks_obj s l1)), lb_def_level (lb (ks_obj s l2))))) (\<lambda>(d1, d2).
              level_cmp cmp d1 d2)))"

lemma label_wf_levels:
  assumes "label_wf s l"
  shows "label_fun s l h \<le> LB_LEVEL_STAR" "lb_def_level (lb (ks_obj s l)) \<le> LB_LEVEL_STAR" "l \<noteq> 0"
    "w \<in> set (label_words s l) \<Longrightarrow> w \<noteq> 0 \<Longrightarrow> LB_LEVEL w \<le> LB_LEVEL_STAR"
  using assms words_fun_range by (auto simp: label_wf_def label_fun_def words_ok_def)

lemma level_against_returns:
  assumes "label_wf s l" "lv \<le> LB_LEVEL_STAR" "reads s s'"
  shows "returns (kbind (label_get_level l h) (\<lambda>lv2. level_cmp cmp lv lv2)) s'
      (if comparator_gen cmp lv (label_fun s l h) then Ret () else Err E_LABEL)"
    "returns (kbind (label_get_level l h) (\<lambda>lv1. level_cmp cmp lv1 lv)) s'
      (if comparator_gen cmp (label_fun s l h) lv then Ret () else Err E_LABEL)"
proof -
  have 1: "returns (label_get_level l h) s' (Ret (label_fun s l h))"
    using label_get_level_returns [of s' l h] assms by (simp add: reads_label)
  have 2: "label_fun s l h \<le> LB_LEVEL_STAR" by (rule label_wf_levels(1) [OF assms(1)])
  show "returns (kbind (label_get_level l h) (\<lambda>lv2. level_cmp cmp lv lv2)) s'
      (if comparator_gen cmp lv (label_fun s l h) then Ret () else Err E_LABEL)"
    by (rule returns_kbind [OF 1]) (rule level_cmp_returns [OF assms(2) 2])
  show "returns (kbind (label_get_level l h) (\<lambda>lv1. level_cmp cmp lv1 lv)) s'
      (if comparator_gen cmp (label_fun s l h) lv then Ret () else Err E_LABEL)"
    by (rule returns_kbind [OF 1]) (rule level_cmp_returns [OF 2 assms(2)])
qed

lemma default_levels_returns:
  assumes "label_wf s l1" "label_wf s l2" "reads s s'"
  shows "returns (kbind (kget (\<lambda>s. (lb_def_level (lb (ks_obj s l1)), lb_def_level (lb (ks_obj s l2))))) (\<lambda>(d1, d2).
      level_cmp cmp d1 d2)) s'
      (if comparator_gen cmp (lb_def_level (lb (ks_obj s l1))) (lb_def_level (lb (ks_obj s l2))) then Ret () else Err E_LABEL)"
  using level_cmp_returns [OF label_wf_levels(2) [OF assms(1)] label_wf_levels(2) [OF assms(2)], of cmp s'] assms(3)
  by (simp add: returns_def kbind_get reads_frame)

lemma label_leq_entries:
  assumes "label_wf s l1" "label_wf s l2"
  shows "label_leq s cmp l1 l2 \<longleftrightarrow>
      (\<forall>w\<in>set (label_words s l1). w \<noteq> 0 \<longrightarrow> comparator_gen cmp (LB_LEVEL w) (label_fun s l2 (LB_HANDLE w))) \<and>
      ((\<forall>w\<in>set (label_words s l2). w \<noteq> 0 \<longrightarrow> comparator_gen cmp (label_fun s l1 (LB_HANDLE w)) (LB_LEVEL w)) \<and>
      comparator_gen cmp (lb_def_level (lb (ks_obj s l1))) (lb_def_level (lb (ks_obj s l2))))"
  using assms words_pointwise [of "label_words s l1" "label_words s l2" "comparator_gen cmp"]
  by (simp add: label_leq_def label_fun_def label_wf_def)

lemma compare_body_returns:
  assumes "label_wf s l1" "label_wf s l2"
  shows "returns (compare_body l1 l2 cmp) s (if label_leq s cmp l1 l2 then Ret () else Err E_LABEL)"
  unfolding compare_body_def label_leq_entries [OF assms]
proof (intro returns_kthen_if, goal_cases)
  case 1
  show ?case
    by (rule label_loop_returns [OF assms(1)])
      (rule level_against_returns(1) [OF assms(2) label_wf_levels(4) [OF assms(1)]])
next
  case (2 s')
  have "returns (kbind (label_get_level l1 (LB_HANDLE w)) (\<lambda>lv1. level_cmp cmp lv1 (LB_LEVEL w))) t
      (if comparator_gen cmp (label_fun s l1 (LB_HANDLE w)) (LB_LEVEL w) then Ret () else Err E_LABEL)"
    if "w \<in> set (label_words s' l2)" "w \<noteq> 0" "reads s' t" for w t
    using level_against_returns(2) [OF assms(1) label_wf_levels(4) [OF assms(2)] reads_trans [OF 2(2) that(3)], of w]
      that 2(2) by (simp add: reads_label)
  then show ?case
    using label_loop_returns [of s' l2] assms(2) 2(2) by (simp add: reads_label)
next
  case (3 s' t)
  then show ?case by (intro default_levels_returns assms) (rule reads_trans)
qed

lemma kthen_assoc: "kthen (kthen a b) c = kthen a (kthen b c)"
  by (simp add: kthen_def kbind_assoc)

lemma label_compare_body:
  assumes "l1 \<noteq> 0" "l2 \<noteq> 0"
  shows "label_compare l1 l2 cmp cacheable =
    kbind (hd_of l1) (\<lambda>h1. kbind (hd_of l2) (\<lambda>h2.
    kbind (if cacheable then compare_cached (ko_id h1) (ko_id h2) cmp else kret False) (\<lambda>hit.
    if hit then kret ()
    else kthen (compare_body l1 l2 cmp) (kwhen cacheable (compare_cache_put (ko_id h1) (ko_id h2) cmp)))))"
  unfolding label_compare_def compare_body_def kthen_assoc using assms by simp

lemma label_compare_uncached:
  assumes "label_wf s l1" "label_wf s l2"
  shows "returns (label_compare l1 l2 cmp False) s (if label_leq s cmp l1 l2 then Ret () else Err E_LABEL)"
proof -
  have nz: "l1 \<noteq> 0" "l2 \<noteq> 0" using assms by (simp_all add: label_wf_def)
  have "kthen m (kret ()) = (m :: unit kernel)" for m by (simp add: kthen_def)
  then have "label_compare l1 l2 cmp False = compare_body l1 l2 cmp"
    by (simp add: label_compare_body [OF nz] hd_of_def kbind_get_const)
  then show ?thesis using compare_body_returns [OF assms] by simp
qed

lemma comparator_order:
  assumes "a \<le> LB_LEVEL_STAR" "b \<le> LB_LEVEL_STAR" "c \<le> LB_LEVEL_STAR"
  shows "comparator_gen cmp a a" "comparator_gen cmp a b \<Longrightarrow> comparator_gen cmp b a \<Longrightarrow> a = b"
    "comparator_gen cmp a b \<Longrightarrow> comparator_gen cmp b c \<Longrightarrow> comparator_gen cmp a c"
    "comparator_gen cmp a b \<or> comparator_gen cmp b a"
  using assms by (cases cmp; auto simp: label_leq_starlo_fn_def label_leq_starhi_fn_def split: if_splits)+

text \<open>
  The orders as numbers: the ownership level \<open>*\<close> counts lowest for one comparator and highest for the other, and the other
  levels count as they are.
\<close>

fun star_rank :: "level_comparator \<Rightarrow> u8 \<Rightarrow> nat" where
  "star_rank label_leq_starlo a = (if a = LB_LEVEL_STAR then 0 else Suc (unat a))"
| "star_rank label_leq_starhi a = (if a = LB_LEVEL_STAR then 5 else unat a)"

lemma comparator_rank:
  assumes "a \<le> LB_LEVEL_STAR" "b \<le> LB_LEVEL_STAR"
  shows "comparator_gen cmp a b \<longleftrightarrow> star_rank cmp a \<le> star_rank cmp b"
proof -
  have lt: "unat a < 5" "unat b < 5" using assms by (simp_all add: level_range)
  have ne: "a \<noteq> LB_LEVEL_STAR \<Longrightarrow> unat a < 4" "b \<noteq> LB_LEVEL_STAR \<Longrightarrow> unat b < 4"
    using assms by (auto simp: LB_LEVEL_STAR_def word_le_nat_alt word_unat_eq_iff)
  show ?thesis using lt ne
    by (cases cmp) (auto simp: label_leq_starlo_fn_def label_leq_starhi_fn_def word_le_nat_alt)
qed

text \<open>
  C10: a label is below another exactly if at every category its level is at most the other's, where the
  ownership level \<open>*\<close> is the lowest of all for the comparator that is used on a writer's label and the highest of all for the one that is
  used on a reader's. Both are partial orders: reflexive, transitive, and two labels below each other give every category the same level.
\<close>

theorem label_leq_partial_order:
  assumes "label_wf s l1" "label_wf s l2" "label_wf s l3"
  shows "(label_leq s cmp l1 l2 \<longleftrightarrow> (\<forall>h. star_rank cmp (label_fun s l1 h) \<le> star_rank cmp (label_fun s l2 h))) \<and>
    label_leq s cmp l1 l1 \<and>
    (label_leq s cmp l1 l2 \<longrightarrow> label_leq s cmp l2 l3 \<longrightarrow> label_leq s cmp l1 l3) \<and>
    (label_leq s cmp l1 l2 \<longrightarrow> label_leq s cmp l2 l1 \<longrightarrow> label_fun s l1 = label_fun s l2)"
proof -
  note l1 = label_wf_levels(1) [OF assms(1)] and l2 = label_wf_levels(1) [OF assms(2)]
    and l3 = label_wf_levels(1) [OF assms(3)]
  have "label_leq s cmp l1 l2 \<longleftrightarrow> (\<forall>h. star_rank cmp (label_fun s l1 h) \<le> star_rank cmp (label_fun s l2 h))"
    unfolding label_leq_def comparator_rank [OF l1 l2] ..
  moreover have "label_leq s cmp l1 l1" using comparator_order(1) [OF l1 l1 l1] by (simp add: label_leq_def)
  moreover have "label_leq s cmp l1 l3" if "label_leq s cmp l1 l2" "label_leq s cmp l2 l3"
    using that comparator_order(3) [OF l1 l2 l3] unfolding label_leq_def by blast
  moreover have "label_fun s l1 = label_fun s l2" if "label_leq s cmp l1 l2" "label_leq s cmp l2 l1"
    using that comparator_order(2) [OF l1 l2 l3] unfolding label_leq_def by blast
  ultimately show ?thesis by blast
qed

definition label_obj :: "u64 \<Rightarrow> u64 list \<Rightarrow> u8 \<Rightarrow> kobject" where
  "label_obj kid ents def = kobject0\<lparr> hdr := hdr0\<lparr> ko_id := kid, ko_type := kobj_label, ko_ref := 1 \<rparr>,
     lb := \<lparr> lb_def_level = def, lb_nent = of_nat (length ents), lb_ent = ents @ replicate (32 - length ents) 0 \<rparr> \<rparr>"

lemma label_obj_words:
  assumes "ks_obj s p = label_obj kid ents def" "length ents \<le> 32"
  shows "label_words s p = ents" "label_fun s p = words_fun ents def" "label_n s p = length ents"
proof -
  show n: "label_n s p = length ents"
    using assms by (simp add: label_n_def label_obj_def unsigned_of_nat take_bit_nat_eq_self_iff)
  have "slot_word s p i = ents ! i" if "i < length ents" for i
    using assms that by (simp add: slot_word_def NUM_LB_ENT_INLINE_def label_obj_def nth_append)
  then show w: "label_words s p = ents" unfolding label_words_def n by (intro nth_equalityI) simp_all
  show "label_fun s p = words_fun ents def" using assms by (simp add: label_fun_def w) (simp add: label_obj_def)
qed

lemma label_obj_wf:
  assumes "ks_obj s p = label_obj kid ents def" "length ents \<le> 32" "words_ok ents" "def \<le> LB_LEVEL_STAR" "p \<noteq> 0"
  shows "label_wf s p"
proof -
  have "lb_def_level (lb (ks_obj s p)) = def" using assms(1) by (simp add: label_obj_def)
  then show ?thesis
    using assms label_obj_words [OF assms(1,2)] by (simp add: label_wf_def slot_backed_def NUM_LB_ENT_INLINE_def)
qed

definition two_labels :: kstate where
  "two_labels = kstate0\<lparr> ks_obj := (ks_obj kstate0)(5 := label_obj 11 [LB_CODE 7 3] 1, 6 := label_obj 12 [LB_CODE 7 4] 1) \<rparr>"

lemma words_ok_code: "words_ok [LB_CODE 7 3]" "words_ok [LB_CODE 7 4]"
  by (simp_all add: words_ok_def LB_CODE_def LB_LEVEL_def LB_LEVEL_STAR_def)

lemma two_labels_wf: "label_wf two_labels 5" "label_wf two_labels 6"
  by (rule label_obj_wf, simp add: two_labels_def, simp_all add: words_ok_code LB_LEVEL_STAR_def)+

lemma two_labels_fun: "label_fun two_labels 5 = words_fun [LB_CODE 7 3] 1" "label_fun two_labels 6 = words_fun [LB_CODE 7 4] 1"
  by (rule label_obj_words, simp add: two_labels_def, simp)+

theorem label_leq_partial_order_witness:
  "label_leq two_labels label_leq_starhi 5 6 \<and> \<not> label_leq two_labels label_leq_starhi 6 5 \<and>
   label_leq two_labels label_leq_starlo 6 5 \<and> \<not> label_leq two_labels label_leq_starlo 5 6"
proof -
  note f = two_labels_fun and ev = words_fun_def LB_CODE_def LB_LEVEL_def LB_HANDLE_def LB_LEVEL_STAR_def
  note hi = label_leq_partial_order [OF two_labels_wf two_labels_wf(1), of label_leq_starhi]
    label_leq_partial_order [OF two_labels_wf(2,1,1), of label_leq_starhi]
  note lo = label_leq_partial_order [OF two_labels_wf two_labels_wf(1), of label_leq_starlo]
    label_leq_partial_order [OF two_labels_wf(2,1,1), of label_leq_starlo]
  have "label_leq two_labels label_leq_starhi 5 6" "label_leq two_labels label_leq_starlo 6 5"
    using hi(1) lo(2) by (auto simp: f ev)
  moreover have "\<not> label_leq two_labels label_leq_starhi 6 5" using hi(2) by (auto simp: f ev intro!: exI [of _ 7])
  moreover have "\<not> label_leq two_labels label_leq_starlo 5 6" using lo(1) by (auto simp: f ev intro!: exI [of _ 7])
  ultimately show ?thesis by blast
qed

end
