(* ===== verification/Iflow.thy ===== *)
theory Iflow
  imports Labelcmp
begin

unbundle bit_operations_syntax

text \<open>
  Finding objects and the information flow check of \<^verbatim>\<open>src/kern/kern/kobj.c\<close>, with the cached comparison
  of labels by id of \<^verbatim>\<open>label.c\<close>. \<open>kobject_get\<close> checks the caller against the object's label with
  \<open>label_compare_id\<close>, which in turn gets the label objects without a check; \<open>kobject_get_via\<close> is the common code with the
  check as an argument.

  Main result: with labels in core and a sound comparison cache, \<open>kobject_iflow_check\<close> lets a thread
  through exactly if the label order allows the flow.
\<close>

subsection \<open>Definitions\<close>

definition ko_chain :: "kstate \<Rightarrow> u64 \<Rightarrow> ptr list" where
  "ko_chain s kid = ko_hash s (kid AND (kobj_hash_size - 1))"

definition ko_find :: "kstate \<Rightarrow> u64 \<Rightarrow> ptr option" where
  "ko_find s kid = find (\<lambda>p. ko_id (hdr (ks_obj s p)) = kid) (ko_chain s kid)"

definition kobject_translate_id :: "u64 \<Rightarrow> u64 kernel" where
  "kobject_translate_id kid =
     kbind (kget cur_thread) (\<lambda>cur.
     if kid = kobject_id_thread_sg
     then (if cur = 0 then kpanic else kget (\<lambda>s. th_sg (th (ks_obj s cur))))
     else kret kid)"

definition kobject_incore :: "u64 \<Rightarrow> unit kernel" where
  "kobject_incore kid =
     kbind (kget (\<lambda>s. ko_find s kid)) (\<lambda>r. case r of Some _ \<Rightarrow> kret () | None \<Rightarrow> kerr E_NOT_FOUND)"

definition kobject_get_via :: "(ptr \<Rightarrow> unit kernel) \<Rightarrow> u64 \<Rightarrow> kobject_type \<Rightarrow> ptr kernel" where
  "kobject_get_via check kid0 type =
     kbind (kobject_translate_id kid0) (\<lambda>kid.
     kbind (kget (\<lambda>s. ko_find s kid)) (\<lambda>r.
     case r of
       Some ko \<Rightarrow>
         kbind (hd_of ko) (\<lambda>h.
         if ko_ref h = 0 then kerr E_NOT_FOUND
         else kthen (if ko_type h = kobj_label then kret () else check ko)
           (if type \<noteq> kobj_any \<and> type \<noteq> ko_type h then kerr E_NOT_FOUND else kret ko))
     | None \<Rightarrow>
         kbind (kobject_negative_contains kid) (\<lambda>neg.
         if neg then kerr E_NOT_FOUND
         else kthen (pstate_swapin kid) kpanic)))"

definition label_compare_id :: "u64 \<Rightarrow> u64 \<Rightarrow> level_comparator \<Rightarrow> unit kernel" where
  "label_compare_id l1_id l2_id cmp =
     kbind (compare_cached l1_id l2_id cmp) (\<lambda>hit.
     if hit then kret ()
     else kbind (kobject_get_via (\<lambda>_. kret ()) l1_id kobj_label) (\<lambda>l1.
          kbind (kobject_get_via (\<lambda>_. kret ()) l2_id kobj_label) (\<lambda>l2.
          label_compare l1 l2 cmp True)))"

definition kobject_iflow_check :: "ptr \<Rightarrow> info_flow_type \<Rightarrow> unit kernel" where
  "kobject_iflow_check ko iflow =
     kbind (kget cur_thread) (\<lambda>cur.
     if iflow = iflow_none \<or> cur = 0 then kret ()
     else kbind (hd_of cur) (\<lambda>th_h.
          kbind (hd_of ko) (\<lambda>h.
          let th_label_id = ko_label th_h kolabel_tracking; th_clear_id = ko_label th_h kolabel_clearance;
              ko_label_id = ko_label h kolabel_tracking; ko_clear_id = ko_label h kolabel_clearance
          in kthen (kassert (th_label_id \<noteq> 0 \<and> th_clear_id \<noteq> 0))
            (if ko_label_id = 0 then kerr E_LABEL
             else case iflow of
               iflow_read \<Rightarrow> label_compare_id ko_label_id th_label_id label_leq_starhi
             | iflow_rw \<Rightarrow>
                 if has_flag (ko_flags h) KOBJ_READONLY then kerr E_READ_ONLY
                 else kthen (label_compare_id th_label_id ko_label_id label_leq_starlo)
                            (label_compare_id ko_label_id th_label_id label_leq_starhi)
             | iflow_alloc \<Rightarrow>
                 kthen (label_compare_id th_label_id ko_label_id label_leq_starlo)
                   (if ko_clear_id \<noteq> 0
                    then kthen (label_compare_id ko_label_id ko_clear_id label_leq_starlo)
                               (label_compare_id ko_clear_id th_clear_id label_leq_starlo)
                    else label_compare_id ko_label_id th_clear_id label_leq_starlo)
             | iflow_none \<Rightarrow> kpanic))))"

definition kobject_get :: "u64 \<Rightarrow> kobject_type \<Rightarrow> info_flow_type \<Rightarrow> ptr kernel" where
  "kobject_get kid type iflow = kobject_get_via (\<lambda>ko. kobject_iflow_check ko iflow) kid type"

text \<open>The label of an object, or 0 if it has none; the weak pointer caches the label object.\<close>

definition kobject_get_label :: "ptr \<Rightarrow> kolabel \<Rightarrow> ptr kernel" where
  "kobject_get_label ko idx =
     kbind (kget (\<lambda>s. (ko_label_cache (ks_obj s ko) idx, ko_label (hdr (ks_obj s ko)) idx,
                       ko_id (hdr (ks_obj s (ko_label_cache (ks_obj s ko) idx)))))) (\<lambda>(label_ko, kid, cached_id).
     if label_ko \<noteq> 0 \<and> cached_id = kid then kret label_ko
     else if kid \<noteq> 0
     then kbind (kobject_get kid kobj_label iflow_none) (\<lambda>l.
          kthen (kobj_weak_put ko idx l) (kret l))
     else kret 0)"

subsection \<open>The comparison cache\<close>

definition cache_sound :: "kstate \<Rightarrow> bool" where
  "cache_sound s \<longleftrightarrow> length (compare_cache s) = compare_cache_size \<and>
     (\<forall>e\<in>set (compare_cache s). \<forall>c p q. cc_cmp e = Some c \<longrightarrow> ko_find s (cc_lhs e) = Some p \<longrightarrow>
        ko_find s (cc_rhs e) = Some q \<longrightarrow> label_leq s c p q)"

text \<open>The id names a referenced, well-formed label in core.\<close>

definition label_named :: "kstate \<Rightarrow> u64 \<Rightarrow> ptr \<Rightarrow> bool" where
  "label_named s kid p \<longleftrightarrow> kid \<noteq> kobject_id_thread_sg \<and> ko_find s kid = Some p \<and>
     ko_type (hdr (ks_obj s p)) = kobj_label \<and> ko_ref (hdr (ks_obj s p)) \<noteq> 0 \<and> label_wf s p"

text \<open>Like \<open>reads\<close>, with at most \<open>n\<close> entries added to the cache.\<close>

definition checks :: "nat \<Rightarrow> kstate \<Rightarrow> kstate \<Rightarrow> bool" where
  "checks n s s' \<longleftrightarrow> reads s (s'\<lparr> compare_cache := compare_cache s, compare_cache_next := compare_cache_next s \<rparr>) \<and>
     unat (compare_cache_next s') \<le> unat (compare_cache_next s) + n"

lemma reads_checks:
  assumes "reads s s'"
  shows "checks 0 s s'"
proof -
  have "s'\<lparr> compare_cache := compare_cache s', compare_cache_next := compare_cache_next s' \<rparr> = s'" by simp
  then show ?thesis using assms unfolding checks_def reads_frame(5,6) [OF assms] by simp
qed

lemma checks_frame:
  assumes "checks n s s'"
  shows "ko_find s' = ko_find s" "label_fun s' p = label_fun s p" "label_leq s' = label_leq s" "label_wf s' p = label_wf s p"
    "label_named s' = label_named s"
    "cur_thread s' = cur_thread s" "ko_label (hdr (ks_obj s' p)) = ko_label (hdr (ks_obj s p))"
    "ko_ref (hdr (ks_obj s' p)) = ko_ref (hdr (ks_obj s p))" "ko_type (hdr (ks_obj s' p)) = ko_type (hdr (ks_obj s p))"
proof -
  let ?t = "s'\<lparr> compare_cache := compare_cache s, compare_cache_next := compare_cache_next s \<rparr>"
  have r: "reads s ?t" using assms by (simp add: checks_def)
  have ent: "ent_of ?t = ent_of s'" by (simp add: fun_eq_iff ent_of_def pt_of_def split: entloc.split ptid.split)
  have walk: "pt_walk ?t e n l = pt_walk s' e n l" for e n l
    by (induction l arbitrary: e n) (simp_all add: ent Let_def)
  have look: "pt_lookup ?t = pt_lookup s'"
    by (simp add: fun_eq_iff pt_lookup_def pt_entry_def ent walk cong: option.case_cong)
  have words: "label_words ?t p = label_words s' p" "label_n ?t p = label_n s' p" for p
    by (simp_all add: label_words_def label_n_def slot_word_def look)
  have funs: "label_fun ?t p = label_fun s' p" for p by (simp add: label_fun_def words)
  have wfs: "label_wf ?t p = label_wf s' p" for p
    by (simp add: label_wf_def words slot_backed_def look)
  note f = reads_frame [OF r]
  show find: "ko_find s' = ko_find s"
    using f(7,8) by (simp add: fun_eq_iff ko_find_def ko_chain_def)
  show fn: "label_fun s' p = label_fun s p" for p using reads_label(4) [OF r] funs by simp
  show "label_leq s' = label_leq s" by (simp add: fun_eq_iff label_leq_def fn)
  show wf: "label_wf s' p = label_wf s p" for p using reads_label(5) [OF r] wfs by simp
  show "cur_thread s' = cur_thread s" "ko_label (hdr (ks_obj s' p)) = ko_label (hdr (ks_obj s p))"
    using f(9,11) by simp_all
  show ref: "ko_ref (hdr (ks_obj s' p)) = ko_ref (hdr (ks_obj s p))"
    and ty: "ko_type (hdr (ks_obj s' p)) = ko_type (hdr (ks_obj s p))" for p using f(12,13) by simp_all
  show "label_named s' = label_named s" by (simp add: fun_eq_iff label_named_def find wf ref ty)
qed

lemma reads_flags: "reads s t \<Longrightarrow> shared_bit (ko_flags (hdr (ks_obj s p))) (ko_flags (hdr (ks_obj t p)))"
  unfolding reads_def by auto

lemma checks_flags: "checks n s t \<Longrightarrow> shared_bit (ko_flags (hdr (ks_obj s p))) (ko_flags (hdr (ks_obj t p)))"
  using reads_flags unfolding checks_def by fastforce

lemma reads_cache:
  assumes "reads s t"
  shows "reads (s\<lparr> compare_cache := C, compare_cache_next := k \<rparr>) (t\<lparr> compare_cache := C, compare_cache_next := k \<rparr>)"
proof -
  obtain f g where "\<forall>p. shared_bit (ko_flags (hdr (ks_obj s p))) (g p)"
    "t = s\<lparr> ks_pi := (\<lambda>p. (ks_pi s p)\<lparr> pi_parent := f p \<rparr>),
            ks_obj := (\<lambda>p. (ks_obj s p)\<lparr> hdr := (hdr (ks_obj s p))\<lparr> ko_flags := g p \<rparr> \<rparr>) \<rparr>"
    using assms unfolding reads_def by blast
  then show ?thesis unfolding reads_def by (intro exI [of _ f] exI [of _ g]) simp
qed

lemma checks_trans:
  assumes "checks n s t" "checks m t u"
  shows "checks (n + m) s u"
proof -
  have "reads s (t\<lparr> compare_cache := compare_cache s, compare_cache_next := compare_cache_next s \<rparr>)"
    using assms(1) by (simp add: checks_def)
  moreover have t: "reads t (u\<lparr> compare_cache := compare_cache t, compare_cache_next := compare_cache_next t \<rparr>)"
    using assms(2) by (simp add: checks_def)
  have "reads (t\<lparr> compare_cache := compare_cache s, compare_cache_next := compare_cache_next s \<rparr>)
      (u\<lparr> compare_cache := compare_cache s, compare_cache_next := compare_cache_next s \<rparr>)"
    using reads_cache [where C = "compare_cache s" and k = "compare_cache_next s", OF t] by simp
  ultimately show ?thesis using assms by (auto simp: checks_def intro: reads_trans)
qed

lemma checks_mono: "checks n s t \<Longrightarrow> n \<le> m \<Longrightarrow> checks m s t"
  by (auto simp: checks_def)

text \<open>An operation that answers a yes-no question about labels and leaves the cache sound.\<close>

definition decides :: "nat \<Rightarrow> unit kernel \<Rightarrow> kstate \<Rightarrow> bool \<Rightarrow> bool" where
  "decides n m s b \<longleftrightarrow> (\<exists>s'. m s = (if b then Ret () else Err E_LABEL, s') \<and> checks n s s' \<and> cache_sound s')"

lemma decides_kthen:
  assumes "decides n m s b" "\<And>s'. checks n s s' \<Longrightarrow> cache_sound s' \<Longrightarrow> b \<Longrightarrow> decides k m' s' c"
  shows "decides (n + k) (kthen m m') s (b \<and> c)"
proof -
  obtain s1 where s1: "m s = (if b then Ret () else Err E_LABEL, s1)" "checks n s s1" "cache_sound s1"
    using assms(1) by (auto simp: decides_def)
  show ?thesis
  proof (cases b)
    case True
    then obtain s2 where "m' s1 = (if c then Ret () else Err E_LABEL, s2)" "checks k s1 s2" "cache_sound s2"
      using assms(2) [OF s1(2,3)] by (auto simp: decides_def)
    then show ?thesis using s1 True checks_trans by (auto simp: decides_def kthen_case)
  next
    case False
    then show ?thesis using s1 checks_mono [of n s s1 "n + k"] by (auto simp: decides_def kthen_case)
  qed
qed

lemma reads_cache_sound:
  assumes "reads s t" "cache_sound s"
  shows "cache_sound t"
  using assms checks_frame(1,3) [OF reads_checks [OF assms(1)]] by (simp add: cache_sound_def reads_frame)

lemma compare_cache_put_run:
  assumes "unat (compare_cache_next s) < 2 ^ 31"
  shows "compare_cache_put lhs rhs cmp s = (Ret (), s\<lparr> compare_cache_next := compare_cache_next s + 1,
    compare_cache := (compare_cache s)[unat (compare_cache_next s) mod compare_cache_size :=
      \<lparr> cc_lhs = lhs, cc_rhs = rhs, cc_cmp = Some cmp \<rparr>] \<rparr>)"
proof -
  have "sint (compare_cache_next s) = int (unat (compare_cache_next s))"
  proof -
    have "int (unat (compare_cache_next s)) < int (2 ^ 31)" using assms by (simp only: of_nat_less_iff)
    then have "uint (compare_cache_next s) < 2 ^ 31" by simp
    then have "signed_take_bit 31 (uint (compare_cache_next s)) = uint (compare_cache_next s)"
      by (intro signed_take_bit_int_eq_self) (simp_all add: order_trans [OF _ uint_nonnegative])
    then show ?thesis by (simp add: sint_uint)
  qed
  moreover have "(x mod 16 < 0) = False" for x :: int by (simp add: not_less)
  ultimately show ?thesis
    by (simp add: compare_cache_put_def kbind_get Let_def kthen_mod nat_mod_distrib compare_cache_size_def flip: zmod_int)
qed

text \<open>Remembering a comparison that held.\<close>

lemma compare_cache_put_decides:
  assumes "cache_sound s" "unat (compare_cache_next s) + 1 < 2 ^ 31" "label_leq s cmp l1 l2"
    "ko_find s lhs = Some l1" "ko_find s rhs = Some l2"
  shows "decides 1 (compare_cache_put lhs rhs cmp) s True"
proof -
  let ?n = "compare_cache_next s"
  let ?s' = "s\<lparr> compare_cache_next := ?n + 1, compare_cache := (compare_cache s)[unat ?n mod compare_cache_size :=
      \<lparr> cc_lhs = lhs, cc_rhs = rhs, cc_cmp = Some cmp \<rparr>] \<rparr>"
  have n: "unat (?n + 1) = unat ?n + 1" using assms(2) by (simp add: unat_add_carry)
  have ch: "checks 1 s ?s'" by (simp add: checks_def n)
  have "set (compare_cache ?s') \<subseteq> insert \<lparr> cc_lhs = lhs, cc_rhs = rhs, cc_cmp = Some cmp \<rparr> (set (compare_cache s))"
    by (simp add: set_update_subset_insert)
  then have "cache_sound ?s'"
    using assms(1,3-5) unfolding cache_sound_def checks_frame(1,3) [OF ch] by (auto 0 4 dest: subsetD)
  then show ?thesis using ch assms(2) by (simp add: decides_def compare_cache_put_run)
qed

lemma returns_decides:
  assumes "returns m s (if b then Ret () else Err E_LABEL)" "cache_sound s"
  shows "decides 0 m s b"
  using assms by (auto simp: returns_def decides_def intro: reads_checks reads_cache_sound)

definition cache_hit :: "kstate \<Rightarrow> u64 \<Rightarrow> u64 \<Rightarrow> level_comparator \<Rightarrow> bool" where
  "cache_hit s a b cmp \<longleftrightarrow> (\<exists>e\<in>set (compare_cache s). cc_lhs e = a \<and> cc_rhs e = b \<and> cc_cmp e = Some cmp)"

lemma compare_cached_run:
  "compare_cached a b cmp s =
    (Ret (cache_hit s a b cmp), s)"
  by (simp add: compare_cached_def cache_hit_def)

lemma compare_cached_leq:
  assumes "cache_sound s" "ko_find s a = Some p" "ko_find s b = Some q"
    "cache_hit s a b cmp"
  shows "label_leq s cmp p q"
  using assms by (auto simp: cache_sound_def cache_hit_def)

lemma decides_kret: "cache_sound s \<Longrightarrow> decides n (kret ()) s True"
  by (auto simp: decides_def kret_def checks_def)

lemma decides_mono: "decides n m s b \<Longrightarrow> n \<le> k \<Longrightarrow> decides k m s b"
  by (auto simp: decides_def intro: checks_mono)

lemma label_compare_decides:
  assumes "cache_sound s" "label_named s a p" "label_named s b q" "unat (compare_cache_next s) + 1 < 2 ^ 31"
  shows "decides 1 (label_compare p q cmp True) s (label_leq s cmp p q)"
proof -
  have wf: "label_wf s p" "label_wf s q" and f: "ko_find s a = Some p" "ko_find s b = Some q"
    using assms(2,3) by (simp_all add: label_named_def)
  have ids: "ko_id (hdr (ks_obj s p)) = a" "ko_id (hdr (ks_obj s q)) = b"
    using f by (auto simp: ko_find_def find_Some_iff)
  have nz: "p \<noteq> 0" "q \<noteq> 0" using wf by (simp_all add: label_wf_def)
  show ?thesis
  proof (cases "cache_hit s a b cmp")
    case True
    have "label_compare p q cmp True s = (Ret (), s)"
      using True by (simp add: label_compare_body [OF nz] hd_of_def kbind_get kbind_def ids compare_cached_run kret_def)
    then show ?thesis
      using decides_kret [OF assms(1), of 1] compare_cached_leq [OF assms(1) f True] by (simp add: decides_def kret_def)
  next
    case False
    let ?m = "kthen (compare_body p q cmp) (compare_cache_put a b cmp)"
    have run: "label_compare p q cmp True s = ?m s"
      using False by (simp add: label_compare_body [OF nz] hd_of_def kbind_get kbind_def ids compare_cached_run)
    have "decides (0 + 1) ?m s (label_leq s cmp p q \<and> True)"
    proof (rule decides_kthen)
      show "decides 0 (compare_body p q cmp) s (label_leq s cmp p q)"
        using compare_body_returns [OF wf] assms(1) by (rule returns_decides)
      fix s' assume s': "checks 0 s s'" "cache_sound s'" "label_leq s cmp p q"
      have "unat (compare_cache_next s') + 1 < 2 ^ 31" using s'(1) assms(4) by (simp add: checks_def)
      then show "decides 1 (compare_cache_put a b cmp) s' True"
        using compare_cache_put_decides [OF s'(2)] s'(3) f checks_frame(1,3) [OF s'(1)] by simp
    qed
    then show ?thesis using run by (simp add: decides_def)
  qed
qed

text \<open>
  C9: comparing two labels decides the pointwise order of the functions from categories to levels that they
  denote, for both comparators: the result is 0 if the first is below the second at every category
  and \<open>E_LABEL\<close> otherwise. Without the cache nothing but cached parent pointers and shared-mapping flags changes; with the cache, if
  what it holds is true and its counter has not reached the end of its range, the answer is the same, at most one entry is added and all it holds stays true.
\<close>

theorem label_compare_pointwise:
  assumes "label_wf s l1" "label_wf s l2"
    "cacheable \<Longrightarrow> cache_sound s \<and> label_named s a l1 \<and> label_named s b l2 \<and> unat (compare_cache_next s) + 1 < 2 ^ 31"
  shows "\<exists>s'. label_compare l1 l2 cmp cacheable s =
      (if \<forall>h. comparator_gen cmp (label_fun s l1 h) (label_fun s l2 h) then Ret () else Err E_LABEL, s') \<and>
    (if cacheable then checks 1 s s' \<and> cache_sound s' else reads s s')"
  unfolding label_leq_def [symmetric]
proof (cases cacheable)
  case True
  then show "\<exists>s'. label_compare l1 l2 cmp cacheable s = (if label_leq s cmp l1 l2 then Ret () else Err E_LABEL, s') \<and>
    (if cacheable then checks 1 s s' \<and> cache_sound s' else reads s s')"
    using label_compare_decides [of s a l1 b l2 cmp] assms(3) by (simp add: decides_def)
next
  case False
  then show "\<exists>s'. label_compare l1 l2 cmp cacheable s = (if label_leq s cmp l1 l2 then Ret () else Err E_LABEL, s') \<and>
    (if cacheable then checks 1 s s' \<and> cache_sound s' else reads s s')"
    using label_compare_uncached [OF assms(1,2), of cmp] by (simp add: returns_def)
qed

lemma label_named_get:
  assumes "label_named s kid p"
  shows "kobject_get_via chk kid kobj_label s = (Ret p, s)"
  using assms
  by (simp add: label_named_def kobject_get_via_def kobject_translate_id_def kbind_def kret_def hd_of_def kthen_case)

lemma label_compare_id_decides:
  assumes "cache_sound s" "label_named s a p" "label_named s b q" "unat (compare_cache_next s) + 1 < 2 ^ 31"
  shows "decides 1 (label_compare_id a b cmp) s (label_leq s cmp p q)"
proof (cases "cache_hit s a b cmp")
  case True
  then have "label_compare_id a b cmp s = (Ret (), s)"
    by (simp add: label_compare_id_def kbind_def compare_cached_run kret_def)
  moreover have "label_leq s cmp p q"
    using assms(2,3) compare_cached_leq [OF assms(1) _ _ True] by (simp add: label_named_def)
  ultimately show ?thesis using decides_kret [OF assms(1), of 1] by (simp add: decides_def kret_def)
next
  case False
  then have "label_compare_id a b cmp s = label_compare p q cmp True s"
    by (simp add: label_compare_id_def kbind_def compare_cached_run label_named_get [OF assms(2)] label_named_get [OF assms(3)])
  then show ?thesis using label_compare_decides [OF assms] by (simp add: decides_def)
qed

subsection \<open>The information flow check\<close>

definition lab :: "kstate \<Rightarrow> ptr \<Rightarrow> kolabel \<Rightarrow> ptr" where
  "lab s p idx = the (ko_find s (ko_label (hdr (ks_obj s p)) idx))"

definition has_label :: "kstate \<Rightarrow> ptr \<Rightarrow> kolabel \<Rightarrow> bool" where
  "has_label s p idx \<longleftrightarrow> ko_label (hdr (ks_obj s p)) idx \<noteq> 0 \<and> label_named s (ko_label (hdr (ks_obj s p)) idx) (lab s p idx)"

text \<open>Which flows the labels of thread \<open>t\<close> and object \<open>ko\<close> allow.\<close>

definition flow_ok :: "kstate \<Rightarrow> ptr \<Rightarrow> ptr \<Rightarrow> info_flow_type \<Rightarrow> bool" where
  "flow_ok s t ko iflow = (case iflow of
       iflow_none \<Rightarrow> True
     | iflow_read \<Rightarrow> label_leq s label_leq_starhi (lab s ko kolabel_tracking) (lab s t kolabel_tracking)
     | iflow_rw \<Rightarrow> label_leq s label_leq_starlo (lab s t kolabel_tracking) (lab s ko kolabel_tracking) \<and>
         label_leq s label_leq_starhi (lab s ko kolabel_tracking) (lab s t kolabel_tracking)
     | iflow_alloc \<Rightarrow> label_leq s label_leq_starlo (lab s t kolabel_tracking) (lab s ko kolabel_tracking) \<and>
         (if ko_label (hdr (ks_obj s ko)) kolabel_clearance \<noteq> 0
          then label_leq s label_leq_starlo (lab s ko kolabel_tracking) (lab s ko kolabel_clearance) \<and>
               label_leq s label_leq_starlo (lab s ko kolabel_clearance) (lab s t kolabel_clearance)
          else label_leq s label_leq_starlo (lab s ko kolabel_tracking) (lab s t kolabel_clearance)))"

text \<open>The labels of the current thread and of the object are in core, the cache is sound and its counter not about to overflow.\<close>

definition iflow_ready :: "kstate \<Rightarrow> ptr \<Rightarrow> bool" where
  "iflow_ready s ko \<longleftrightarrow> cache_sound s \<and> unat (compare_cache_next s) + 3 < 2 ^ 31 \<and>
     cur_thread s \<noteq> 0 \<and> has_label s (cur_thread s) kolabel_tracking \<and> has_label s (cur_thread s) kolabel_clearance \<and>
     has_label s ko kolabel_tracking \<and>
     (ko_label (hdr (ks_obj s ko)) kolabel_clearance \<noteq> 0 \<longrightarrow> has_label s ko kolabel_clearance)"

lemma compare_labels_decides:
  assumes "cache_sound s" "has_label s p i" "has_label s q j" "unat (compare_cache_next s) + 1 < 2 ^ 31"
  shows "decides 1 (label_compare_id (ko_label (hdr (ks_obj s p)) i) (ko_label (hdr (ks_obj s q)) j) cmp) s
    (label_leq s cmp (lab s p i) (lab s q j))"
  using assms by (intro label_compare_id_decides) (simp_all add: has_label_def)

lemma compare_labels_later:
  assumes "checks n s s'" "cache_sound s'" "has_label s p i" "has_label s q j"
    "unat (compare_cache_next s) + n + 1 < 2 ^ 31"
  shows "decides 1 (label_compare_id (ko_label (hdr (ks_obj s p)) i) (ko_label (hdr (ks_obj s q)) j) cmp) s'
    (label_leq s cmp (lab s p i) (lab s q j))"
proof -
  note f = checks_frame [OF assms(1)]
  have "lab s' = lab s" by (simp add: fun_eq_iff lab_def f)
  then have "has_label s' p i" "has_label s' q j" "unat (compare_cache_next s') + 1 < 2 ^ 31"
    using assms by (simp_all add: has_label_def f checks_def)
  then show ?thesis
    using compare_labels_decides [OF assms(2), of p i q j cmp] \<open>lab s' = lab s\<close> by (simp add: f)
qed

abbreviation idof :: "kstate \<Rightarrow> ptr \<Rightarrow> kolabel \<Rightarrow> u64" where
  "idof s p i \<equiv> ko_label (hdr (ks_obj s p)) i"

lemma iflow_check_run:
  assumes "iflow_ready s ko"
  shows "kobject_iflow_check ko iflow s = (case iflow of
      iflow_none \<Rightarrow> kret ()
    | iflow_read \<Rightarrow> label_compare_id (idof s ko kolabel_tracking) (idof s (cur_thread s) kolabel_tracking) label_leq_starhi
    | iflow_rw \<Rightarrow>
        if has_flag (ko_flags (hdr (ks_obj s ko))) KOBJ_READONLY then kerr E_READ_ONLY
        else kthen (label_compare_id (idof s (cur_thread s) kolabel_tracking) (idof s ko kolabel_tracking) label_leq_starlo)
               (label_compare_id (idof s ko kolabel_tracking) (idof s (cur_thread s) kolabel_tracking) label_leq_starhi)
    | iflow_alloc \<Rightarrow>
        kthen (label_compare_id (idof s (cur_thread s) kolabel_tracking) (idof s ko kolabel_tracking) label_leq_starlo)
          (if idof s ko kolabel_clearance \<noteq> 0
           then kthen (label_compare_id (idof s ko kolabel_tracking) (idof s ko kolabel_clearance) label_leq_starlo)
                  (label_compare_id (idof s ko kolabel_clearance) (idof s (cur_thread s) kolabel_clearance) label_leq_starlo)
           else label_compare_id (idof s ko kolabel_tracking) (idof s (cur_thread s) kolabel_clearance) label_leq_starlo)) s"
  using assms by (simp add: kobject_iflow_check_def iflow_ready_def has_label_def kbind_def hd_of_def Let_def
      split: info_flow_type.split)

lemma flow_decides:
  assumes "iflow_ready s ko"
  shows "decides 3 (label_compare_id (idof s ko kolabel_tracking) (idof s (cur_thread s) kolabel_tracking) label_leq_starhi) s
      (flow_ok s (cur_thread s) ko iflow_read)"
    "decides 3 (kthen (label_compare_id (idof s (cur_thread s) kolabel_tracking) (idof s ko kolabel_tracking) label_leq_starlo)
      (label_compare_id (idof s ko kolabel_tracking) (idof s (cur_thread s) kolabel_tracking) label_leq_starhi)) s
      (flow_ok s (cur_thread s) ko iflow_rw)"
    "decides 3 (kthen (label_compare_id (idof s (cur_thread s) kolabel_tracking) (idof s ko kolabel_tracking) label_leq_starlo)
       (if idof s ko kolabel_clearance \<noteq> 0
        then kthen (label_compare_id (idof s ko kolabel_tracking) (idof s ko kolabel_clearance) label_leq_starlo)
               (label_compare_id (idof s ko kolabel_clearance) (idof s (cur_thread s) kolabel_clearance) label_leq_starlo)
        else label_compare_id (idof s ko kolabel_tracking) (idof s (cur_thread s) kolabel_clearance) label_leq_starlo)) s
      (flow_ok s (cur_thread s) ko iflow_alloc)"
proof -
  let ?t = "cur_thread s" and ?T = kolabel_tracking and ?C = kolabel_clearance
  have cs: "cache_sound s" and hl: "has_label s ?t ?T" "has_label s ?t ?C" "has_label s ko ?T"
    and c: "idof s ko ?C \<noteq> 0 \<Longrightarrow> has_label s ko ?C" and n: "unat (compare_cache_next s) + 3 < 2 ^ 31"
    using assms by (simp_all add: iflow_ready_def)
  have n1: "unat (compare_cache_next s) + 1 < 2 ^ 31" "unat (compare_cache_next s) + 1 + 1 < 2 ^ 31"
    "unat (compare_cache_next s) + (1 + 1) + 1 < 2 ^ 31" using n by simp_all
  note d = compare_labels_decides [OF cs _ _ n1(1)] and d1 = compare_labels_later [OF _ _ _ _ n1(2)]
  show "decides 3 (label_compare_id (idof s ko ?T) (idof s ?t ?T) label_leq_starhi) s (flow_ok s ?t ko iflow_read)"
    unfolding flow_ok_def info_flow_type.case by (rule decides_mono [OF d [OF hl(3,1)]]) simp
  show "decides 3 (kthen (label_compare_id (idof s ?t ?T) (idof s ko ?T) label_leq_starlo)
      (label_compare_id (idof s ko ?T) (idof s ?t ?T) label_leq_starhi)) s (flow_ok s ?t ko iflow_rw)"
    unfolding flow_ok_def info_flow_type.case
    by (rule decides_mono [OF decides_kthen [OF d [OF hl(1,3)] d1 [OF _ _ hl(3,1)]]]) simp_all
  have alloc: "decides (1 + 1) (kthen (label_compare_id (idof s ?t ?T) (idof s ko ?T) label_leq_starlo)
      (label_compare_id (idof s ko ?T) (idof s ?t ?C) label_leq_starlo)) s
      (label_leq s label_leq_starlo (lab s ?t ?T) (lab s ko ?T) \<and> label_leq s label_leq_starlo (lab s ko ?T) (lab s ?t ?C))"
    by (rule decides_kthen [OF d [OF hl(1,3)] d1 [OF _ _ hl(3,2)]])
  have allocc: "decides (1 + 1 + 1) (kthen (kthen (label_compare_id (idof s ?t ?T) (idof s ko ?T) label_leq_starlo)
      (label_compare_id (idof s ko ?T) (idof s ko ?C) label_leq_starlo))
      (label_compare_id (idof s ko ?C) (idof s ?t ?C) label_leq_starlo)) s
      ((label_leq s label_leq_starlo (lab s ?t ?T) (lab s ko ?T) \<and> label_leq s label_leq_starlo (lab s ko ?T) (lab s ko ?C)) \<and>
        label_leq s label_leq_starlo (lab s ko ?C) (lab s ?t ?C))" if "idof s ko ?C \<noteq> 0"
    by (rule decides_kthen [OF decides_kthen [OF d [OF hl(1,3)] d1 [OF _ _ hl(3) c [OF that]]]
          compare_labels_later [OF _ _ c [OF that] hl(2) n1(3)]])
  show "decides 3 (kthen (label_compare_id (idof s ?t ?T) (idof s ko ?T) label_leq_starlo)
       (if idof s ko ?C \<noteq> 0
        then kthen (label_compare_id (idof s ko ?T) (idof s ko ?C) label_leq_starlo)
               (label_compare_id (idof s ko ?C) (idof s ?t ?C) label_leq_starlo)
        else label_compare_id (idof s ko ?T) (idof s ?t ?C) label_leq_starlo)) s (flow_ok s ?t ko iflow_alloc)"
    using decides_mono [OF alloc, of 3] allocc
    by (cases "idof s ko ?C = 0") (simp_all add: flow_ok_def kthen_assoc numeral_3_eq_3)
qed

lemma iflow_check_decides:
  assumes "iflow_ready s ko"
  shows "iflow = iflow_rw \<and> has_flag (ko_flags (hdr (ks_obj s ko))) KOBJ_READONLY \<and>
      kobject_iflow_check ko iflow s = (Err E_READ_ONLY, s) \<or>
    \<not> (iflow = iflow_rw \<and> has_flag (ko_flags (hdr (ks_obj s ko))) KOBJ_READONLY) \<and>
      decides 3 (kobject_iflow_check ko iflow) s (flow_ok s (cur_thread s) ko iflow)"
  using flow_decides [OF assms] iflow_check_run [OF assms, of iflow] decides_kret [of s 3] assms
  by (cases iflow) (auto simp: decides_def kerr_def iflow_ready_def flow_ok_def)

text \<open>
  C2: the information flow check. With the labels in core and a sound comparison cache,
  \<open>kobject_iflow_check\<close> returns 0 exactly if the label order allows the flow between the current
  thread and the object: to read, the object's label must be below the thread's with \<open>*\<close> highest; to write, also the
  thread's below the object's with \<open>*\<close> lowest; to allocate, the new object must lie between the thread's label and clearance. A write to a read-only
  object is refused with its own error. The cache stays sound and nothing else of interest changes.
\<close>

theorem kobject_iflow_check_exact:
  assumes "iflow_ready s ko"
  shows "\<exists>s'. kobject_iflow_check ko iflow s =
      (if iflow = iflow_rw \<and> has_flag (ko_flags (hdr (ks_obj s ko))) KOBJ_READONLY then Err E_READ_ONLY
       else if flow_ok s (cur_thread s) ko iflow then Ret () else Err E_LABEL, s') \<and>
    checks 3 s s' \<and> cache_sound s'"
proof -
  have "checks 3 s s" "cache_sound s" using assms by (simp_all add: checks_def iflow_ready_def)
  then show ?thesis using iflow_check_decides [OF assms, of iflow] by (auto simp: decides_def)
qed

text \<open>
  What \<open>kobject_get\<close> promises about the object it returns. The reserved id of the thread-local segment stands for the
  id that the current thread has for it.
\<close>

definition real_id :: "kstate \<Rightarrow> u64 \<Rightarrow> u64" where
  "real_id s kid = (if kid = kobject_id_thread_sg then th_sg (th (ks_obj s (cur_thread s))) else kid)"

lemma real_id_plain: "kid \<noteq> kobject_id_thread_sg \<Longrightarrow> real_id s kid = kid"
  by (simp add: real_id_def)

lemma kobject_get_returned:
  assumes "kobject_get kid ty iflow s = (Ret ko, s')"
  shows "ko_find s (real_id s kid) = Some ko \<and> ko_ref (hdr (ks_obj s ko)) \<noteq> 0 \<and>
    (if ko_type (hdr (ks_obj s ko)) = kobj_label then s' = s else kobject_iflow_check ko iflow s = (Ret (), s')) \<and>
    (ty = kobj_any \<or> ty = ko_type (hdr (ks_obj s ko)))"
  using assms
  by (auto simp: kobject_get_def kobject_get_via_def kobject_translate_id_def real_id_def kbind_def kret_def kerr_def kthen_case hd_of_def kpanic_def
      split: option.splits if_splits outcome.splits prod.splits)

lemma kobject_get_found:
  assumes "kobject_get kid ty iflow s = (Ret ko, s')" "kid \<noteq> kobject_id_thread_sg"
  shows "ko_find s kid = Some ko \<and> ko_ref (hdr (ks_obj s ko)) \<noteq> 0 \<and>
    (ko_type (hdr (ks_obj s ko)) = kobj_label \<and> s' = s \<or>
     kobject_iflow_check ko iflow s = (Ret (), s')) \<and>
    (ty = kobj_any \<or> ty = ko_type (hdr (ks_obj s ko)))"
  using kobject_get_returned [OF assms(1)] assms(2) by (auto simp: real_id_plain split: if_splits)

text \<open>
  C3: an object comes out of \<open>kobject_get\<close> only if it is the object of that id in core (for the reserved id of the thread-local segment, the
  segment of the current thread), still referenced and of the type asked for. Unless it is a label, which anybody may look at, the labels then allow the current
  thread the flow asked for, and a read-only object is never returned for writing. For an object that is no label, its labels and the thread's are
  in core, the comparison cache holds only what is true, and the counter of the cache is not at the end of its range (\<open>iflow_ready\<close>).
\<close>

theorem kobject_get_authorized:
  assumes "kobject_get kid ty iflow s = (Ret ko, s')" "ko_type (hdr (ks_obj s ko)) \<noteq> kobj_label \<longrightarrow> iflow_ready s ko"
  shows "ko_find s (real_id s kid) = Some ko \<and> ko_ref (hdr (ks_obj s ko)) \<noteq> 0 \<and>
    (ty = kobj_any \<or> ty = ko_type (hdr (ks_obj s ko))) \<and>
    (ko_type (hdr (ks_obj s ko)) = kobj_label \<or> flow_ok s (cur_thread s) ko iflow \<and>
      (iflow = iflow_rw \<longrightarrow> \<not> has_flag (ko_flags (hdr (ks_obj s ko))) KOBJ_READONLY))"
  using kobject_get_returned [OF assms(1)] assms(2) iflow_check_decides [of s ko iflow]
  by (auto simp: decides_def split: if_splits)

lemma flow_levels:
  assumes "label_leq_starhi_fn a t" "label_leq_starlo_fn t b" "t \<noteq> LB_LEVEL_STAR"
  shows "a \<le> b \<and> b \<noteq> LB_LEVEL_STAR"
  using assms by (auto simp: label_leq_starhi_fn_def label_leq_starlo_fn_def split: if_splits)

lemma flow_ok_frame:
  assumes "checks n s s'"
  shows "flow_ok s' t ko iflow = flow_ok s t ko iflow" "lab s' = lab s"
proof -
  show "lab s' = lab s" by (simp add: fun_eq_iff lab_def checks_frame [OF assms])
  then show "flow_ok s' t ko iflow = flow_ok s t ko iflow"
    by (simp add: flow_ok_def checks_frame [OF assms] split: info_flow_type.split)
qed

lemma kobject_get_grants:
  assumes "ko_find s kid = Some ko" "kid \<noteq> kobject_id_thread_sg" "ko_ref (hdr (ks_obj s ko)) \<noteq> 0"
    "ko_type (hdr (ks_obj s ko)) = ty" "ty \<noteq> kobj_label" "iflow_ready s ko" "flow_ok s (cur_thread s) ko iflow"
    "\<not> has_flag (ko_flags (hdr (ks_obj s ko))) KOBJ_READONLY"
  shows "\<exists>s'. kobject_get kid ty iflow s = (Ret ko, s') \<and> checks 3 s s' \<and> cache_sound s'"
proof -
  obtain s' where "kobject_iflow_check ko iflow s = (Ret (), s')" "checks 3 s s'" "cache_sound s'"
    using iflow_check_decides [OF assms(6), of iflow] assms(7,8) by (auto simp: decides_def)
  then show ?thesis using assms
    by (simp add: kobject_get_def kobject_get_via_def kobject_translate_id_def kbind_def kret_def kthen_case hd_of_def)
qed

lemma iflow_ready_later:
  assumes "iflow_ready s ko" "checks 3 s s'" "cache_sound s'" "unat (compare_cache_next s) + 6 < 2 ^ 31"
  shows "iflow_ready s' ko"
proof -
  have "has_label s' = has_label s"
    by (simp add: fun_eq_iff has_label_def checks_frame [OF assms(2)] flow_ok_frame(2) [OF assms(2)])
  moreover have "unat (compare_cache_next s') + 3 < 2 ^ 31" using assms(2,4) by (simp add: checks_def)
  ultimately show ?thesis using assms(1,3) by (simp add: iflow_ready_def checks_frame [OF assms(2)])
qed

text \<open>
  C1: confinement. If the current thread gets one object for reading and then another for writing, then
  at every category that the thread does not own (where its level is not \<open>*\<close>) the level of the object read is at most
  the level of the object written: information only flows to places that are at least as tainted.
\<close>

theorem thread_confinement:
  assumes "kobject_get a tya iflow_read s = (Ret A, s1)" "kobject_get b tyb iflow_rw s1 = (Ret B, s2)"
    "a \<noteq> kobject_id_thread_sg" "b \<noteq> kobject_id_thread_sg"
    "ko_type (hdr (ks_obj s A)) \<noteq> kobj_label" "ko_type (hdr (ks_obj s1 B)) \<noteq> kobj_label"
    "iflow_ready s A" "iflow_ready s1 B" "label_fun s (lab s (cur_thread s) kolabel_tracking) h \<noteq> LB_LEVEL_STAR"
  shows "label_fun s (lab s A kolabel_tracking) h \<le> label_fun s (lab s B kolabel_tracking) h \<and>
    label_fun s (lab s B kolabel_tracking) h \<noteq> LB_LEVEL_STAR"
proof -
  let ?t = "cur_thread s"
  have A: "kobject_iflow_check A iflow_read s = (Ret (), s1)"
    using kobject_get_found [OF assms(1,3)] assms(5) by simp
  then have ch: "checks 3 s s1" and fA: "flow_ok s ?t A iflow_read"
    using iflow_check_decides [OF assms(7), of iflow_read] by (auto simp: decides_def split: if_splits)
  have "kobject_iflow_check B iflow_rw s1 = (Ret (), s2)"
    using kobject_get_found [OF assms(2,4)] assms(6) by simp
  then have "flow_ok s1 (cur_thread s1) B iflow_rw"
    using iflow_check_decides [OF assms(8), of iflow_rw] by (auto simp: decides_def split: if_splits)
  then have "flow_ok s ?t B iflow_rw" using flow_ok_frame [OF ch] checks_frame(6) [OF ch] by simp
  then show ?thesis using fA by (intro flow_levels [OF _ _ assms(9)]) (simp_all add: flow_ok_def label_leq_def)
qed

text \<open>
  C30: the counter that picks the next entry of the comparison cache is a signed 32-bit integer that is never reset. Once it has
  wrapped to a negative value that is not a multiple of 16, the first successful comparison of two
  labels that is not in the cache stores outside the array.
\<close>

theorem compare_cache_next_wraps:
  assumes "label_wf s p" "label_wf s q" "label_leq s cmp p q"
    "\<not> cache_hit s (ko_id (hdr (ks_obj s p))) (ko_id (hdr (ks_obj s q))) cmp"
    "sint (compare_cache_next s) < 0" "- sint (compare_cache_next s) mod 16 \<noteq> 0"
  shows "fst (label_compare p q cmp True s) = Panic"
proof -
  have nz: "p \<noteq> 0" "q \<noteq> 0" using assms(1,2) by (simp_all add: label_wf_def)
  let ?a = "ko_id (hdr (ks_obj s p))" and ?b = "ko_id (hdr (ks_obj s q))"
  have run: "label_compare p q cmp True s = kthen (compare_body p q cmp) (compare_cache_put ?a ?b cmp) s"
    using assms(4) by (simp add: label_compare_body [OF nz] hd_of_def kbind_get kbind_def compare_cached_run)
  obtain s1 where s1: "compare_body p q cmp s = (Ret (), s1)" "reads s s1"
    using compare_body_returns [OF assms(1,2), of cmp] assms(3) by (auto simp: returns_def)
  have "0 < - sint (compare_cache_next s) mod 16"
    using assms(6) pos_mod_sign [of 16 "- sint (compare_cache_next s)"] by (metis order_le_imp_less_or_eq zero_less_numeral)
  then have "fst (compare_cache_put ?a ?b cmp s1) = Panic"
    using assms(5) s1(2)
    by (simp add: compare_cache_put_def kbind_get Let_def kthen_mod reads_frame compare_cache_size_def kpanic_def)
  then show ?thesis using run s1(1) by (simp add: kthen_case)
qed

subsection \<open>A concrete machine state\<close>

text \<open>
  A thread that owns category 7, two segments tainted with it in a container that is tainted as well, and their labels.
\<close>

definition flow_state :: kstate where
  "flow_state = kstate0\<lparr>
     ks_obj := (ks_obj kstate0)(
       3 := kobject0\<lparr> hdr := hdr0\<lparr> ko_id := 20, ko_ref := 1, ko_type := kobj_thread,
              ko_label := (\<lambda>_. 0)(kolabel_tracking := 12, kolabel_clearance := 13) \<rparr> \<rparr>,
       4 := kobject0\<lparr> hdr := hdr0\<lparr> ko_id := 21, ko_ref := 1, ko_type := kobj_segment, ko_label := (\<lambda>_. 0)(kolabel_tracking := 11),
              ko_parent := 23, ko_quota_total := 1024, ko_quota_used := 1000 \<rparr> \<rparr>,
       9 := kobject0\<lparr> hdr := hdr0\<lparr> ko_id := 23, ko_ref := 1, ko_type := kobj_container, ko_label := (\<lambda>_. 0)(kolabel_tracking := 11),
              ko_quota_total := 10000, ko_quota_used := 2000 \<rparr>,
              ct := container0\<lparr> ct_slots := (ct_slots container0)[0 := \<lparr> cs_id = 21, cs_ref = 1 \<rparr>, 1 := \<lparr> cs_id = 22, cs_ref = 1 \<rparr>] \<rparr> \<rparr>,
       8 := kobject0\<lparr> hdr := hdr0\<lparr> ko_id := 22, ko_ref := 1, ko_type := kobj_segment, ko_label := (\<lambda>_. 0)(kolabel_tracking := 11) \<rparr> \<rparr>,
       5 := label_obj 11 [LB_CODE 7 3] 1, 6 := label_obj 12 [LB_CODE 7 4] 1, 7 := label_obj 13 [] 2),
     ko_hash := (\<lambda>_. [])(11 := [5], 12 := [6], 13 := [7], 20 := [3], 21 := [4], 22 := [8], 23 := [9]),
     ko_list := [3, 4, 5, 6, 7, 8, 9],
     cur_thread := 3 \<rparr>"

lemma flow_state_find:
  "ko_find flow_state 11 = Some 5" "ko_find flow_state 12 = Some 6" "ko_find flow_state 13 = Some 7"
  "ko_find flow_state 21 = Some 4" "ko_find flow_state 22 = Some 8" "ko_find flow_state 23 = Some 9"
  by (simp_all add: ko_find_def ko_chain_def flow_state_def kobj_hash_size_def label_obj_def)

lemma words_ok_nil: "words_ok []"
  by (simp add: words_ok_def)

lemma flow_state_wf: "label_wf flow_state 5" "label_wf flow_state 6" "label_wf flow_state 7"
  by (rule label_obj_wf, simp add: flow_state_def, simp_all add: words_ok_code words_ok_nil LB_LEVEL_STAR_def)+

lemma flow_state_named: "label_named flow_state 11 5" "label_named flow_state 12 6" "label_named flow_state 13 7"
  unfolding label_named_def flow_state_find
  by (simp_all add: flow_state_wf kobject_id_thread_sg_def) (simp_all add: flow_state_def label_obj_def)

lemma flow_state_hdr:
  "cur_thread flow_state = 3" "idof flow_state 3 kolabel_tracking = 12" "idof flow_state 3 kolabel_clearance = 13"
  "idof flow_state 4 kolabel_tracking = 11" "idof flow_state 8 kolabel_tracking = 11" "idof flow_state 4 kolabel_clearance = 0"
  "idof flow_state 8 kolabel_clearance = 0" "compare_cache_next flow_state = 0"
  "ko_ref (hdr (ks_obj flow_state 4)) = 1" "ko_ref (hdr (ks_obj flow_state 8)) = 1"
  "ko_type (hdr (ks_obj flow_state 4)) = kobj_segment" "ko_type (hdr (ks_obj flow_state 8)) = kobj_segment"
  "ko_flags (hdr (ks_obj flow_state 4)) = 0" "ko_flags (hdr (ks_obj flow_state 8)) = 0"
  "idof flow_state 9 kolabel_tracking = 11" "idof flow_state 9 kolabel_clearance = 0" "ko_ref (hdr (ks_obj flow_state 9)) = 1"
  "ko_type (hdr (ks_obj flow_state 9)) = kobj_container" "ko_flags (hdr (ks_obj flow_state 9)) = 0"
  by (simp_all add: flow_state_def hdr0_def kstate0_def)

lemma flow_state_ready: "iflow_ready flow_state 4" "iflow_ready flow_state 8" "iflow_ready flow_state 9"
proof -
  have "cache_sound flow_state"
    by (auto simp: cache_sound_def flow_state_def kstate0_def)
  then show "iflow_ready flow_state 4" "iflow_ready flow_state 8" "iflow_ready flow_state 9"
    by (simp_all add: iflow_ready_def has_label_def lab_def flow_state_hdr flow_state_find flow_state_named)
qed

lemma flow_state_labels:
  "label_fun flow_state 5 = words_fun [LB_CODE 7 3] 1" "label_fun flow_state 6 = words_fun [LB_CODE 7 4] 1"
  by (rule label_obj_words, simp add: flow_state_def, simp)+

lemma flow_state_leq: "label_leq flow_state label_leq_starhi 5 6" "label_leq flow_state label_leq_starlo 6 5"
  by (simp_all add: label_leq_def flow_state_labels words_fun_def label_leq_starhi_fn_def label_leq_starlo_fn_def
      LB_CODE_def LB_LEVEL_def LB_HANDLE_def LB_LEVEL_STAR_def)

lemma flow_state_ok: "flow_ok flow_state 3 4 iflow_read" "flow_ok flow_state 3 8 iflow_rw" "flow_ok flow_state 3 8 iflow_read"
  "flow_ok flow_state 3 9 iflow_rw" "flow_ok flow_state 3 9 iflow_read"
  by (simp_all add: flow_ok_def lab_def flow_state_hdr flow_state_find flow_state_leq)

theorem label_compare_pointwise_witness:
  "fst (label_compare 5 6 label_leq_starhi True flow_state) = Ret () \<and>
   fst (label_compare 6 5 label_leq_starhi False flow_state) = Err E_LABEL"
proof -
  have "cache_sound flow_state" using flow_state_ready(1) by (simp add: iflow_ready_def)
  then have "fst (label_compare 5 6 label_leq_starhi True flow_state) = Ret ()"
    using label_compare_pointwise [OF flow_state_wf(1,2), of True 11 12 label_leq_starhi] flow_state_leq(1)
    by (auto simp: flow_state_named flow_state_hdr label_leq_def)
  moreover have "\<not> comparator_gen label_leq_starhi (label_fun flow_state 6 7) (label_fun flow_state 5 7)"
    by (simp add: flow_state_labels words_fun_def label_leq_starhi_fn_def LB_CODE_def LB_LEVEL_def LB_HANDLE_def LB_LEVEL_STAR_def)
  then have "fst (label_compare 6 5 label_leq_starhi False flow_state) = Err E_LABEL"
    using label_compare_pointwise [OF flow_state_wf(2,1), of False 12 11 label_leq_starhi] by auto
  ultimately show ?thesis by blast
qed

theorem kobject_iflow_check_exact_witness:
  "fst (kobject_iflow_check 4 iflow_read flow_state) = Ret ()"
  using kobject_iflow_check_exact [OF flow_state_ready(1), of iflow_read] by (auto simp: flow_state_hdr flow_state_ok)

lemma flow_state_get:
  "\<exists>s'. kobject_get 21 kobj_segment iflow_read flow_state = (Ret 4, s') \<and> checks 3 flow_state s' \<and> cache_sound s'"
  by (rule kobject_get_grants) (simp_all add: flow_state_find flow_state_hdr flow_state_ready flow_state_ok kobject_id_thread_sg_def has_flag_def)

theorem kobject_get_authorized_witness:
  "flow_ok flow_state 3 4 iflow_read \<and> fst (kobject_get 21 kobj_segment iflow_read flow_state) = Ret 4"
proof -
  obtain s' where s': "kobject_get 21 kobj_segment iflow_read flow_state = (Ret 4, s')" using flow_state_get by blast
  have "flow_ok flow_state 3 4 iflow_read"
    using kobject_get_authorized [OF s'] flow_state_ready(1) by (simp add: flow_state_hdr)
  then show ?thesis using s' by simp
qed

theorem thread_confinement_witness:
  "\<exists>s1 s2. kobject_get 21 kobj_segment iflow_read flow_state = (Ret 4, s1) \<and> kobject_get 22 kobj_segment iflow_rw s1 = (Ret 8, s2) \<and>
     label_fun flow_state (lab flow_state 4 kolabel_tracking) 9 \<le> label_fun flow_state (lab flow_state 8 kolabel_tracking) 9"
proof -
  obtain s1 where s1: "kobject_get 21 kobj_segment iflow_read flow_state = (Ret 4, s1)" "checks 3 flow_state s1" "cache_sound s1"
    using flow_state_get by blast
  note f = checks_frame [OF s1(2)] flow_ok_frame [OF s1(2)] reads_frame
  have flags: "ko_flags (hdr (ks_obj s1 8)) = 0 \<or> ko_flags (hdr (ks_obj s1 8)) = KOBJ_SHARED_MAPPINGS"
    using checks_flags [OF s1(2), of 8] by (auto simp: shared_bit_def flow_state_hdr)
  have r: "iflow_ready s1 8" by (rule iflow_ready_later [OF flow_state_ready(2) s1(2,3)]) (simp add: flow_state_hdr)
  obtain s2 where s2: "kobject_get 22 kobj_segment iflow_rw s1 = (Ret 8, s2)"
    using kobject_get_grants [of s1 22 8 kobj_segment iflow_rw] r flags
    by (auto simp: f flow_state_find flow_state_hdr flow_state_ok kobject_id_thread_sg_def has_flag_def KOBJ_READONLY_def KOBJ_SHARED_MAPPINGS_def)
  show ?thesis
    using thread_confinement [OF s1(1) s2 _ _ _ _ flow_state_ready(1) r, of 9] s1(1) s2
    by (simp add: f flow_state_hdr kobject_id_thread_sg_def lab_def flow_state_find flow_state_labels words_fun_def
        LB_CODE_def LB_LEVEL_def LB_HANDLE_def LB_LEVEL_STAR_def)
qed

definition wrapped_state :: kstate where
  "wrapped_state = two_labels\<lparr> compare_cache_next := 0x80000001 \<rparr>"

theorem compare_cache_next_wraps_witness:
  "fst (label_compare 5 6 label_leq_starhi True wrapped_state) = Panic"
proof -
  have obj: "ks_obj wrapped_state 5 = label_obj 11 [LB_CODE 7 3] 1" "ks_obj wrapped_state 6 = label_obj 12 [LB_CODE 7 4] 1"
    by (simp_all add: wrapped_state_def two_labels_def)
  note w = label_obj_words(2) [OF obj(1)] label_obj_words(2) [OF obj(2)]
  have "label_wf wrapped_state 5" "label_wf wrapped_state 6"
    by (rule label_obj_wf [OF obj(1)] label_obj_wf [OF obj(2)]; simp add: words_ok_code LB_LEVEL_STAR_def)+
  moreover have "label_leq wrapped_state label_leq_starhi 5 6"
    by (simp add: label_leq_def w words_fun_def label_leq_starhi_fn_def LB_CODE_def LB_LEVEL_def LB_HANDLE_def LB_LEVEL_STAR_def)
  moreover have "\<not> cache_hit wrapped_state (ko_id (hdr (ks_obj wrapped_state 5))) (ko_id (hdr (ks_obj wrapped_state 6))) label_leq_starhi"
    by (auto simp: cache_hit_def wrapped_state_def two_labels_def kstate0_def)
  moreover have "sint (compare_cache_next wrapped_state) = - 0x7fffffff" by (simp add: wrapped_state_def)
  ultimately show ?thesis using compare_cache_next_wraps [of wrapped_state 5 6 label_leq_starhi] by simp
qed

end
