(* ===== verification/Sync.thy ===== *)
theory Sync
  imports Threads
begin

unbundle bit_operations_syntax

text \<open>
  Waking up waiting threads, \<^verbatim>\<open>src/kern/kern/sync.c\<close>. A waiting thread has a slot for every address it
  waits on; the slots are chained in hash buckets by segment offset, and by container entry if the thread also wants to
  know when the segment goes away.

  The loops of the source walk a bucket and wake the thread of every slot that matches, which takes all slots of that thread out of
  their buckets. They go on from the slot before. The results: if no thread has two slots in the bucket, the loop ends and
  wakes exactly the threads that wait; if a thread has, the slot before may be gone, its stale
  \<^verbatim>\<open>le_next\<close> pointer is followed, and the loop need not end.
\<close>

subsection \<open>Definitions\<close>

definition sw_addr_succ :: "kstate \<Rightarrow> swloc \<Rightarrow> swloc option" where
  "sw_addr_succ s sw =
     (let w = ks_sw s sw; l = sync_addr_waiting s (sync_addr_head (sw_seg w) (sw_offset w))
      in if sw \<in> set l then list_succ l sw else sw_addr_next w)"

definition sw_cobj_succ :: "kstate \<Rightarrow> swloc \<Rightarrow> swloc option" where
  "sw_cobj_succ s sw =
     (let w = ks_sw s sw; l = sync_cobj_waiting s (sync_cobj_head (sw_cobj w))
      in if sw \<in> set l then list_succ l sw else sw_cobj_next w)"

definition list_first :: "'a list \<Rightarrow> 'a option" where
  "list_first l = (case l of [] \<Rightarrow> None | x # _ \<Rightarrow> Some x)"

text \<open>
  The loop of both wake-up functions, for a bucket \<open>bucket\<close>, its successor function and a test of slots. A bucket of
  \<open>n\<close> slots takes at most \<open>n + 1\<close> rounds if the loop ends at all.
\<close>

fun sync_wake_loop ::
  "nat \<Rightarrow> (sync_wait_slot \<Rightarrow> bool) \<Rightarrow> (kstate \<Rightarrow> swloc list) \<Rightarrow> (kstate \<Rightarrow> swloc \<Rightarrow> swloc option) \<Rightarrow>
   swloc option \<Rightarrow> swloc option \<Rightarrow> unit kernel" where
  "sync_wake_loop 0 match bucket succ prev sw = knofuel"
| "sync_wake_loop (Suc n) match bucket succ prev None = kret ()"
| "sync_wake_loop (Suc n) match bucket succ prev (Some sw) =
     kbind (kget (\<lambda>s. ks_sw s sw)) (\<lambda>w.
     if match w
     then kthen (thread_set_runnable (sw_t w))
         (kbind (kget (\<lambda>s. case prev of Some p \<Rightarrow> succ s p | None \<Rightarrow> list_first (bucket s))) (\<lambda>sw'.
          sync_wake_loop n match bucket succ prev sw'))
     else kbind (kget (\<lambda>s. succ s sw)) (\<lambda>sw'.
          sync_wake_loop n match bucket succ (Some sw) sw'))"

definition addr_bucket :: "u64 \<Rightarrow> u64 \<Rightarrow> kstate \<Rightarrow> swloc list" where
  "addr_bucket seg_id offset s = sync_addr_waiting s (sync_addr_head seg_id offset)"

definition cobj_bucket :: "cobj_ref \<Rightarrow> kstate \<Rightarrow> swloc list" where
  "cobj_bucket seg s = sync_cobj_waiting s (sync_cobj_head seg)"

text \<open>The part of \<^verbatim>\<open>sync_wakeup_addr\<close> after the address has been translated to a segment and an offset.\<close>

definition sync_wakeup_at :: "u64 \<Rightarrow> u64 \<Rightarrow> unit kernel" where
  "sync_wakeup_at seg_id offset =
     kbind (kget (addr_bucket seg_id offset)) (\<lambda>l.
     sync_wake_loop (Suc (length l)) (\<lambda>w. sw_seg w = seg_id \<and> sw_offset w = offset)
       (addr_bucket seg_id offset) sw_addr_succ None (list_first l))"

definition sync_wakeup_segment :: "cobj_ref \<Rightarrow> unit kernel" where
  "sync_wakeup_segment seg =
     kbind (kget (cobj_bucket seg)) (\<lambda>l.
     sync_wake_loop (Suc (length l)) (\<lambda>w. cobj_container (sw_cobj w) = cobj_container seg \<and>
         cobj_object (sw_cobj w) = cobj_object seg)
       (cobj_bucket seg) sw_cobj_succ None (list_first l))"

definition sync_wakeup_timer :: "unit kernel" where
  "sync_wakeup_timer =
     kbind timer_user_nsec (\<lambda>now_nsec.
     kbind (kget (\<lambda>s. thread_list s sync_time_waiting)) (\<lambda>ts.
     kfor (\<lambda>t. kbind (kget (\<lambda>s. te_wakeup_nsec (ko_th_e (ks_obj s t)))) (\<lambda>wakeup.
        kwhen (wakeup \<le> now_nsec) (thread_set_runnable t))) ts))"

subsection \<open>What waking a thread does to the buckets\<close>

definition sync_view :: "kstate \<Rightarrow> (u64 \<Rightarrow> swloc list) \<times> (u64 \<Rightarrow> swloc list) \<times> (swloc \<Rightarrow> sync_wait_slot) \<times>
    (ptr \<Rightarrow> bool \<times> swloc list)" where
  "sync_view s = (sync_addr_waiting s, sync_cobj_waiting s, ks_sw s,
     (\<lambda>p. (th_sync_waiting (th (ks_obj s p)), te_wait_slots (ko_th_e (ks_obj s p)))))"

definition same_sync :: "'a kernel \<Rightarrow> bool" where
  "same_sync m \<longleftrightarrow> (\<forall>v. keeps (\<lambda>s. sync_view s = v) m)"

lemma same_syncD: "same_sync m \<Longrightarrow> m s = (r, s') \<Longrightarrow> sync_view s' = sync_view s"
  unfolding same_sync_def by (blast dest: keepsD)

lemma same_sync_rules:
  "same_sync m \<Longrightarrow> same_sync k \<Longrightarrow> same_sync (kthen m k)"
  "same_sync n \<Longrightarrow> (\<And>a. same_sync (f a)) \<Longrightarrow> same_sync (kbind n f)"
  "same_sync w \<Longrightarrow> same_sync (kwhen b w)" "same_sync (kassert b)" "same_sync (kget g)"
  "same_sync (kret x)"
  unfolding same_sync_def by (auto intro!: kkeep)

lemma same_sync_upd_th: "(\<And>x. th_sync_waiting (f x) = th_sync_waiting x) \<Longrightarrow> same_sync (upd_th t f)"
  by (auto simp: same_sync_def keeps_def upd_th_def upd_obj_def sync_view_def fun_eq_iff)

lemma same_sync_upd_hdr: "same_sync (upd_hdr t f)"
  by (auto simp: same_sync_def keeps_def upd_hdr_def upd_obj_def sync_view_def fun_eq_iff)

lemma same_sync_kmod: "(\<And>s. sync_view (f s) = sync_view s) \<Longrightarrow> same_sync (kmod f)"
  by (simp add: same_sync_def keeps_def)

lemmas same_sync_intros = same_sync_rules same_sync_upd_th same_sync_upd_hdr

lemma same_sync_ops:
  "same_sync (kobject_dirty t)" "same_sync (thread_link t q)" "same_sync (kobject_pin_hdr t)" "same_sync (thread_pin t)"
  "same_sync (global_pass_update n)" "same_sync (sched_leave t)" "same_sync (sched_join t)" "same_sync (thread_sched_adjust t b)"
  "same_sync (thread_list_remove t)"
proof -
  show "same_sync (kobject_dirty t)" unfolding kobject_dirty_def by (intro same_sync_intros)
  show pin: "same_sync (kobject_pin_hdr t)"
    unfolding kobject_pin_hdr_def gc_list_remove_def hd_of_def
    by (intro same_sync_intros same_sync_kmod) (simp_all add: sync_view_def)
  show "same_sync (thread_pin t)" unfolding thread_pin_def obj_def by (intro same_sync_intros pin) simp
  show "same_sync (thread_link t q)"
    unfolding thread_link_def obj_def by (intro same_sync_intros same_sync_kmod) (simp_all add: sync_view_def)
  show gp: "same_sync (global_pass_update n)" for n
    unfolding global_pass_update_def karch_get_tsc_def
    by (intro same_sync_intros same_sync_kmod) (simp_all add: sync_view_def)
  show l: "same_sync (sched_leave t)" unfolding sched_leave_def
    by (intro same_sync_intros same_sync_kmod gp) (simp_all add: sync_view_def)
  show j: "same_sync (sched_join t)" unfolding sched_join_def
    by (intro same_sync_intros same_sync_kmod gp) (simp_all add: sync_view_def)
  show "same_sync (thread_sched_adjust t b)" unfolding thread_sched_adjust_def obj_def
    by (intro same_sync_intros l j) simp_all
  show "same_sync (thread_list_remove t)" unfolding thread_list_remove_def
    by (intro same_sync_kmod) (simp add: sync_view_def)
qed

text \<open>The slots a waiting thread has in the buckets, and the part of a slot that does not change while it is in one.\<close>

definition wait_slots :: "kstate \<Rightarrow> ptr \<Rightarrow> swloc list" where
  "wait_slots s t = (if th_sync_waiting (th (ks_obj s t)) then te_wait_slots (ko_th_e (ks_obj s t)) else [])"

definition slot_key :: "sync_wait_slot \<Rightarrow> u64 \<times> u64 \<times> cobj_ref \<times> ptr" where
  "slot_key w = (sw_seg w, sw_offset w, sw_cobj w, sw_t w)"

lemma slot_keyD:
  assumes "slot_key v = slot_key w"
  shows "sw_seg v = sw_seg w" "sw_offset v = sw_offset w" "sw_cobj v = sw_cobj w" "sw_t v = sw_t w"
  using assms by (simp_all add: slot_key_def)

definition sync_inv :: "kstate \<Rightarrow> bool" where
  "sync_inv s \<longleftrightarrow> (\<forall>h. distinct (sync_addr_waiting s h)) \<and> (\<forall>h. distinct (sync_cobj_waiting s h)) \<and>
     (\<forall>h. \<forall>sw\<in>set (sync_addr_waiting s h). sync_addr_head (sw_seg (ks_sw s sw)) (sw_offset (ks_sw s sw)) = h \<and>
        sw \<in> set (wait_slots s (sw_t (ks_sw s sw)))) \<and>
     (\<forall>h. \<forall>sw\<in>set (sync_cobj_waiting s h). cobj_object (sw_cobj (ks_sw s sw)) \<noteq> 0 \<and>
        sync_cobj_head (sw_cobj (ks_sw s sw)) = h \<and> sw \<in> set (wait_slots s (sw_t (ks_sw s sw)))) \<and>
     (\<forall>t. \<forall>sw\<in>set (wait_slots s t). sw_t (ks_sw s sw) = t \<and> t \<noteq> 0)"

lemma fold_slots_removed_all:
  assumes "\<forall>h. distinct (sync_addr_waiting s h)" "\<forall>h. distinct (sync_cobj_waiting s h)"
  shows "(\<forall>h. sync_addr_waiting (fold sync_slot_remove ws s) h = filter (\<lambda>x. x \<notin> set ws) (sync_addr_waiting s h)) \<and>
    (\<forall>h. sync_cobj_waiting (fold sync_slot_remove ws s) h =
      filter (\<lambda>x. x \<notin> {w \<in> set ws. cobj_object (sw_cobj (ks_sw s w)) \<noteq> 0}) (sync_cobj_waiting s h)) \<and>
    (\<forall>x. slot_key (ks_sw (fold sync_slot_remove ws s) x) = slot_key (ks_sw s x))"
  using assms
proof (induction ws arbitrary: s)
  case (Cons w ws)
  let ?s = "sync_slot_remove w s"
  have k: "slot_key (ks_sw ?s x) = slot_key (ks_sw s x)" for x
    by (simp add: sync_slot_remove_def Let_def slot_key_def)
  have a: "sync_addr_waiting ?s h = filter (\<lambda>x. x \<noteq> w) (sync_addr_waiting s h)" for h
    using Cons.prems(1) by (auto simp: sync_slot_remove_def Let_def distinct_remove1_removeAll
      removeAll_filter_not_eq intro: filter_cong)
  have c: "sync_cobj_waiting ?s h =
      filter (\<lambda>x. \<not> (x = w \<and> cobj_object (sw_cobj (ks_sw s w)) \<noteq> 0)) (sync_cobj_waiting s h)" for h
    using Cons.prems(2) by (auto simp: sync_slot_remove_def Let_def distinct_remove1_removeAll
      removeAll_filter_not_eq intro!: filter_cong)
  have "\<forall>h. distinct (sync_addr_waiting ?s h)" "\<forall>h. distinct (sync_cobj_waiting ?s h)"
    using Cons.prems by (simp_all add: a c)
  note IH = Cons.IH [OF this]
  have IHa: "sync_addr_waiting (fold sync_slot_remove ws ?s) h = filter (\<lambda>x. x \<notin> set ws) (sync_addr_waiting ?s h)"
    and IHc: "sync_cobj_waiting (fold sync_slot_remove ws ?s) h =
      filter (\<lambda>x. x \<notin> {w \<in> set ws. cobj_object (sw_cobj (ks_sw ?s w)) \<noteq> 0}) (sync_cobj_waiting ?s h)"
    and IHk: "slot_key (ks_sw (fold sync_slot_remove ws ?s) x) = slot_key (ks_sw ?s x)" for h x
    using IH by blast+
  show ?case
    by (intro conjI allI)
      (auto simp: IHa a IHc c IHk k slot_keyD(3) [OF k] simp del: mem_Collect_eq fold_sync_slot_remove intro!: filter_cong)
qed simp

lemmas fold_slots_removed = fold_slots_removed_all [THEN conjunct1, THEN spec]
  fold_slots_removed_all [THEN conjunct2, THEN conjunct1, THEN spec]
  fold_slots_removed_all [THEN conjunct2, THEN conjunct2, THEN spec]

text \<open>After a thread has been detached its slots are in no bucket, and nothing else has changed.\<close>

definition detached :: "ptr \<Rightarrow> kstate \<Rightarrow> kstate \<Rightarrow> bool" where
  "detached t s s' \<longleftrightarrow>
     (\<forall>h. sync_addr_waiting s' h = filter (\<lambda>x. x \<notin> set (wait_slots s t)) (sync_addr_waiting s h)) \<and>
     (\<forall>h. sync_cobj_waiting s' h =
        filter (\<lambda>x. x \<notin> {w \<in> set (wait_slots s t). cobj_object (sw_cobj (ks_sw s w)) \<noteq> 0}) (sync_cobj_waiting s h)) \<and>
     (\<forall>x. slot_key (ks_sw s' x) = slot_key (ks_sw s x)) \<and>
     ks_sw s' = ks_sw (fold sync_slot_remove (wait_slots s t) s) \<and>
     (\<forall>p. wait_slots s' p = (if p = t then [] else wait_slots s p)) \<and>
     \<not> th_sync_waiting (th (ks_obj s' t))"

lemma fold_slots_cong:
  assumes "sync_addr_waiting s = sync_addr_waiting s'" "sync_cobj_waiting s = sync_cobj_waiting s'" "ks_sw s = ks_sw s'"
  shows "ks_sw (fold sync_slot_remove ws s) = ks_sw (fold sync_slot_remove ws s')"
  using assms by (induction ws arbitrary: s s') (simp_all add: sync_slot_remove_def Let_def)

lemma sync_viewD:
  assumes "sync_view s' = sync_view s"
  shows "sync_addr_waiting s' = sync_addr_waiting s" "sync_cobj_waiting s' = sync_cobj_waiting s" "ks_sw s' = ks_sw s"
    "wait_slots s' = wait_slots s" "th_sync_waiting (th (ks_obj s' t)) = th_sync_waiting (th (ks_obj s t))"
  using assms by (auto simp: sync_view_def wait_slots_def fun_eq_iff)

lemma detached_same_view:
  assumes "sync_view s = sync_view s0" "sync_view s' = sync_view s1"
  shows "detached t s s' = detached t s0 s1"
  unfolding detached_def sync_viewD(1-4) [OF assms(1)] sync_viewD [OF assms(2)]
    fold_slots_cong [OF sync_viewD(1-3) [OF assms(1)]] by (rule refl)

lemma sync_remove_thread_detached:
  assumes "\<And>h. distinct (sync_addr_waiting s h)" "\<And>h. distinct (sync_cobj_waiting s h)"
    and "th_sync_waiting (th (ks_obj s t))" "sync_remove_thread t s = (Ret (), s')"
  shows "detached t s s'"
proof -
  define s0 where "s0 = snd (upd_th t (\<lambda>x. x\<lparr> th_sync_waiting := False \<rparr>) s)"
  have e: "sync_addr_waiting s0 = sync_addr_waiting s" "sync_cobj_waiting s0 = sync_cobj_waiting s" "ks_sw s0 = ks_sw s"
    "ks_obj s0 = (ks_obj s)(t := (ks_obj s t)\<lparr> th := (th (ks_obj s t))\<lparr> th_sync_waiting := False \<rparr> \<rparr>)"
    by (simp_all add: s0_def upd_th_run)
  have s': "s' = (let s1 = fold sync_slot_remove (wait_slots s t) s0 in s1\<lparr> ks_obj := (ks_obj s1)(t :=
      (ks_obj s1 t)\<lparr> ko_th_e := (ko_th_e (ks_obj s1 t))\<lparr> te_wait_slots := [] \<rparr> \<rparr>) \<rparr>)"
    using assms(3,4) by (simp add: sync_remove_thread_def krun sync_slots_removed wait_slots_def s0_def Let_def)
  have d: "\<forall>h. distinct (sync_addr_waiting s0 h)" "\<forall>h. distinct (sync_cobj_waiting s0 h)"
    using assms(1,2) by (simp_all add: e)
  show ?thesis
    unfolding detached_def s' Let_def fold_slots_cong [OF e(1-3), symmetric]
    by (auto simp: fold_slots_removed [OF d] e wait_slots_def)
qed

lemma thread_unlink_detached:
  assumes "\<And>h. distinct (sync_addr_waiting s h)" "\<And>h. distinct (sync_cobj_waiting s h)"
    and "thread_unlink t s = (Ret (), s')"
  shows "detached t s s'"
proof -
  define u where "u = kwhen (th_linked (th (ks_obj s t)))
    (kthen (thread_list_remove t) (upd_th t (\<lambda>x. x\<lparr> th_linked := False \<rparr>)))"
  define s1 where "s1 = snd (u s)"
  have "same_sync u" unfolding u_def by (intro same_sync_intros same_sync_ops) simp
  moreover have u: "u s = (Ret (), s1)"
    by (simp add: u_def s1_def kwhen_def kret_def kthen_case thread_list_remove_def upd_th_run)
  ultimately have s1: "sync_view s1 = sync_view s" by (rule same_syncD)
  have run: "kwhen (th_sync_waiting (th (ks_obj s1 t))) (sync_remove_thread t) s1 = (Ret (), s')"
    using assms(3) unfolding thread_unlink_def obj_def kbind_get u_def [symmetric]
    by (simp add: kthen_run [of u s "()" s1, OF u] kbind_get)
  show ?thesis
  proof (cases "th_sync_waiting (th (ks_obj s1 t))")
    case True
    then have "detached t s1 s'"
      using assms(1,2) run by (intro sync_remove_thread_detached) (simp_all add: sync_viewD [OF s1])
    then show ?thesis using detached_same_view [OF s1 refl] by blast
  next
    case False
    then have "sync_view s' = sync_view s" using s1 run by (simp add: kret_def)
    then have e: "detached t s s' = detached t s s" by (rule detached_same_view [OF refl])
    have "wait_slots s t = []" using False sync_viewD(5) [OF s1] by (simp add: wait_slots_def)
    then show ?thesis unfolding e using False sync_viewD(5) [OF s1] by (simp add: detached_def)
  qed
qed

lemma thread_set_runnable_detached:
  assumes "sync_inv s" "thread_set_runnable t s = (Ret (), s')"
  shows "detached t s s'"
proof -
  define pre where "pre = kthen (kobject_dirty t) (thread_sched_adjust t False)"
  define post where "post = kthen (thread_link t thread_list_runnable)
    (kthen (upd_th t (\<lambda>x. x\<lparr> th_status := thread_runnable \<rparr>)) (kthen (thread_sched_adjust t True) (thread_pin t)))"
  have v: "same_sync pre" "same_sync post"
    unfolding pre_def post_def by (intro same_sync_intros same_sync_ops; simp)+
  have "thread_set_runnable t = kthen pre (kthen (thread_unlink t) post)"
    by (rule ext) (simp add: thread_set_runnable_def pre_def post_def kthen_case split: prod.split outcome.split)
  then obtain a b s1 s2 where r: "pre s = (Ret a, s1)" "thread_unlink t s1 = (Ret b, s2)" "post s2 = (Ret (), s')"
    using assms(2) by (auto elim!: kthen_RetE)
  note v1 = same_syncD [OF v(1) r(1)] and v2 = same_syncD [OF v(2) r(3)]
  have "detached t s1 s2"
    using assms(1) r(2) by (intro thread_unlink_detached) (auto simp: sync_viewD [OF v1] sync_inv_def)
  then show ?thesis using detached_same_view [OF v1 refl] detached_same_view [OF refl v2] by blast
qed

lemma detached_inv:
  assumes inv: "sync_inv s" and d: "detached t s s'"
  shows "sync_inv s'"
proof -
  have k: "slot_key (ks_sw s' x) = slot_key (ks_sw s x)" for x using d unfolding detached_def by blast
  have w: "wait_slots s' p = (if p = t then [] else wait_slots s p)" for p using d by (simp add: detached_def)
  have a: "sync_addr_waiting s' h = filter (\<lambda>x. x \<notin> set (wait_slots s t)) (sync_addr_waiting s h)" for h
    using d by (simp add: detached_def)
  have c: "sync_cobj_waiting s' h = filter (\<lambda>x. x \<notin> {w \<in> set (wait_slots s t). cobj_object (sw_cobj (ks_sw s w)) \<noteq> 0})
      (sync_cobj_waiting s h)" for h
    using d by (simp add: detached_def)
  show ?thesis
    using inv unfolding sync_inv_def by (auto simp: a c w slot_keyD [OF k])
qed

lemma list_succ_append: "distinct (xs @ x # ys) \<Longrightarrow> list_succ (xs @ x # ys) x = list_first ys"
proof -
  assume d: "distinct (xs @ x # ys)"
  then have "dropWhile (\<lambda>y. y \<noteq> x) (xs @ x # ys) = x # ys" by (subst dropWhile_append2) auto
  then show ?thesis by (cases ys) (simp_all add: list_succ_def list_first_def)
qed

subsection \<open>The wake-up loop\<close>

text \<open>What the loop needs of a family of buckets: the two of the source are instances.\<close>

locale wait_bucket =
  fixes bucket :: "kstate \<Rightarrow> swloc list"
    and succ :: "kstate \<Rightarrow> swloc \<Rightarrow> swloc option"
    and match :: "sync_wait_slot \<Rightarrow> bool"
  assumes bucket_distinct: "sync_inv s \<Longrightarrow> distinct (bucket s)"
    and succ_on_list: "sync_inv s \<Longrightarrow> sw \<in> set (bucket s) \<Longrightarrow> succ s sw = list_succ (bucket s) sw"
    and bucket_owner: "sync_inv s \<Longrightarrow> sw \<in> set (bucket s) \<Longrightarrow> sw \<in> set (wait_slots s (sw_t (ks_sw s sw)))"
    and bucket_detached: "sync_inv s \<Longrightarrow> detached t s s' \<Longrightarrow>
      bucket s' = filter (\<lambda>x. sw_t (ks_sw s x) \<noteq> t) (bucket s)"
    and match_key: "slot_key v = slot_key w \<Longrightarrow> match v = match w"
begin

definition woken :: "kstate \<Rightarrow> swloc list \<Rightarrow> ptr \<Rightarrow> bool" where
  "woken s l p \<longleftrightarrow> (\<exists>x\<in>set l. match (ks_sw s x) \<and> sw_t (ks_sw s x) = p)"

lemma owner_nonzero: "sync_inv s \<Longrightarrow> sw \<in> set (bucket s) \<Longrightarrow> sw_t (ks_sw s sw) \<noteq> 0"
  using bucket_owner [of s sw] unfolding sync_inv_def by blast

lemma succ_last: "sync_inv s \<Longrightarrow> bucket s = d @ x # r \<Longrightarrow> succ s x = list_first r"
  using succ_on_list [of s x] bucket_distinct [of s] list_succ_append [of d x r] by simp

definition wakes :: "kstate \<Rightarrow> swloc list \<Rightarrow> swloc list \<Rightarrow> kstate \<Rightarrow> bool" where
  "wakes s d r s' \<longleftrightarrow> sync_inv s' \<and> bucket s' = d @ filter (\<lambda>x. \<not> match (ks_sw s x)) r \<and>
     (\<forall>p. wait_slots s' p = (if woken s r p then [] else wait_slots s p)) \<and>
     (\<forall>p. v_status (tview s' p) = (if woken s r p then thread_runnable else v_status (tview s p)))"

lemma loop_wakes:
  assumes "sync_inv s" "bucket s = d @ r" "distinct (map (\<lambda>x. sw_t (ks_sw s x)) (bucket s))" "length r < n"
  shows "\<exists>s'. sync_wake_loop n match bucket succ (if d = [] then None else Some (last d)) (list_first r) s = (Ret (), s')
    \<and> wakes s d r s'"
  using assms
proof (induction r arbitrary: n d s)
  case Nil
  then show ?case by (cases n) (auto simp: list_first_def kret_def wakes_def woken_def)
next
  case (Cons x r)
  then obtain m where n: "n = Suc m" and m: "length r < m" by (cases n) auto
  show ?case
  proof (cases "match (ks_sw s x)")
    case False
    then have run: "sync_wake_loop n match bucket succ (if d = [] then None else Some (last d)) (list_first (x # r)) s
        = sync_wake_loop m match bucket succ (Some (last (d @ [x]))) (list_first r) s"
      by (simp add: n list_first_def [of "x # r"] kbind_get succ_last [OF Cons.prems(1,2)])
    have "\<exists>s'. sync_wake_loop m match bucket succ (Some (last (d @ [x]))) (list_first r) s = (Ret (), s') \<and>
        wakes s (d @ [x]) r s'"
      using Cons.IH [of s "d @ [x]" m] Cons.prems m by simp
    then show ?thesis using False unfolding run by (auto simp: wakes_def woken_def)
  next
    case True
    let ?t = "sw_t (ks_sw s x)"
    have "?t \<noteq> 0" using owner_nonzero Cons.prems(1,2) by simp
    then obtain s1 where s1: "thread_set_runnable ?t s = (Ret (), s1)"
        "tview s1 = (tview s)(?t := \<lparr> v_status = thread_runnable, v_linked = True, v_joined = True,
          v_pinned = True, v_tickets = v_tickets (tview s ?t) \<rparr>)"
      by (rule thread_set_runnable_effect)
    have det: "detached ?t s s1" using Cons.prems(1) s1(1) by (rule thread_set_runnable_detached)
    have inv1: "sync_inv s1" using Cons.prems(1) det by (rule detached_inv)
    have k: "slot_key (ks_sw s1 y) = slot_key (ks_sw s y)" for y using det unfolding detached_def by blast
    have w1: "wait_slots s1 p = (if p = ?t then [] else wait_slots s p)" for p using det by (simp add: detached_def)
    have others: "\<forall>y\<in>set (d @ r). sw_t (ks_sw s y) \<noteq> ?t"
      using Cons.prems(2,3) by (auto simp: image_iff)
    have "bucket s1 = filter (\<lambda>y. sw_t (ks_sw s y) \<noteq> ?t) (bucket s)"
      using Cons.prems(1) det by (rule bucket_detached)
    also have "\<dots> = d @ r" using others by (auto simp: Cons.prems(2) intro!: filter_True)
    finally have b1: "bucket s1 = d @ r" .
    have next1: "(case if d = [] then None else Some (last d) of Some p \<Rightarrow> succ s1 p | None \<Rightarrow> list_first (bucket s1))
        = list_first r"
      using succ_last [OF inv1, of "butlast d" "last d" r] b1 by (cases "d = []") simp_all
    have run: "sync_wake_loop n match bucket succ (if d = [] then None else Some (last d)) (list_first (x # r)) s
        = sync_wake_loop m match bucket succ (if d = [] then None else Some (last d)) (list_first r) s1"
      using True by (simp only: n list_first_def [of "x # r"] list.case sync_wake_loop.simps kbind_get if_True
        kthen_run [of "thread_set_runnable ?t" s "()" s1, OF s1(1)] next1)
    have "distinct (map (\<lambda>y. sw_t (ks_sw s1 y)) (bucket s1))"
      using Cons.prems(2,3) by (simp add: b1 slot_keyD(4) [OF k])
    then obtain s' where s': "sync_wake_loop m match bucket succ (if d = [] then None else Some (last d)) (list_first r) s1
        = (Ret (), s')" "wakes s1 d r s'"
      using Cons.IH [OF inv1 b1 _ m] by blast
    have mk: "match (ks_sw s1 y) = match (ks_sw s y)" for y by (rule match_key [OF k])
    have "woken s (x # r) p \<longleftrightarrow> p = ?t \<or> woken s1 r p" for p
      using True by (auto simp: woken_def mk slot_keyD(4) [OF k])
    then have "wakes s d (x # r) s'"
      using s'(2) True by (auto simp: wakes_def mk w1 s1(2))
    then show ?thesis unfolding run using s'(1) by blast
  qed
qed

lemma whole_bucket_wakes:
  assumes "sync_inv s" "distinct (map (\<lambda>x. sw_t (ks_sw s x)) (bucket s))"
  shows "\<exists>s'. sync_wake_loop (Suc (length (bucket s))) match bucket succ None (list_first (bucket s)) s = (Ret (), s') \<and>
    wakes s [] (bucket s) s'"
  using loop_wakes [of s "[]" "bucket s" "Suc (length (bucket s))"] assms by simp

end

text \<open>The buckets of segment offsets and those of container entries.\<close>

definition at_offset :: "u64 \<Rightarrow> u64 \<Rightarrow> sync_wait_slot \<Rightarrow> bool" where
  "at_offset seg_id offset w \<longleftrightarrow> sw_seg w = seg_id \<and> sw_offset w = offset"

definition at_entry :: "cobj_ref \<Rightarrow> sync_wait_slot \<Rightarrow> bool" where
  "at_entry seg w \<longleftrightarrow> cobj_container (sw_cobj w) = cobj_container seg \<and> cobj_object (sw_cobj w) = cobj_object seg"

lemma detached_owner_filter:
  assumes inv: "sync_inv s" and own: "\<forall>x\<in>set l. x \<in> set (wait_slots s (sw_t (ks_sw s x)))"
  shows "filter (\<lambda>x. x \<notin> set (wait_slots s t)) l = filter (\<lambda>x. sw_t (ks_sw s x) \<noteq> t) l"
  using assms unfolding sync_inv_def by (intro filter_cong) auto

interpretation addr: wait_bucket "addr_bucket seg_id offset" sw_addr_succ "at_offset seg_id offset" for seg_id offset
proof (unfold_locales, goal_cases)
  case (4 s t s')
  then have own: "\<forall>x\<in>set (addr_bucket seg_id offset s). x \<in> set (wait_slots s (sw_t (ks_sw s x)))"
    by (auto simp: sync_inv_def addr_bucket_def)
  show ?case
    using 4(2) detached_owner_filter [OF 4(1) own, of t] by (simp add: detached_def addr_bucket_def)
qed (auto simp: sync_inv_def addr_bucket_def sw_addr_succ_def Let_def at_offset_def slot_key_def)

interpretation cobj: wait_bucket "cobj_bucket seg" sw_cobj_succ "at_entry seg" for seg
proof (unfold_locales, goal_cases)
  case (4 s t s')
  then have own: "\<forall>x\<in>set (cobj_bucket seg s). x \<in> set (wait_slots s (sw_t (ks_sw s x)))"
    by (auto simp: sync_inv_def cobj_bucket_def)
  have "\<forall>x\<in>set (cobj_bucket seg s). cobj_object (sw_cobj (ks_sw s x)) \<noteq> 0"
    using 4(1) by (auto simp: sync_inv_def cobj_bucket_def)
  then have "filter (\<lambda>x. x \<notin> {w \<in> set (wait_slots s t). cobj_object (sw_cobj (ks_sw s w)) \<noteq> 0}) (cobj_bucket seg s)
      = filter (\<lambda>x. x \<notin> set (wait_slots s t)) (cobj_bucket seg s)"
    by (intro filter_cong) auto
  then show ?case
    using 4(2) detached_owner_filter [OF 4(1) own, of t] by (simp add: detached_def cobj_bucket_def)
qed (auto simp: sync_inv_def cobj_bucket_def sw_cobj_succ_def Let_def at_entry_def slot_key_def)

text \<open>C26: Waking up an address ends and wakes exactly the threads that wait on it. If the wait buckets are well formed
  and no thread has two slots in the bucket of the address, the walk returns; afterwards the bucket holds the slots that
  did not match, a thread with a matching slot is runnable and waits on nothing any more, every other thread has
  the status and the slots it had, and the buckets are well formed.\<close>

theorem sync_wakeup_at_exact:
  assumes "sync_inv s" "distinct (map (\<lambda>x. sw_t (ks_sw s x)) (addr_bucket seg_id offset s))"
  shows "\<exists>s'. sync_wakeup_at seg_id offset s = (Ret (), s') \<and> sync_inv s' \<and>
    addr_bucket seg_id offset s' = filter (\<lambda>x. \<not> at_offset seg_id offset (ks_sw s x)) (addr_bucket seg_id offset s) \<and>
    (\<forall>p. let hit = (\<exists>x\<in>set (addr_bucket seg_id offset s). at_offset seg_id offset (ks_sw s x) \<and> sw_t (ks_sw s x) = p)
      in th_status (th (ks_obj s' p)) = (if hit then thread_runnable else th_status (th (ks_obj s p))) \<and>
         wait_slots s' p = (if hit then [] else wait_slots s p))"
proof -
  have "(\<lambda>w. sw_seg w = seg_id \<and> sw_offset w = offset) = at_offset seg_id offset"
    by (simp add: at_offset_def fun_eq_iff)
  then show ?thesis
    using addr.whole_bucket_wakes [OF assms]
    by (auto simp: sync_wakeup_at_def kbind_get addr.wakes_def addr.woken_def Let_def tview_def)
qed

text \<open>When a segment leaves a container, \<open>sync_wakeup_segment\<close> likewise ends and wakes exactly the threads that wait
  for that container entry, if no thread has two slots in the bucket of the entry.\<close>

theorem sync_wakeup_segment_exact:
  assumes "sync_inv s" "distinct (map (\<lambda>x. sw_t (ks_sw s x)) (cobj_bucket seg s))"
  shows "\<exists>s'. sync_wakeup_segment seg s = (Ret (), s') \<and> sync_inv s' \<and>
    cobj_bucket seg s' = filter (\<lambda>x. \<not> at_entry seg (ks_sw s x)) (cobj_bucket seg s) \<and>
    (\<forall>p. let hit = (\<exists>x\<in>set (cobj_bucket seg s). at_entry seg (ks_sw s x) \<and> sw_t (ks_sw s x) = p)
      in th_status (th (ks_obj s' p)) = (if hit then thread_runnable else th_status (th (ks_obj s p))) \<and>
         wait_slots s' p = (if hit then [] else wait_slots s p))"
proof -
  have "(\<lambda>w. cobj_container (sw_cobj w) = cobj_container seg \<and> cobj_object (sw_cobj w) = cobj_object seg) = at_entry seg"
    by (simp add: at_entry_def fun_eq_iff)
  then show ?thesis
    using cobj.whole_bucket_wakes [OF assms]
    by (auto simp: sync_wakeup_segment_def kbind_get cobj.wakes_def cobj.woken_def Let_def tview_def)
qed

subsection \<open>A thread with two slots in a bucket\<close>

lemma thread_set_runnable_not_waiting:
  assumes "\<not> th_sync_waiting (th (ks_obj s t))" "thread_set_runnable t s = (Ret (), s')"
  shows "sync_view s' = sync_view s"
proof -
  define u where "u = kwhen False (sync_remove_thread t)"
  define pre where "pre = kthen (kobject_dirty t) (thread_sched_adjust t False)"
  define post where "post = kthen (thread_link t thread_list_runnable)
    (kthen (upd_th t (\<lambda>x. x\<lparr> th_status := thread_runnable \<rparr>)) (kthen (thread_sched_adjust t True) (thread_pin t)))"
  define mid where "mid = kbind (obj t) (\<lambda>ko. kwhen (th_linked (th ko))
    (kthen (thread_list_remove t) (upd_th t (\<lambda>x. x\<lparr> th_linked := False \<rparr>))))"
  have v: "same_sync pre" "same_sync post" "same_sync mid"
    unfolding pre_def post_def mid_def obj_def by (intro same_sync_intros same_sync_ops; simp)+
  have "thread_set_runnable t = kthen pre (kthen (thread_unlink t) post)"
    by (rule ext) (simp add: thread_set_runnable_def pre_def post_def kthen_case split: prod.split outcome.split)
  then obtain a b s1 s2 where r: "pre s = (Ret a, s1)" "thread_unlink t s1 = (Ret b, s2)" "post s2 = (Ret (), s')"
    using assms(2) by (auto elim!: kthen_RetE)
  have "thread_unlink t = kthen mid (kbind (obj t) (\<lambda>ko. kwhen (th_sync_waiting (th ko)) (sync_remove_thread t)))"
    by (rule ext) (simp add: thread_unlink_def mid_def obj_def kcase split: prod.split outcome.split)
  then obtain c s3 where r2: "mid s1 = (Ret c, s3)"
      "kbind (obj t) (\<lambda>ko. kwhen (th_sync_waiting (th ko)) (sync_remove_thread t)) s3 = (Ret b, s2)"
    using r(2) by (auto elim!: kthen_RetE)
  have v3: "sync_view s3 = sync_view s" using same_syncD [OF v(1) r(1)] same_syncD [OF v(3) r2(1)] by simp
  then have "s2 = s3" using assms(1) r2(2) sync_viewD(5) [OF v3] by (simp add: obj_def kbind_get kret_def)
  then show ?thesis using v3 same_syncD [OF v(2) r(3)] by simp
qed

text \<open>A slot that matches, of a thread that does not wait any more, and before it a slot that is off the list and still points to it.\<close>

definition stale :: "swloc \<Rightarrow> swloc \<Rightarrow> (sync_wait_slot \<Rightarrow> bool) \<Rightarrow> kstate \<Rightarrow> bool" where
  "stale p x match s \<longleftrightarrow> sw_addr_succ s p = Some x \<and> match (ks_sw s x) \<and> sw_t (ks_sw s x) \<noteq> 0 \<and>
     \<not> th_sync_waiting (th (ks_obj s (sw_t (ks_sw s x))))"

lemma stale_loops: "stale p x match s \<Longrightarrow> fst (sync_wake_loop n match bucket sw_addr_succ (Some p) (Some x) s) = NoFuel"
proof (induction n arbitrary: s)
  case 0
  then show ?case by (simp add: knofuel_def)
next
  case (Suc n)
  let ?t = "sw_t (ks_sw s x)"
  have "?t \<noteq> 0" using Suc.prems by (simp add: stale_def)
  then obtain s1 where s1: "thread_set_runnable ?t s = (Ret (), s1)" by (rule thread_set_runnable_effect)
  have v: "sync_view s1 = sync_view s"
    using Suc.prems s1 by (intro thread_set_runnable_not_waiting) (simp_all add: stale_def)
  have "sw_addr_succ s1 = sw_addr_succ s" by (simp add: sw_addr_succ_def sync_viewD [OF v] fun_eq_iff)
  then have st: "stale p x match s1" using Suc.prems by (simp add: stale_def sync_viewD [OF v])
  have "match (ks_sw s x)" using Suc.prems by (simp add: stale_def)
  moreover have "sw_addr_succ s1 p = Some x" using st by (simp add: stale_def)
  ultimately show ?case
    using Suc.IH [OF st] by (simp add: kbind_get kthen_run [of "thread_set_runnable ?t" s "()" s1, OF s1])
qed

text \<open>Threads 1 and 2 wait on offset 4104 of segment 7, thread 1 perhaps also on offset 8, which has the same bucket.\<close>

definition waiting_state :: "cobj_ref \<Rightarrow> swloc list \<Rightarrow> swloc list \<Rightarrow> swloc list \<Rightarrow> kstate" where
  "waiting_state co ws ab cb =
     (let waiter = (\<lambda>ws. kobject0\<lparr> th := (th kobject0)\<lparr> th_status := thread_suspended, th_sync_waiting := True \<rparr>,
            ko_th_e := (ko_th_e kobject0)\<lparr> te_wait_slots := ws \<rparr> \<rparr>);
          slot = (\<lambda>t off. \<lparr> sw_seg = 7, sw_offset = off, sw_t = t, sw_cobj = co, sw_addr_next = None, sw_cobj_next = None \<rparr>)
      in kstate0\<lparr>
       ks_obj := (ks_obj kstate0)(1 := waiter ws, 2 := waiter [SwInline 2]),
       ks_sw := (ks_sw kstate0)(SwInline 1 := slot 1 8, SwPage 1 0 := slot 1 4104, SwInline 2 := slot 2 4104),
       sync_addr_waiting := (sync_addr_waiting kstate0)(6 := ab),
       sync_cobj_waiting := (sync_cobj_waiting kstate0)(2 := cb) \<rparr>)"

definition double_waiter :: kstate where
  "double_waiter = waiting_state (COBJ 0 0) [SwPage 1 0, SwInline 1] [SwInline 1, SwPage 1 0, SwInline 2] []"

definition two_waiters :: kstate where
  "two_waiters = waiting_state (COBJ 5 7) [SwPage 1 0] [SwPage 1 0, SwInline 2] [SwPage 1 0, SwInline 2]"

lemma waiting_state_sel:
  "sync_addr_waiting (waiting_state co ws ab cb) h = (if h = 6 then ab else [])"
  "sync_cobj_waiting (waiting_state co ws ab cb) h = (if h = 2 then cb else [])"
  "wait_slots (waiting_state co ws ab cb) p = (if p = 1 then ws else if p = 2 then [SwInline 2] else [])"
  "sw_seg (ks_sw (waiting_state co ws ab cb) x) = (if x \<in> {SwInline 1, SwPage 1 0, SwInline 2} then 7 else 0)"
  "sw_offset (ks_sw (waiting_state co ws ab cb) x) =
     (if x = SwInline 1 then 8 else if x \<in> {SwPage 1 0, SwInline 2} then 4104 else 0)"
  "sw_t (ks_sw (waiting_state co ws ab cb) x) =
     (if x \<in> {SwInline 1, SwPage 1 0} then 1 else if x = SwInline 2 then 2 else 0)"
  "sw_cobj (ks_sw (waiting_state co ws ab cb) x) = (if x \<in> {SwInline 1, SwPage 1 0, SwInline 2} then co else COBJ 0 0)"
  by (simp_all add: waiting_state_def Let_def kstate0_def kobject0_def thread0_def wait_slots_def)

lemma waiting_heads: "sync_addr_head 7 8 = 6" "sync_addr_head 7 4104 = 6" "sync_cobj_head (COBJ 5 7) = 2"
  by code_simp+

lemma waiting_state_inv: "sync_inv double_waiter" "sync_inv two_waiters"
  unfolding sync_inv_def double_waiter_def two_waiters_def waiting_state_sel by (simp_all add: waiting_heads)

lemma double_waiter_stale:
  obtains s1 s2 where "thread_set_runnable 1 double_waiter = (Ret (), s1)" "thread_set_runnable 2 s1 = (Ret (), s2)"
    "\<forall>v. slot_key (ks_sw s1 v) = slot_key (ks_sw double_waiter v)" "\<forall>v. slot_key (ks_sw s2 v) = slot_key (ks_sw double_waiter v)"
    "sw_addr_succ s1 (SwInline 1) = Some (SwInline 2)" "sw_addr_succ s2 (SwInline 1) = Some (SwInline 2)"
    "\<not> th_sync_waiting (th (ks_obj s2 2))"
proof -
  let ?x = "SwInline 1" and ?y = "SwPage 1 0" and ?z = "SwInline 2"
  obtain s1 where s1: "thread_set_runnable 1 double_waiter = (Ret (), s1)"
    by (rule thread_set_runnable_effect [of 1]) auto
  have d1: "detached 1 double_waiter s1" using waiting_state_inv(1) s1 by (rule thread_set_runnable_detached)
  have inv1: "sync_inv s1" using waiting_state_inv(1) d1 by (rule detached_inv)
  obtain s2 where s2: "thread_set_runnable 2 s1 = (Ret (), s2)" by (rule thread_set_runnable_effect [of 2]) auto
  have d2: "detached 2 s1 s2" using inv1 s2 by (rule thread_set_runnable_detached)
  have e1: "sync_addr_waiting s1 6 = [?z]" "ks_sw s1 = ks_sw (fold sync_slot_remove [?y, ?x] double_waiter)"
      "wait_slots s1 2 = [?z]" "slot_key (ks_sw s1 v) = slot_key (ks_sw double_waiter v)" for v
    using d1 unfolding detached_def by (auto simp: double_waiter_def waiting_state_sel simp del: fold.simps)
  have e2: "sync_addr_waiting s2 6 = []" "ks_sw s2 ?x = ks_sw s1 ?x" "\<not> th_sync_waiting (th (ks_obj s2 2))"
      "slot_key (ks_sw s2 v) = slot_key (ks_sw s1 v)" for v
    using d2 e1(1) unfolding detached_def e1(3) by (auto simp: sync_slot_remove_def Let_def slot_key_def)
  have h: "sync_addr_head (sw_seg (ks_sw s ?x)) (sw_offset (ks_sw s ?x)) = 6"
    if "slot_key (ks_sw s ?x) = slot_key (ks_sw double_waiter ?x)" for s
    using slot_keyD [OF that] by (simp add: double_waiter_def waiting_state_sel waiting_heads)
  have n: "sw_addr_next (ks_sw s1 ?x) = Some ?z"
    by (simp add: e1(2) sync_slot_remove_def Let_def double_waiter_def waiting_state_sel waiting_heads list_succ_def)
  have "sw_addr_succ s1 ?x = Some ?z" "sw_addr_succ s2 ?x = Some ?z"
    unfolding sw_addr_succ_def Let_def h [of s1, OF e1(4)] h [of s2, OF trans [OF e2(4) e1(4)]] e1(1) e2(1,2) n by simp_all
  then show thesis using s1 s2 e1(4) e2(3,4) by (intro that [of s1 s2]) simp_all
qed

text \<open>C27: The precondition on the slots is needed. In a well-formed state where thread 1 waits on two offsets with the same
  bucket and thread 2 on one of them, waking up that offset never ends: the slot of thread 1 before the matching one is
  taken off the list together with it, and the walk follows its old \<open>le_next\<close> pointer to the slot of thread 2, over and over.
  No number of rounds is enough.\<close>

theorem sync_wakeup_at_loops:
  "sync_inv double_waiter \<and>
   (\<forall>n. fst (sync_wake_loop n (at_offset 7 4104) (addr_bucket 7 4104) sw_addr_succ None
     (list_first (addr_bucket 7 4104 double_waiter)) double_waiter) = NoFuel)"
proof (intro conjI allI)
  let ?m = "at_offset 7 4104" and ?x = "SwInline 1" and ?y = "SwPage 1 0" and ?z = "SwInline 2"
  let ?loop = "\<lambda>n. sync_wake_loop n ?m (addr_bucket 7 4104) sw_addr_succ"
  show "sync_inv double_waiter" by (rule waiting_state_inv)
  obtain s1 s2 where s: "thread_set_runnable 1 double_waiter = (Ret (), s1)" "thread_set_runnable 2 s1 = (Ret (), s2)"
      "\<forall>v. slot_key (ks_sw s1 v) = slot_key (ks_sw double_waiter v)" "\<forall>v. slot_key (ks_sw s2 v) = slot_key (ks_sw double_waiter v)"
      "sw_addr_succ s1 ?x = Some ?z" "sw_addr_succ s2 ?x = Some ?z" "\<not> th_sync_waiting (th (ks_obj s2 2))"
    by (rule double_waiter_stale)
  have k: "?m (ks_sw u ?y)" "?m (ks_sw u ?z)" "\<not> ?m (ks_sw u ?x)" "sw_t (ks_sw u ?y) = 1" "sw_t (ks_sw u ?z) = 2"
    if "\<forall>v. slot_key (ks_sw u v) = slot_key (ks_sw double_waiter v)" for u
    using slot_keyD [OF spec [OF that]] by (auto simp: at_offset_def double_waiter_def waiting_state_sel)
  have n0: "sw_addr_succ double_waiter ?x = Some ?y" "list_first (addr_bucket 7 4104 double_waiter) = Some ?x"
    by (simp_all add: sw_addr_succ_def addr_bucket_def list_first_def double_waiter_def waiting_state_sel waiting_heads list_succ_def)
  have stale: "stale ?x ?z ?m s2" unfolding stale_def k(5) [OF s(4)] using k [OF s(4)] s by simp
  have third: "fst (?loop n (Some ?x) (Some ?z) s1) = NoFuel" for n
    by (cases n) (simp_all only: sync_wake_loop.simps kbind_get k [OF s(3)] if_True option.case s(6) stale_loops [OF stale]
      kthen_run [of "thread_set_runnable 2" s1 "()" s2, OF s(2)] knofuel_def fst_conv)
  have second: "fst (?loop n (Some ?x) (Some ?y) double_waiter) = NoFuel" for n
    by (cases n) (simp_all only: sync_wake_loop.simps kbind_get k [OF allI [OF refl]] if_True option.case s(5) third
      kthen_run [of "thread_set_runnable 1" double_waiter "()" s1, OF s(1)] knofuel_def fst_conv)
  show "fst (?loop n None (list_first (addr_bucket 7 4104 double_waiter)) double_waiter) = NoFuel" for n
    unfolding n0(2)
    by (cases n) (simp_all only: sync_wake_loop.simps kbind_get k(3) [OF allI [OF refl]] if_False n0(1) second knofuel_def fst_conv)
qed

theorem sync_wakeup_at_exact_witness:
  "sync_inv two_waiters \<and> (\<exists>s'. sync_wakeup_at 7 4104 two_waiters = (Ret (), s') \<and> addr_bucket 7 4104 s' = [] \<and>
     th_status (th (ks_obj s' 1)) = thread_runnable \<and> th_status (th (ks_obj s' 2)) = thread_runnable)"
proof -
  have "distinct (map (\<lambda>x. sw_t (ks_sw two_waiters x)) (addr_bucket 7 4104 two_waiters))"
    by (simp add: addr_bucket_def waiting_heads two_waiters_def waiting_state_sel)
  from sync_wakeup_at_exact [OF waiting_state_inv(2) this] show ?thesis
    using waiting_state_inv(2)
    by (auto simp: Let_def addr_bucket_def waiting_heads two_waiters_def waiting_state_sel at_offset_def)
qed

theorem sync_wakeup_segment_exact_witness:
  "sync_inv two_waiters \<and> (\<exists>s'. sync_wakeup_segment (COBJ 5 7) two_waiters = (Ret (), s') \<and> cobj_bucket (COBJ 5 7) s' = [] \<and>
     th_status (th (ks_obj s' 1)) = thread_runnable \<and> th_status (th (ks_obj s' 2)) = thread_runnable)"
proof -
  have "distinct (map (\<lambda>x. sw_t (ks_sw two_waiters x)) (cobj_bucket (COBJ 5 7) two_waiters))"
    by (simp add: cobj_bucket_def waiting_heads two_waiters_def waiting_state_sel)
  from sync_wakeup_segment_exact [OF waiting_state_inv(2) this] show ?thesis
    using waiting_state_inv(2)
    by (auto simp: Let_def cobj_bucket_def waiting_heads two_waiters_def waiting_state_sel at_entry_def)
qed

end
