(* ===== verification/Ctslot.thy ===== *)
theory Ctslot
  imports Iflow Sync
begin

unbundle bit_operations_syntax

text \<open>
  Slots of containers and naming objects through containers (\<^verbatim>\<open>src/kern/kern/container.c\<close>): 16 slots in the container
  object, 256 in each of its pages. With them what happens when a reference to an object is dropped: a thread without
  references halts, the current thread halts if no readable container holds it any more
  (\<^verbatim>\<open>thread_check_sched_parents\<close> of \<^verbatim>\<open>thread.c\<close>), a segment leaves the address spaces that map it through the
  container (\<^verbatim>\<open>segment_on_decref\<close> of \<^verbatim>\<open>segment.c\<close>).

  Main result: \<open>cobj_get\<close> hands out an object only through a container that the thread may read and that holds it.
\<close>

subsection \<open>Slots\<close>

text \<open>A slot is in the container object or in a page, as two words each.\<close>

datatype csloc = CsInline ptr nat | CsPage ptr nat

definition cs_read :: "kstate \<Rightarrow> csloc \<Rightarrow> container_slot" where
  "cs_read s l = (case l of
       CsInline c i \<Rightarrow> ct_slots (ct (ks_obj s c)) ! i
     | CsPage p i \<Rightarrow> \<lparr> cs_id = pg_words (ks_page s p) ! (2 * i), cs_ref = pg_words (ks_page s p) ! (2 * i + 1) \<rparr>)"

definition cs_write :: "csloc \<Rightarrow> (container_slot \<Rightarrow> container_slot) \<Rightarrow> unit kernel" where
  "cs_write l f = (case l of
       CsInline c i \<Rightarrow> upd_ct c (\<lambda>x. x\<lparr> ct_slots := (ct_slots x)[i := f (ct_slots x ! i)] \<rparr>)
     | CsPage p i \<Rightarrow> kbind (kget (\<lambda>s. f (cs_read s l))) (\<lambda>v.
         upd_page p (\<lambda>pg. pg\<lparr> pg_words := (pg_words pg)[2 * i := cs_id v, 2 * i + 1 := cs_ref v] \<rparr>)))"

definition container_slot_get :: "ptr \<Rightarrow> u64 \<Rightarrow> page_sharing_mode \<Rightarrow> csloc kernel" where
  "container_slot_get c slotn rw =
     (if slotn < of_nat NUM_CT_SLOT_INLINE
      then kthen (kwhen (rw = page_excl_dirty) (kobject_dirty c)) (kret (CsInline c (unat slotn)))
      else let slotn = slotn - of_nat NUM_CT_SLOT_INLINE;
               page_no = slotn div of_nat NUM_CT_SLOT_PER_PAGE;
               pg_slot = slotn mod of_nat NUM_CT_SLOT_PER_PAGE
           in kbind (kobject_get_page c page_no rw) (\<lambda>cpg. kret (CsPage cpg (unat pg_slot))))"

text \<open>The first slot in \<open>ls\<close> that \<open>P\<close> accepts, as the loops over the slots of a page or of the object look for.\<close>

definition slot_search :: "(container_slot \<Rightarrow> bool) \<Rightarrow> csloc list \<Rightarrow> csloc option kernel" where
  "slot_search P ls = kget (\<lambda>s. find (\<lambda>l. P (cs_read s l)) ls)"

definition inline_slots :: "ptr \<Rightarrow> csloc list" where
  "inline_slots c = map (CsInline c) [0..<NUM_CT_SLOT_INLINE]"

definition page_slots :: "ptr \<Rightarrow> csloc list" where
  "page_slots p = map (CsPage p) [0..<NUM_CT_SLOT_PER_PAGE]"

text \<open>The loop over the pages of the container that the searches have in common.\<close>

definition paged_search :: "(container_slot \<Rightarrow> bool) \<Rightarrow> ptr \<Rightarrow> page_sharing_mode \<Rightarrow> csloc option kernel" where
  "paged_search P c rw =
     kbind (hd_of c) (\<lambda>h.
     kfind (\<lambda>i. kbind (kobject_get_page c (of_nat i) rw) (\<lambda>cpg. slot_search P (page_slots cpg)))
       [0..<unat (kobject_npages h)])"

definition slot_holds :: "u64 \<Rightarrow> container_slot \<Rightarrow> bool" where
  "slot_holds kid cs \<longleftrightarrow> cs_id cs = kid \<and> cs_ref cs > 0"

definition container_slot_find :: "ptr \<Rightarrow> u64 \<Rightarrow> page_sharing_mode \<Rightarrow> csloc kernel" where
  "container_slot_find c kid rw =
     kbind (slot_search (slot_holds kid) (inline_slots c)) (\<lambda>r.
     case r of
       Some l \<Rightarrow> kthen (kwhen (rw = page_excl_dirty) (kobject_dirty c)) (kret l)
     | None \<Rightarrow> kbind (paged_search (slot_holds kid) c rw) (\<lambda>r.
         case r of Some l \<Rightarrow> kret l | None \<Rightarrow> kerr E_NOT_FOUND))"

definition container_get :: "ptr \<Rightarrow> u64 \<Rightarrow> u64 kernel" where
  "container_get c slot =
     kbind (container_slot_get c slot page_shared_ro) (\<lambda>l.
     kbind (kget (\<lambda>s. cs_read s l)) (\<lambda>cs.
     if cs_ref cs = 0 then kerr E_NOT_FOUND else kret (cs_id cs)))"

definition container_nslots :: "ptr \<Rightarrow> u64 kernel" where
  "container_nslots c =
     kbind (hd_of c) (\<lambda>h. kret (of_nat NUM_CT_SLOT_INLINE + kobject_npages h * of_nat NUM_CT_SLOT_PER_PAGE))"

subsection \<open>Naming objects\<close>

definition container_find :: "u64 \<Rightarrow> info_flow_type \<Rightarrow> ptr kernel" where
  "container_find kid iflow = kobject_get kid kobj_container iflow"

definition container_has :: "ptr \<Rightarrow> u64 \<Rightarrow> unit kernel" where
  "container_has c kid = kthen (container_slot_find c kid page_shared_ro) (kret ())"

text \<open>The objects that need no container: the current thread and its thread-local segment.\<close>

definition global_object :: "kstate \<Rightarrow> cobj_ref \<Rightarrow> bool" where
  "global_object s ref \<longleftrightarrow> cobj_container ref = 0 \<and>
     (cobj_object ref = kobject_id_thread_sg \<or>
      cur_thread s \<noteq> 0 \<and> cobj_object ref = ko_id (hdr (ks_obj s (cur_thread s))))"

definition cobj_get :: "cobj_ref \<Rightarrow> kobject_type \<Rightarrow> info_flow_type \<Rightarrow> ptr kernel" where
  "cobj_get ref type iflow =
     kbind (kget (\<lambda>s. global_object s ref)) (\<lambda>global.
     ktry (kobject_get (cobj_object ref) type iflow) (\<lambda>r0.
     let ct_ok = (case r0 of Inl e \<Rightarrow> kerr e | Inr ko \<Rightarrow> kret ko)
     in if global then ct_ok
        else ktry (container_find (cobj_container ref) iflow_read) (\<lambda>r.
          case r of
            Inl e \<Rightarrow> if e = E_RESTART then kerr e else kerr E_NOT_FOUND
          | Inr c \<Rightarrow> kbind (hd_of c) (\<lambda>ch.
              if cobj_object ref = ko_id ch then ct_ok
              else kbind (kget (\<lambda>s. case r0 of Inl _ \<Rightarrow> False
                             | Inr ko \<Rightarrow> ko_parent (hdr (ks_obj s ko)) = cobj_container ref)) (\<lambda>parent_matches.
                   if parent_matches then ct_ok
                   else kthen (container_slot_find c (cobj_object ref) page_shared_ro) ct_ok)))))"

text \<open>
  The walk up the parents, with a bound on its steps: parents form a tree in a sane system, but nothing in this
  loop of the source bounds it.
\<close>

fun has_ancestor_from :: "nat \<Rightarrow> ptr \<Rightarrow> u64 \<Rightarrow> unit kernel" where
  "has_ancestor_from 0 c ancestor = knofuel"
| "has_ancestor_from (Suc n) c ancestor =
     kbind (hd_of c) (\<lambda>h.
     if ko_id h = ancestor then kret ()
     else if ko_parent h = 0 then kerr E_NOT_FOUND
     else kthen (cobj_get (COBJ (ko_parent h) (ko_id h)) kobj_container iflow_none)
         (kbind (kobject_get (ko_parent h) kobj_container iflow_read) (\<lambda>c'. has_ancestor_from n c' ancestor)))"

definition container_has_ancestor :: "ptr \<Rightarrow> u64 \<Rightarrow> unit kernel" where
  "container_has_ancestor c ancestor =
     kbind (kget (\<lambda>s. Suc (length (ko_list s)))) (\<lambda>n. has_ancestor_from n c ancestor)"

subsection \<open>When a reference is dropped\<close>

text \<open>The two scheduling parents in turn: \<open>Some ()\<close> ends the search without halting the thread.\<close>

definition sched_parent_holds :: "ptr \<Rightarrow> u64 \<Rightarrow> unit option kernel" where
  "sched_parent_holds t parent =
     ktry (container_find parent iflow_read) (\<lambda>r.
     case r of
       Inl e \<Rightarrow> if e = E_RESTART then kret (Some ()) else kret None
     | Inr c \<Rightarrow> kbind (hd_of t) (\<lambda>h.
         ktry (container_has c (ko_id h)) (\<lambda>r.
         case r of
           Inl e \<Rightarrow> if e = E_RESTART then kret (Some ()) else kret None
         | Inr _ \<Rightarrow> kret (Some ()))))"

definition thread_check_sched_parents :: "ptr \<Rightarrow> unit kernel" where
  "thread_check_sched_parents t =
     kbind (kget (\<lambda>s. cur_thread s \<noteq> 0 \<and> ko_id (hdr (ks_obj s t)) = ko_id (hdr (ks_obj s (cur_thread s))))) (\<lambda>is_cur.
     if \<not> is_cur then kret ()
     else kbind (kget (\<lambda>s. th_sched_parents (th (ks_obj s t)))) (\<lambda>(p0, p1).
          kbind (kfind (sched_parent_holds t) [p0, p1]) (\<lambda>r.
          case r of Some _ \<Rightarrow> kret () | None \<Rightarrow> thread_halt t)))"

definition thread_on_decref :: "ptr \<Rightarrow> u64 \<Rightarrow> unit kernel" where
  "thread_on_decref t parent_ct =
     kbind (obj t) (\<lambda>ko.
     if ko_ref (hdr ko) = 0 then thread_halt t
     else kwhen (parent_ct = fst (th_sched_parents (th ko)) \<or> parent_ct = snd (th_sched_parents (th ko)))
            (thread_check_sched_parents t))"

definition thread_set_sched_parents :: "ptr \<Rightarrow> u64 \<Rightarrow> u64 \<Rightarrow> unit kernel" where
  "thread_set_sched_parents t p0 p1 =
     kthen (kobject_dirty t)
    (kthen (upd_th t (\<lambda>x. x\<lparr> th_sched_parents := (p0, p1) \<rparr>)) (thread_check_sched_parents t))"

definition segment_on_decref :: "ptr \<Rightarrow> u64 \<Rightarrow> unit kernel" where
  "segment_on_decref sg parent_ct =
     kthen (segment_invalidate sg parent_ct)
    (kbind (hd_of sg) (\<lambda>h. sync_wakeup_segment (COBJ parent_ct (ko_id h))))"

subsection \<open>What a container holds\<close>

text \<open>All slots of a container, in the order of the searches, and the pages behind them.\<close>

definition container_locs :: "kstate \<Rightarrow> ptr \<Rightarrow> csloc list" where
  "container_locs s c = inline_slots c @
     concat (map (\<lambda>i. page_slots (pt_lookup s (PtActive c) i)) [0..<unat (kobject_npages (hdr (ks_obj s c)))])"

definition container_backed :: "kstate \<Rightarrow> ptr \<Rightarrow> bool" where
  "container_backed s c \<longleftrightarrow> unat (kobject_npages (hdr (ks_obj s c))) \<le> unat pagetree_maxpages \<and>
     (\<forall>i<unat (kobject_npages (hdr (ks_obj s c))). pt_lookup s (PtActive c) i \<noteq> 0)"

definition container_holds :: "kstate \<Rightarrow> ptr \<Rightarrow> u64 \<Rightarrow> bool" where
  "container_holds s c kid \<longleftrightarrow> (\<exists>l\<in>set (container_locs s c). slot_holds kid (cs_read s l))"

lemma reads_cs: "reads s s' \<Longrightarrow> cs_read s' l = cs_read s l"
  by (simp add: cs_read_def reads_frame split: csloc.split)

lemma reads_container:
  assumes "reads s s'"
  shows "container_locs s' c = container_locs s c" "container_backed s' c = container_backed s c"
    "container_holds s' c kid = container_holds s c kid"
  using assms by (simp_all add: container_locs_def container_backed_def container_holds_def
    reads_cs reads_frame reads_pt_lookup)

lemma find_append: "find P (xs @ ys) = (case find P xs of Some x \<Rightarrow> Some x | None \<Rightarrow> find P ys)"
  by (induction xs) simp_all

lemma find_concat_map:
  "find P (concat (map f xs)) = (case find (\<lambda>x. find P (f x) \<noteq> None) xs of None \<Rightarrow> None | Some x \<Rightarrow> find P (f x))"
  by (induction xs) (auto simp: find_append split: option.split)

lemma paged_search_returns:
  assumes "container_backed s c"
  shows "returns (paged_search P c page_shared_ro) s (Ret (find (\<lambda>l. P (cs_read s l))
    (concat (map (\<lambda>i. page_slots (pt_lookup s (PtActive c) i)) [0..<unat (kobject_npages (hdr (ks_obj s c)))]))))"
proof -
  let ?n = "unat (kobject_npages (hdr (ks_obj s c)))"
  let ?g = "\<lambda>i. find (\<lambda>l. P (cs_read s l)) (page_slots (pt_lookup s (PtActive c) i))"
  have body: "returns (kbind (kobject_get_page c (of_nat i) page_shared_ro) (\<lambda>cpg. slot_search P (page_slots cpg))) s'
      (Ret (?g i))" if "i \<in> set [0..<?n]" "reads s s'" for i s'
  proof -
    have i: "i < ?n" "i < unat pagetree_maxpages" "pt_lookup s (PtActive c) i \<noteq> 0"
      using assms that(1) by (auto simp: container_backed_def)
    have "unat (of_nat i :: u64) = i" using i(2) by (simp add: pagetree_maxpages_val unat_of_nat)
    then have "returns (kobject_get_page c (of_nat i) page_shared_ro) s' (Ret (pt_lookup s (PtActive c) i))"
      unfolding kobject_get_page_shared_ro
      using kobject_get_page_ro_returns [of "of_nat i" s' c] i that(2) by (simp add: reads_frame reads_pt_lookup)
    then show ?thesis
      by (rule returns_kbind) (use that(2) in \<open>simp add: slot_search_def returns_def reads_cs\<close>)
  qed
  show ?thesis
    unfolding paged_search_def hd_of_def find_concat_map using returns_kfind [of "[0..<?n]" s _ ?g, OF body]
    by (simp add: returns_def kbind_get)
qed

lemma container_slot_find_returns:
  assumes "container_backed s c"
  shows "returns (container_slot_find c kid page_shared_ro) s
    (case find (\<lambda>l. slot_holds kid (cs_read s l)) (container_locs s c) of None \<Rightarrow> Err E_NOT_FOUND | Some l \<Rightarrow> Ret l)"
  using paged_search_returns [OF assms, of "slot_holds kid"]
  unfolding container_slot_find_def container_locs_def find_append slot_search_def
  by (cases "find (\<lambda>l. slot_holds kid (cs_read s l)) (inline_slots c)")
    (auto simp: returns_def kbind_get kbind_def kret_def kerr_def split: option.split)

lemma container_has_returns:
  assumes "container_backed s c"
  shows "returns (container_has c kid) s (if container_holds s c kid then Ret () else Err E_NOT_FOUND)"
proof -
  let ?r = "find (\<lambda>l. slot_holds kid (cs_read s l)) (container_locs s c)"
  have "container_holds s c kid \<longleftrightarrow> ?r \<noteq> None" by (auto simp: container_holds_def find_None_iff)
  then show ?thesis
    using container_slot_find_returns [OF assms, of kid]
    by (cases ?r) (auto simp: container_has_def kthen_def returns_def kbind_def kret_def)
qed

text \<open>A look-up that only adds to the comparison cache leaves the containers alone.\<close>

lemma cache_ent_of: "ent_of (s\<lparr> compare_cache := x, compare_cache_next := y \<rparr>) = ent_of s"
  by (simp add: fun_eq_iff ent_of_def pt_of_def split: entloc.split ptid.split)

lemma cache_pt_walk: "pt_walk (s\<lparr> compare_cache := x, compare_cache_next := y \<rparr>) e n l = pt_walk s e n l"
  by (induction l arbitrary: e n) (simp_all add: cache_ent_of Let_def)

lemma cache_container:
  fixes s x y defines "t \<equiv> s\<lparr> compare_cache := x, compare_cache_next := y \<rparr>"
  shows "container_holds t c kid = container_holds s c kid" "container_backed t c = container_backed s c"
proof -
  have l: "pt_lookup t p n = pt_lookup s p n" for p n
    by (simp add: t_def pt_lookup_def pt_entry_def cache_ent_of cache_pt_walk cong: option.case_cong)
  have "cs_read t l = cs_read s l" for l by (simp add: t_def cs_read_def split: csloc.split)
  then show "container_holds t c kid = container_holds s c kid" "container_backed t c = container_backed s c"
    by (simp_all add: container_holds_def container_locs_def container_backed_def l) (simp_all add: t_def)
qed

lemma checks_container:
  assumes "checks n s s'"
  shows "container_holds s' c kid = container_holds s c kid" "container_backed s' c = container_backed s c"
    "ko_parent (hdr (ks_obj s' p)) = ko_parent (hdr (ks_obj s p))" "ko_id (hdr (ks_obj s' p)) = ko_id (hdr (ks_obj s p))"
proof -
  have r: "reads s (s'\<lparr> compare_cache := compare_cache s, compare_cache_next := compare_cache_next s \<rparr>)"
    using assms by (simp add: checks_def)
  show "container_holds s' c kid = container_holds s c kid" "container_backed s' c = container_backed s c"
    using reads_container [OF r] unfolding cache_container by simp_all
  show "ko_parent (hdr (ks_obj s' p)) = ko_parent (hdr (ks_obj s p))" "ko_id (hdr (ks_obj s' p)) = ko_id (hdr (ks_obj s p))"
    using reads_frame [OF r] by simp_all
qed

lemma ko_find_id: "ko_find s kid = Some p \<Longrightarrow> ko_id (hdr (ks_obj s p)) = kid"
  by (auto simp: ko_find_def find_Some_iff)

lemma checks_real_id: "checks n s s' \<Longrightarrow> real_id s' kid = real_id s kid"
  using reads_frame(9,10) by (fastforce simp: checks_def real_id_def)

lemma kobject_get_passed:
  assumes "kobject_get kid ty iflow s = (Ret ko, s')" "ko_type (hdr (ks_obj s ko)) \<noteq> kobj_label \<longrightarrow> iflow_ready s ko" "cache_sound s"
  shows "ko_find s (real_id s kid) = Some ko" "ty = kobj_any \<or> ty = ko_type (hdr (ks_obj s ko))"
    "ko_type (hdr (ks_obj s ko)) = kobj_label \<or> flow_ok s (cur_thread s) ko iflow \<and>
      (iflow = iflow_rw \<longrightarrow> \<not> has_flag (ko_flags (hdr (ks_obj s ko))) KOBJ_READONLY)"
    "checks 3 s s'" "cache_sound s'"
proof -
  note f = kobject_get_returned [OF assms(1)]
  show "ko_find s (real_id s kid) = Some ko" "ty = kobj_any \<or> ty = ko_type (hdr (ks_obj s ko))" using f by blast+
  show "ko_type (hdr (ks_obj s ko)) = kobj_label \<or> flow_ok s (cur_thread s) ko iflow \<and>
      (iflow = iflow_rw \<longrightarrow> \<not> has_flag (ko_flags (hdr (ks_obj s ko))) KOBJ_READONLY)" "checks 3 s s'" "cache_sound s'"
    using f assms(2,3) iflow_check_decides [of s ko iflow] by (auto simp: decides_def checks_def split: if_splits)
qed

lemma kobject_get_checked:
  assumes "kobject_get kid ty iflow s = (Ret ko, s')" "kid \<noteq> kobject_id_thread_sg"
    "ko_type (hdr (ks_obj s ko)) \<noteq> kobj_label" "iflow_ready s ko"
  shows "ko_find s kid = Some ko" "ty = kobj_any \<or> ty = ko_type (hdr (ks_obj s ko))"
    "flow_ok s (cur_thread s) ko iflow" "iflow = iflow_rw \<longrightarrow> \<not> has_flag (ko_flags (hdr (ks_obj s ko))) KOBJ_READONLY"
    "checks 3 s s'" "cache_sound s'"
proof -
  have "cache_sound s" using assms(4) by (simp add: iflow_ready_def)
  note p = kobject_get_passed [OF assms(1) _ this]
  show "ko_find s kid = Some ko" using p(1) assms(2,4) by (simp add: real_id_plain)
  show "ty = kobj_any \<or> ty = ko_type (hdr (ks_obj s ko))" using p(2) assms(4) by simp
  show "flow_ok s (cur_thread s) ko iflow" "iflow = iflow_rw \<longrightarrow> \<not> has_flag (ko_flags (hdr (ks_obj s ko))) KOBJ_READONLY"
    using p(3) assms(3,4) by simp_all
  show "checks 3 s s'" "cache_sound s'" using p(4,5) assms(4) by simp_all
qed

lemma ktry_RetE:
  assumes "ktry m f s = (Ret b, t)"
  obtains a s' where "m s = (Ret a, s')" "f (Inr a) s' = (Ret b, t)"
  | e s' where "m s = (Err e, s')" "f (Inl e) s' = (Ret b, t)"
  using assms by (auto simp: ktry_def split: prod.splits outcome.splits)

lemma cobj_get_steps:
  assumes "cobj_get ref ty iflow s = (Ret ko, s')"
  obtains s1 where "kobject_get (cobj_object ref) ty iflow s = (Ret ko, s1)" "global_object s ref"
  | s1 c s2 where "kobject_get (cobj_object ref) ty iflow s = (Ret ko, s1)"
      "container_find (cobj_container ref) iflow_read s1 = (Ret c, s2)"
      "cobj_object ref = ko_id (hdr (ks_obj s2 c)) \<or> ko_parent (hdr (ks_obj s2 ko)) = cobj_container ref \<or>
       (\<exists>l s3. container_slot_find c (cobj_object ref) page_shared_ro s2 = (Ret l, s3))"
  using assms
  by (auto simp: cobj_get_def kbind_get Let_def hd_of_def kret_def kerr_def elim!: ktry_RetE kthen_RetE split: if_splits)

text \<open>C4: \<open>cobj_get\<close> hands out an object only if, unless it is a label, which anybody may look at, the labels allow the current thread the flow asked for and
  the object is not read-only when it is to be written; and, unless the object is the current thread or
  its thread-local segment named without a container, only through a container that the current thread may read and that has the id asked for itself, is the object's
  parent, or holds the id in one of its slots. As for \<open>kobject_get\<close>, the reserved id stands for the thread-local segment of the current thread; the labels
  are in core, the comparison cache holds only what is true and its counter is not at the end of its range, and the pages of the container are in core.\<close>

theorem cobj_get_contained:
  assumes "cobj_get ref ty iflow s = (Ret ko, s')" "cache_sound s" "unat (compare_cache_next s) + 6 < 2 ^ 31"
    "ko_type (hdr (ks_obj s ko)) \<noteq> kobj_label \<longrightarrow> iflow_ready s ko"
    "\<And>c. ko_find s (real_id s (cobj_container ref)) = Some c \<Longrightarrow> iflow_ready s c \<and> container_backed s c"
  shows "ko_find s (real_id s (cobj_object ref)) = Some ko \<and>
    (ko_type (hdr (ks_obj s ko)) = kobj_label \<or> flow_ok s (cur_thread s) ko iflow \<and>
      (iflow = iflow_rw \<longrightarrow> \<not> has_flag (ko_flags (hdr (ks_obj s ko))) KOBJ_READONLY)) \<and>
    (global_object s ref \<or>
     (\<exists>c. ko_find s (real_id s (cobj_container ref)) = Some c \<and> ko_type (hdr (ks_obj s c)) = kobj_container \<and>
        flow_ok s (cur_thread s) c iflow_read \<and>
        (ko_id (hdr (ks_obj s c)) = cobj_object ref \<or> ko_parent (hdr (ks_obj s ko)) = cobj_container ref \<or>
         container_holds s c (cobj_object ref))))"
  using assms(1)
proof (rule cobj_get_steps)
  fix s1 assume "kobject_get (cobj_object ref) ty iflow s = (Ret ko, s1)" "global_object s ref"
  then show ?thesis using kobject_get_passed(1,3) [OF _ assms(4,2)] by blast
next
  fix s1 c s2
  assume g: "kobject_get (cobj_object ref) ty iflow s = (Ret ko, s1)" "container_find (cobj_container ref) iflow_read s1 = (Ret c, s2)"
    and how: "cobj_object ref = ko_id (hdr (ks_obj s2 c)) \<or> ko_parent (hdr (ks_obj s2 ko)) = cobj_container ref \<or>
       (\<exists>l s3. container_slot_find c (cobj_object ref) page_shared_ro s2 = (Ret l, s3))"
  note k = kobject_get_passed [OF g(1) assms(4,2)]
  note f1 = checks_frame [OF k(4)] flow_ok_frame [OF k(4)] checks_container [OF k(4)] checks_real_id [OF k(4)]
  have gc: "kobject_get (cobj_container ref) kobj_container iflow_read s1 = (Ret c, s2)" using g(2) by (simp add: container_find_def)
  have c: "ko_find s (real_id s (cobj_container ref)) = Some c" using kobject_get_returned [OF gc] by (simp add: f1)
  have r1: "iflow_ready s1 c" using iflow_ready_later [OF _ k(4,5) assms(3)] assms(5) [OF c] by blast
  note kc = kobject_get_passed [OF gc _ k(5)]
  have p: "ko_type (hdr (ks_obj s c)) = kobj_container" "flow_ok s (cur_thread s) c iflow_read" "checks 3 s1 s2"
    using kc(2-4) r1 by (auto simp: f1)
  note f2 = checks_container [OF p(3)]
  have b: "container_backed s2 c" using assms(5) [OF c] by (simp add: f1 f2)
  have "container_holds s c (cobj_object ref)" if "container_slot_find c (cobj_object ref) page_shared_ro s2 = (Ret l, s3)" for l s3
    using container_slot_find_returns [OF b, of "cobj_object ref"] that f1 f2
    by (auto simp: returns_def container_holds_def find_Some_iff split: option.splits) (metis checks_container(2) [OF k(4)] checks_container(2) [OF p(3)] nth_mem container_holds_def)
  then show ?thesis using how c k(1,3) p f1 f2 by auto
qed

lemma flow_state_container:
  "container_backed flow_state 9" "container_holds flow_state 9 22"
proof -
  have n: "kobject_npages (hdr (ks_obj flow_state 9)) = 0"
    by (simp add: flow_state_def kobject_npages_def hdr0_def ROUNDUP_def ROUNDDOWN_def PGSIZE_def)
  then show "container_backed flow_state 9" by (simp add: container_backed_def)
  have "CsInline 9 1 \<in> set (container_locs flow_state 9)"
    by (simp add: container_locs_def inline_slots_def NUM_CT_SLOT_INLINE_def)
  moreover have "slot_holds 22 (cs_read flow_state (CsInline 9 1))"
    by (simp add: slot_holds_def cs_read_def flow_state_def container0_def NUM_CT_SLOT_INLINE_def)
  ultimately show "container_holds flow_state 9 22" unfolding container_holds_def by blast
qed

theorem cobj_get_contained_witness:
  "\<exists>s'. cobj_get (COBJ 23 22) kobj_segment iflow_read flow_state = (Ret 8, s') \<and>
     (\<exists>c. ko_find flow_state 23 = Some c \<and> flow_ok flow_state 3 c iflow_read \<and>
        (ko_id (hdr (ks_obj flow_state c)) = 22 \<or> ko_parent (hdr (ks_obj flow_state 8)) = 23 \<or> container_holds flow_state c 22))"
proof -
  let ?s = flow_state and ?r = "COBJ 23 22"
  have sg: "(22 :: u64) \<noteq> kobject_id_thread_sg" "(23 :: u64) \<noteq> kobject_id_thread_sg"
    by (simp_all add: kobject_id_thread_sg_def)
  have gl: "\<not> global_object ?s ?r" by (simp add: global_object_def)
  obtain s1 where s1: "kobject_get 22 kobj_segment iflow_read ?s = (Ret 8, s1)" "checks 3 ?s s1" "cache_sound s1"
    using kobject_get_grants [of ?s 22 8 kobj_segment iflow_read] flow_state_ready
    by (auto simp: flow_state_find flow_state_hdr flow_state_ok sg has_flag_def)
  note f1 = checks_frame [OF s1(2)] flow_ok_frame [OF s1(2)] checks_container [OF s1(2)]
  have r1: "iflow_ready s1 9" by (rule iflow_ready_later [OF flow_state_ready(3) s1(2,3)]) (simp add: flow_state_hdr)
  have fl: "ko_flags (hdr (ks_obj s1 9)) = 0 \<or> ko_flags (hdr (ks_obj s1 9)) = KOBJ_SHARED_MAPPINGS"
    using checks_flags [OF s1(2), of 9] by (auto simp: shared_bit_def flow_state_hdr)
  obtain s2 where s2: "container_find 23 iflow_read s1 = (Ret 9, s2)" "checks 3 s1 s2"
    using kobject_get_grants [of s1 23 9 kobj_container iflow_read] r1 fl
    by (auto simp: container_find_def f1 flow_state_find flow_state_hdr flow_state_ok sg has_flag_def KOBJ_READONLY_def KOBJ_SHARED_MAPPINGS_def)
  note f2 = checks_container [OF s2(2)]
  have "container_backed s2 9" "container_holds s2 9 22" by (simp_all add: f1 f2 flow_state_container)
  then obtain l s3 where s3: "container_slot_find 9 22 page_shared_ro s2 = (Ret l, s3)"
    using container_slot_find_returns [of s2 9 22]
    by (auto simp: returns_def container_holds_def find_None_iff split: option.splits)
  have id9: "ko_id (hdr (ks_obj s2 9)) = 23" "ko_parent (hdr (ks_obj s2 8)) = 0"
    by (simp_all add: f1 f2 flow_state_def hdr0_def)
  have run: "cobj_get ?r kobj_segment iflow_read ?s = (Ret 8, s3)"
    by (simp add: cobj_get_def Let_def kbind_get gl ktry_def s1(1) s2(1) hd_of_def id9 kthen_case s3 kret_def)
  have id: "real_id ?s 22 = 22" "real_id ?s 23 = 23" by (simp_all add: real_id_plain sg)
  show ?thesis
    using cobj_get_contained [OF run] run gl flow_state_ready(2,3) flow_state_container
    by (auto simp: id flow_state_hdr flow_state_find iflow_ready_def)
qed

end
