(* ===== verification/Quota.thy ===== *)
theory Quota
  imports Ctslot Handle
begin

unbundle bit_operations_syntax

text \<open>
  Quotas and references of kernel objects (\<^verbatim>\<open>src/kern/kern/kobj.c\<close>). Every object has a total and a used quota; an object in a
  container is charged to the container with its total. An object that needs more asks its parent, which may have to
  ask its own parent first.

  Main results: borrowing never creates quota, since what an object's total grows by is charged to its parent; and it keeps
  \<open>used \<le> total\<close>.
\<close>

subsection \<open>Borrowing\<close>

text \<open>
  \<^verbatim>\<open>kobject_borrow_parent_quota_one\<close> with a bound on the walk up the parents. \<open>again\<close> is its
  variable \<^verbatim>\<open>success\<close>: whether it has gone up, so that the caller must try again.
\<close>

definition quota_avail :: "kobject_hdr \<Rightarrow> u64" where
  "quota_avail h = ko_quota_total h - ko_quota_used h"

fun borrow_from :: "nat \<Rightarrow> bool \<Rightarrow> ptr \<Rightarrow> u64 \<Rightarrow> unit kernel" where
  "borrow_from 0 again ko nbytes = knofuel"
| "borrow_from (Suc n) again ko nbytes =
     kbind (hd_of ko) (\<lambda>h.
     let success = (if again then kerr E_AGAIN else kret ())
     in if has_flag (ko_flags h) KOBJ_FIXED_QUOTA then kerr E_FIXED_QUOTA
        else if ko_ref h = 0
        then kthen (upd_hdr ko (\<lambda>h. h\<lparr> ko_quota_total := ko_quota_total h + nbytes \<rparr>)) success
        else kthen (kassert (ko_parent h \<noteq> 0))
            (kbind (kobject_get (ko_parent h) kobj_any iflow_rw) (\<lambda>parent.
             kthen (kobject_dirty parent)
            (kbind (hd_of parent) (\<lambda>ph.
             if ko_quota_total ph \<noteq> CT_QUOTA_INF \<and> quota_avail ph < nbytes
             then borrow_from n True parent (nbytes - quota_avail ph)
             else kthen (upd_hdr parent (\<lambda>h. h\<lparr> ko_quota_used := ko_quota_used h + nbytes \<rparr>))
                 (kthen (upd_hdr ko (\<lambda>h. h\<lparr> ko_quota_total := ko_quota_total h + nbytes \<rparr>)) success))))))"

definition kobject_borrow_parent_quota_one :: "ptr \<Rightarrow> u64 \<Rightarrow> unit kernel" where
  "kobject_borrow_parent_quota_one ko nbytes =
     kbind (kget (\<lambda>s. Suc (length (ko_list s)))) (\<lambda>n. borrow_from n False ko nbytes)"

text \<open>Each round after the first stops one level lower, so there are no more rounds than objects.\<close>

fun borrow_rounds :: "nat \<Rightarrow> ptr \<Rightarrow> u64 \<Rightarrow> unit kernel" where
  "borrow_rounds 0 ko nbytes = knofuel"
| "borrow_rounds (Suc n) ko nbytes =
     ktry (kobject_borrow_parent_quota_one ko nbytes) (\<lambda>r.
     case r of
       Inr _ \<Rightarrow> kret ()
     | Inl e \<Rightarrow> if e = E_AGAIN then borrow_rounds n ko nbytes else kerr e)"

definition kobject_borrow_parent_quota :: "ptr \<Rightarrow> u64 \<Rightarrow> unit kernel" where
  "kobject_borrow_parent_quota ko nbytes =
     kbind (kget (\<lambda>s. Suc (length (ko_list s)))) (\<lambda>n. borrow_rounds n ko nbytes)"

subsection \<open>Reservations and references\<close>

record kobject_quota_resv =
  qr_ko :: ptr
  qr_nbytes :: u64

definition kobject_qres_init :: "ptr \<Rightarrow> kobject_quota_resv kernel" where
  "kobject_qres_init ko = kthen (kassert (ko \<noteq> 0)) (kret \<lparr> qr_ko = ko, qr_nbytes = 0 \<rparr>)"

definition kobject_qres_reserve :: "kobject_quota_resv \<Rightarrow> ptr \<Rightarrow> kobject_quota_resv kernel" where
  "kobject_qres_reserve qr ko =
     kthen (kassert (ko \<noteq> 0))
    (kbind (hd_of (qr_ko qr)) (\<lambda>qh.
     if ko_quota_total qh = CT_QUOTA_INF then kret qr
     else kbind (hd_of ko) (\<lambda>h.
       kthen (if quota_avail qh < ko_quota_total h
              then ktry (kobject_borrow_parent_quota (qr_ko qr) (ko_quota_total h - quota_avail qh)) (\<lambda>r.
                case r of
                  Inl e \<Rightarrow> if e = E_RESTART then kerr e else kerr E_RESOURCE
                | Inr _ \<Rightarrow> kret ())
              else kret ())
      (kbind (hd_of ko) (\<lambda>h.
       kthen (upd_hdr (qr_ko qr) (\<lambda>q. q\<lparr> ko_quota_used := ko_quota_used q + ko_quota_total h \<rparr>))
      (kbind (hd_of ko) (\<lambda>h. kret (qr\<lparr> qr_nbytes := qr_nbytes qr + ko_quota_total h \<rparr>))))))))"

definition kobject_qres_take :: "kobject_quota_resv \<Rightarrow> ptr \<Rightarrow> kobject_quota_resv kernel" where
  "kobject_qres_take qr ko =
     kthen (kassert (ko \<noteq> 0))
    (kbind (hd_of (qr_ko qr)) (\<lambda>qh.
     if ko_quota_total qh = CT_QUOTA_INF then kret qr
     else kbind (hd_of ko) (\<lambda>h.
       kthen (kassert (qr_nbytes qr \<ge> ko_quota_total h))
         (kret (qr\<lparr> qr_nbytes := qr_nbytes qr - ko_quota_total h \<rparr>)))))"

definition kobject_qres_release :: "kobject_quota_resv \<Rightarrow> unit kernel" where
  "kobject_qres_release qr =
     upd_hdr (qr_ko qr) (\<lambda>h. h\<lparr> ko_quota_used := ko_quota_used h - qr_nbytes qr \<rparr>)"

definition kobject_incref_resv :: "ptr \<Rightarrow> kobject_quota_resv option \<Rightarrow> kobject_quota_resv option kernel" where
  "kobject_incref_resv kh qr =
     kthen (kobject_dirty kh)
    (kbind (hd_of kh) (\<lambda>h.
     kthen (kwhen (ko_ref h = 0 \<and> ko_pin h = 0) (gc_list_remove kh))
    (kthen (upd_hdr kh (\<lambda>h. h\<lparr> ko_ref := ko_ref h + 1 \<rparr>))
       (case qr of
          None \<Rightarrow> kret None
        | Some q \<Rightarrow>
            kbind (kobject_qres_take q kh) (\<lambda>q'.
            kbind (hd_of (qr_ko q')) (\<lambda>qh.
            kthen (upd_hdr kh (\<lambda>h. h\<lparr> ko_parent := ko_id qh \<rparr>)) (kret (Some q'))))))))"

definition kobject_incref :: "ptr \<Rightarrow> ptr \<Rightarrow> unit kernel" where
  "kobject_incref kh refholder =
     kbind (kobject_qres_init refholder) (\<lambda>qr.
     kbind (kobject_qres_reserve qr kh) (\<lambda>qr.
     kthen (kobject_incref_resv kh (Some qr)) (kret ())))"

definition kobject_decref :: "ptr \<Rightarrow> ptr \<Rightarrow> unit kernel" where
  "kobject_decref kh refholder =
     kthen (kobject_dirty kh)
    (kbind (hd_of kh) (\<lambda>h.
     kthen (kassert (ko_ref h \<noteq> 0))
    (kthen (upd_hdr kh (\<lambda>h. h\<lparr> ko_ref := ko_ref h - 1 \<rparr>))
    (kbind (hd_of kh) (\<lambda>h.
     kthen (upd_hdr refholder (\<lambda>r. r\<lparr> ko_quota_used := ko_quota_used r - ko_quota_total h \<rparr>))
    (kbind (hd_of refholder) (\<lambda>rh.
     kthen (upd_hdr kh (\<lambda>h. if ko_id rh = ko_parent h then h\<lparr> ko_parent := 0 \<rparr> else h))
    (kbind (hd_of kh) (\<lambda>h.
     kthen (kwhen (ko_ref h = 0 \<and> ko_pin h = 0) (gc_list_insert kh))
    (kthen (kwhen (ko_type h = kobj_thread) (thread_on_decref kh (ko_id rh)))
       (kwhen (ko_type h = kobj_segment) (segment_on_decref kh (ko_id rh)))))))))))))"

subsection \<open>Resizing and copying\<close>

text \<open>Adding a zeroed page; if that fails, all pages added so far are dropped again.\<close>

definition add_page :: "ptr \<Rightarrow> nat \<Rightarrow> nat \<Rightarrow> nat \<Rightarrow> nat kernel" where
  "add_page ko curnpg i maxalloc =
     ktry (kbind page_alloc (\<lambda>p.
           ktry (pagetree_put_page (PtActive ko) (of_nat i) p) (\<lambda>r.
           case r of Inl e \<Rightarrow> kthen (page_free p) (kerr e) | Inr _ \<Rightarrow> kret p))) (\<lambda>r.
     case r of
       Inl e \<Rightarrow> kthen (kfor (\<lambda>j. kmust (pagetree_put_page (PtActive ko) (of_nat j) 0)) [curnpg..<maxalloc]) (kerr e)
     | Inr p \<Rightarrow> kthen (upd_page p (\<lambda>_. page0)) (kret (maxalloc + 1)))"

definition kobject_set_nbytes :: "ptr \<Rightarrow> u64 \<Rightarrow> unit kernel" where
  "kobject_set_nbytes kp nbytes =
     kbind (hd_of kp) (\<lambda>h.
     let curnpg = kobject_npages h;
         npages = ROUNDUP nbytes PGSIZE div PGSIZE;
         quota_diff = (npages - curnpg) * PGSIZE;
         abs_qdiff = (if sint quota_diff > 0 then quota_diff else - quota_diff)
     in if npages > pagetree_maxpages then kerr E_RANGE
        else kthen (if sint quota_diff > 0 \<and> ko_quota_total h \<noteq> CT_QUOTA_INF \<and> quota_avail h < abs_qdiff
                    then ktry (kobject_borrow_parent_quota kp abs_qdiff) (\<lambda>r.
                      case r of Inl _ \<Rightarrow> kerr E_RESOURCE | Inr _ \<Rightarrow> kret ())
                    else kret ())
         (if nbytes \<ge> CT_QUOTA_INF then kerr E_RESOURCE
          else kbind (hd_of kp) (\<lambda>h.
            kthen (kwhen (npages < curnpg) (kassert (ko_pin_pg h = 0)))
           (kthen (kfor (\<lambda>i. kmust (pagetree_put_page (PtActive kp) (of_nat i) 0)) [unat npages..<unat curnpg])
           (kthen (kfold (add_page kp (unat curnpg)) [unat curnpg..<unat npages] (unat curnpg))
              (upd_hdr kp (\<lambda>h. h\<lparr> ko_nbytes := nbytes, ko_quota_used := ko_quota_used h + quota_diff \<rparr>)))))))"

definition kobject_copy_pages :: "ptr \<Rightarrow> ptr \<Rightarrow> unit kernel" where
  "kobject_copy_pages srch dsth =
     kthen (kobject_set_nbytes dsth 0)
    (kbind (hd_of dsth) (\<lambda>dh.
     if ko_ref dh \<noteq> 0 then kerr E_INVAL
     else kthen (pagetree_copy (PtActive srch) (PtActive dsth) (ParKobj dsth) False)
         (kbind (hd_of srch) (\<lambda>sh.
          upd_hdr dsth (\<lambda>h. h\<lparr> ko_nbytes := ko_nbytes sh,
            ko_quota_total := ko_quota_total h + ROUNDUP (ko_nbytes sh) PGSIZE,
            ko_quota_used := ko_quota_used h + ROUNDUP (ko_nbytes sh) PGSIZE \<rparr>)))))"

subsection \<open>Labels of objects, new objects\<close>

definition kobject_set_label_prepared ::
  "ptr \<Rightarrow> kolabel \<Rightarrow> ptr \<Rightarrow> ptr \<Rightarrow> kobject_quota_resv option \<Rightarrow> kobject_quota_resv option kernel" where
  "kobject_set_label_prepared kp idx old_label new_label qr =
     kbind (kget (\<lambda>s. (ko_label (hdr (ks_obj s kp)) idx, ko_id (hdr (ks_obj s old_label))))) (\<lambda>(cur, old_id).
     kthen (if old_label \<noteq> 0
            then kthen (kassert (cur = old_id)) (kobject_decref old_label kp)
            else kassert (cur = 0))
    (kbind (if new_label \<noteq> 0 then kobject_incref_resv new_label qr else kret qr) (\<lambda>qr'.
     kbind (hd_of new_label) (\<lambda>nh.
     kthen (upd_hdr kp (\<lambda>h. h\<lparr> ko_label := (ko_label h)(idx := if new_label \<noteq> 0 then ko_id nh else 0) \<rparr>))
       (kret qr')))))"

definition kobject_set_label :: "ptr \<Rightarrow> kolabel \<Rightarrow> ptr \<Rightarrow> unit kernel" where
  "kobject_set_label kp idx new_label =
     kbind (kobject_get_label kp idx) (\<lambda>old_label.
     kbind (kobject_qres_init kp) (\<lambda>qr.
     kbind (if new_label \<noteq> 0 then kobject_qres_reserve qr new_label else kret qr) (\<lambda>qr.
     kthen (kobject_set_label_prepared kp idx old_label new_label (Some qr)) (kret ()))))"

text \<open>The labels are dropped in the reverse order when a later step of an allocation fails.\<close>

definition kobject_alloc :: "kobject_type \<Rightarrow> ptr \<Rightarrow> ptr \<Rightarrow> ptr kernel" where
  "kobject_alloc type l c =
     kthen (kassert ((type = kobj_label) \<noteq> (l \<noteq> 0)))
    (kthen (kassert ((type = kobj_thread \<or> type = kobj_gate) \<noteq> (c = 0)))
    (kbind page_alloc (\<lambda>ko.
     kthen (upd_obj ko (\<lambda>_. kobject0))
    (kthen (pagetree_init (PtActive ko) (ParKobj ko))
    (kbind handle_alloc (\<lambda>kid.
     kthen (upd_hdr ko (\<lambda>h. h\<lparr> ko_type := type, ko_id := kid, ko_flags := KOBJ_DIRTY,
              ko_quota_used := KOBJ_DISK_SIZE, ko_quota_total := KOBJ_DISK_SIZE \<rparr>))
       (let err_page = (\<lambda>e. kthen (page_free ko) (kerr e));
            err_label = (\<lambda>e. kthen (kobject_set_label_prepared ko kolabel_tracking l 0 None) (err_page e));
            err_clear = (\<lambda>e. kthen (kobject_set_label_prepared ko kolabel_clearance c 0 None) (err_label e))
        in ktry (kobject_set_label ko kolabel_tracking l) (\<lambda>r.
           case r of Inl e \<Rightarrow> err_page e | Inr _ \<Rightarrow>
           ktry (kobject_set_label ko kolabel_clearance c) (\<lambda>r.
           case r of Inl e \<Rightarrow> err_label e | Inr _ \<Rightarrow>
           ktry (if type = kobj_label then kret () else kobject_iflow_check ko iflow_alloc) (\<lambda>r.
           case r of Inl e \<Rightarrow> err_clear e | Inr _ \<Rightarrow>
             kthen (kobject_negative_remove kid)
            (kthen (kmod (\<lambda>s. s\<lparr> ko_list := ko # ko_list s,
                       ko_gc_list := ko # ko_gc_list s,
                       ko_hash := (ko_hash s)(kid AND (kobj_hash_size - 1) := ko # ko_hash s (kid AND (kobj_hash_size - 1))) \<rparr>))
               (kret ko))))))))))))"

subsection \<open>Looking up objects does not touch the books\<close>

text \<open>The books: who is in core, and ids, references, quotas, parents and the fixed-quota flag.\<close>

record book =
  b_id :: u64
  b_ref :: u64
  b_total :: u64
  b_used :: u64
  b_parent :: u64
  b_fixed :: bool

definition hdr_book :: "kobject_hdr \<Rightarrow> book" where
  "hdr_book h = \<lparr> b_id = ko_id h, b_ref = ko_ref h, b_total = ko_quota_total h, b_used = ko_quota_used h,
     b_parent = ko_parent h, b_fixed = has_flag (ko_flags h) KOBJ_FIXED_QUOTA \<rparr>"

definition books :: "kstate \<Rightarrow> ptr \<Rightarrow> book" where
  "books s p = hdr_book (hdr (ks_obj s p))"

definition quota_view :: "kstate \<Rightarrow> (ptr \<Rightarrow> book) \<times> ptr list \<times> (u64 \<Rightarrow> ptr list)" where
  "quota_view s = (books s, ko_list s, ko_hash s)"

text \<open>Operations that leave the books alone, do not run out of a bound and do not return \<^verbatim>\<open>-E_AGAIN\<close>.\<close>

definition plain :: "'a outcome \<Rightarrow> bool" where
  "plain r \<longleftrightarrow> r \<noteq> NoFuel \<and> r \<noteq> Err E_AGAIN"

definition same_books :: "'a kernel \<Rightarrow> bool" where
  "same_books m \<longleftrightarrow> (\<forall>s. plain (fst (m s)) \<and> quota_view (snd (m s)) = quota_view s)"

lemma same_booksD: "same_books m \<Longrightarrow> m s = (r, s') \<Longrightarrow> plain r \<and> quota_view s' = quota_view s"
  unfolding same_books_def by (metis fst_conv snd_conv)

lemma same_booksI: "(\<And>s r s'. m s = (r, s') \<Longrightarrow> plain r \<and> quota_view s' = quota_view s) \<Longrightarrow> same_books m"
  unfolding same_books_def by (metis prod.collapse)

lemma same_books_kbind:
  assumes m: "same_books m" and f: "\<And>a. same_books (f a)"
  shows "same_books (kbind m f)"
proof (rule same_booksI)
  fix s r s' assume run: "kbind m f s = (r, s')"
  obtain rm s1 where rm: "m s = (rm, s1)" by fastforce
  then have v: "plain rm" "quota_view s1 = quota_view s" using same_booksD [OF m] by blast+
  show "plain r \<and> quota_view s' = quota_view s"
    using run rm v same_booksD [OF f] by (cases rm) (fastforce simp: kbind_def plain_def)+
qed

lemma same_books_ktry:
  assumes m: "same_books m" and f: "\<And>a. same_books (f a)"
  shows "same_books (ktry m f)"
proof (rule same_booksI)
  fix s r s' assume run: "ktry m f s = (r, s')"
  obtain rm s1 where rm: "m s = (rm, s1)" by fastforce
  then have v: "plain rm" "quota_view s1 = quota_view s" using same_booksD [OF m] by blast+
  show "plain r \<and> quota_view s' = quota_view s"
    using run rm v same_booksD [OF f] by (cases rm) (fastforce simp: ktry_def plain_def)+
qed

lemma same_books_prims:
  "same_books (kassert b)" "same_books (kget g)" "same_books (kret x)" "e \<noteq> E_AGAIN \<Longrightarrow> same_books (kerr e)" "same_books kpanic"
  by (simp_all add: same_books_def plain_def kassert_def kret_def kerr_def kpanic_def)

lemma same_books_kfor: "(\<And>y. same_books (f y)) \<Longrightarrow> same_books (kfor f ys)"
  by (induction ys) (simp_all add: same_books_prims kthen_def same_books_kbind)

lemma same_books_kfind: "(\<And>y. same_books (f y)) \<Longrightarrow> same_books (kfind f ys)"
  by (induction ys) (auto simp: same_books_prims intro!: same_books_kbind split: option.split)

lemma same_books_control:
  "same_books m \<Longrightarrow> same_books k \<Longrightarrow> same_books (kthen m k)" "same_books w \<Longrightarrow> same_books (kwhen b w)"
  "same_books i1 \<Longrightarrow> same_books i2 \<Longrightarrow> same_books (if c then i1 else i2)"
  "same_books o1 \<Longrightarrow> (\<And>y. same_books (o2 y)) \<Longrightarrow> same_books (case oo of None \<Rightarrow> o1 | Some y \<Rightarrow> o2 y)"
  "(\<And>y. same_books (s1 y)) \<Longrightarrow> (\<And>y. same_books (s2 y)) \<Longrightarrow> same_books (case ss of Inl y \<Rightarrow> s1 y | Inr y \<Rightarrow> s2 y)"
  "(\<And>y z. same_books (p1 y z)) \<Longrightarrow> same_books (case pp of (y, z) \<Rightarrow> p1 y z)"
  "(\<And>y. same_books (l1 y)) \<Longrightarrow> same_books (let y = v in l1 y)"
  by (auto simp: kthen_def kwhen_def Let_def same_books_prims intro: same_books_kbind split: option.split sum.split prod.split)

lemmas same_books_rules = same_books_control same_books_kbind same_books_ktry same_books_prims same_books_kfor same_books_kfind

lemma same_books_upd_hdr: "(\<And>h. hdr_book (f h) = hdr_book h) \<Longrightarrow> same_books (upd_hdr p f)"
  by (auto simp: same_books_def plain_def upd_hdr_def upd_obj_def quota_view_def books_def fun_eq_iff)

lemma same_books_upd_obj: "(\<And>k. hdr (f k) = hdr k) \<Longrightarrow> same_books (upd_obj p f)"
  by (auto simp: same_books_def plain_def upd_obj_def quota_view_def books_def fun_eq_iff)

lemma same_books_kmod: "(\<And>s. quota_view (f s) = quota_view s) \<Longrightarrow> same_books (kmod f)"
  by (simp add: same_books_def plain_def)

lemma same_books_upd:
  "same_books (upd_th t fth)" "same_books (upd_pi p fpi)" "same_books (upd_neg i fneg)"
  unfolding upd_th_def upd_pi_def upd_neg_def
  by (rule same_books_upd_obj same_books_kmod; simp add: quota_view_def books_def fun_eq_iff)+

text \<open>Setting flags other than the fixed-quota flag.\<close>

lemma hdr_book_flags:
  "f AND KOBJ_FIXED_QUOTA = 0 \<Longrightarrow> hdr_book (h\<lparr> ko_flags := ko_flags h OR f \<rparr>) = hdr_book h"
  by (simp add: hdr_book_def has_flag_def bit.conj_disj_distrib2)

lemmas same_books_intros = same_books_rules same_books_upd same_books_upd_hdr

lemma same_books_flags: "same_books (kobject_dirty t)" "same_books (note_shared t p)"
  unfolding kobject_dirty_def note_shared_def pi_of_def
  by (intro same_books_intros hdr_book_flags; simp add: KOBJ_DIRTY_def KOBJ_SHARED_MAPPINGS_def KOBJ_FIXED_QUOTA_def)+

lemma same_books_threads:
  "same_books (thread_suspend t q)" "same_books (thread_suspend_cur q)"
proof -
  have pin: "same_books (kobject_pin_hdr t)" for t
    unfolding kobject_pin_hdr_def gc_list_remove_def hd_of_def
    by (intro same_books_intros same_books_kmod) (simp_all add: quota_view_def books_def hdr_book_def fun_eq_iff)
  have pass: "same_books (global_pass_update n)" for n
    unfolding global_pass_update_def karch_get_tsc_def
    by (intro same_books_intros same_books_kmod) (simp_all add: quota_view_def books_def fun_eq_iff)
  have adj: "same_books (thread_sched_adjust t b)" for t b
    unfolding thread_sched_adjust_def sched_leave_def sched_join_def obj_def
    by (intro same_books_intros same_books_kmod pass) (simp_all add: quota_view_def books_def fun_eq_iff)
  have slots: "same_books (kfor (\<lambda>sw. kmod (sync_slot_remove sw)) sws)" for sws
    by (intro same_books_rules same_books_kmod) (simp add: sync_slot_remove_def Let_def quota_view_def books_def fun_eq_iff)
  have unlink: "same_books (thread_unlink t)" for t
    unfolding thread_unlink_def thread_list_remove_def sync_remove_thread_def obj_def
    by (intro same_books_intros same_books_kmod same_books_upd_obj slots) (simp_all add: quota_view_def books_def fun_eq_iff)
  show susp: "same_books (thread_suspend t q)" for t
    unfolding thread_suspend_def thread_link_def thread_pin_def obj_def
    by (intro same_books_intros same_books_kmod same_books_flags adj unlink pin) (simp_all add: quota_view_def books_def fun_eq_iff)
  show "same_books (thread_suspend_cur q)"
    unfolding thread_suspend_cur_def
    by (intro same_books_intros susp) (auto intro!: same_books_intros susp split: list.split)
qed

lemma same_books_entp: "same_books (get_entp_indirect_ro e n l p)"
  by (induction l arbitrary: e n p) (simp_all add: ent_page_def set_pi_parent_def same_books_intros Let_def)

lemma same_books_page_ro: "same_books (kobject_get_page_ro ko n)"
  unfolding kobject_get_page_ro_def pagetree_get_page_ro_def pagetree_get_entp_ro_def hd_of_def ent_page_def
  by (intro same_books_intros same_books_flags same_books_entp) simp_all

lemma same_books_label_read: "same_books (label_read l i)"
  unfolding label_read_def label_get_slotp_read_def by (intro same_books_intros same_books_page_ro)

lemma same_books_level: "same_books (label_get_level l h)" "same_books (level_cmp cmp a b)"
  unfolding label_get_level_def label_nents_def kmust_def level_cmp_def table_read_def
  by (intro same_books_intros same_books_label_read; simp)+

lemma same_books_compare: "same_books (label_compare l1 l2 cmp c)"
  unfolding label_compare_def label_nents_def hd_of_def compare_cached_def compare_cache_put_def
  by (intro same_books_intros same_books_label_read same_books_level same_books_kmod)
    (simp_all add: quota_view_def books_def fun_eq_iff)

lemma same_books_get_via: "(\<And>p. same_books (check p)) \<Longrightarrow> same_books (kobject_get_via check kid ty)"
  unfolding kobject_get_via_def kobject_translate_id_def kobject_negative_contains_def pstate_swapin_def
    kobject_negative_insert_def pstate_op_schedule_def hd_of_def
  by (intro same_books_intros same_books_threads same_books_kmod) (simp_all add: quota_view_def books_def fun_eq_iff)

lemma same_books_get: "same_books (kobject_get kid ty iflow)"
proof -
  have cmp: "same_books (label_compare_id a b c)" for a b c
    unfolding label_compare_id_def compare_cached_def
    by (intro same_books_intros same_books_get_via same_books_compare)
  have "same_books (kobject_iflow_check p iflow)" for p
    unfolding kobject_iflow_check_def hd_of_def by (cases iflow) (simp_all add: same_books_intros cmp Let_def)
  then show ?thesis unfolding kobject_get_def by (rule same_books_get_via)
qed

subsection \<open>Borrowing as a sequence of loans\<close>

text \<open>
  The abstract specification: a loan of \<open>d\<close> bytes raises the total of an object \<open>c\<close> and, if \<open>c\<close> is referenced, charges them to an object
  \<open>p\<close> with the id of its parent that has them to spare. \<open>loans L nb n\<close> is \<open>n\<close> loans in a row of at
  most \<open>nb\<close> bytes each, among the objects in \<open>L\<close>.
\<close>

definition grow :: "ptr \<Rightarrow> u64 \<Rightarrow> (ptr \<Rightarrow> book) \<Rightarrow> ptr \<Rightarrow> book" where
  "grow c d b = b(c := (b c)\<lparr> b_total := b_total (b c) + d \<rparr>)"

definition charge :: "ptr \<Rightarrow> u64 \<Rightarrow> (ptr \<Rightarrow> book) \<Rightarrow> ptr \<Rightarrow> book" where
  "charge p d b = b(p := (b p)\<lparr> b_used := b_used (b p) + d \<rparr>)"

inductive loans :: "ptr set \<Rightarrow> u64 \<Rightarrow> nat \<Rightarrow> (ptr \<Rightarrow> book) \<Rightarrow> (ptr \<Rightarrow> book) \<Rightarrow> bool" for L nb where
  loans_none: "loans L nb 0 b b"
| loans_free: "loans L nb n b b' \<Longrightarrow> c \<in> L \<Longrightarrow> \<not> b_fixed (b' c) \<Longrightarrow> b_ref (b' c) = 0 \<Longrightarrow>
    b_total (b' c) \<noteq> CT_QUOTA_INF \<Longrightarrow> d \<le> nb \<Longrightarrow> loans L nb (Suc n) b (grow c d b')"
| loans_parent: "loans L nb n b b' \<Longrightarrow> c \<in> L \<Longrightarrow> p \<in> L \<Longrightarrow> \<not> b_fixed (b' c) \<Longrightarrow> b_ref (b' c) \<noteq> 0 \<Longrightarrow>
    b_total (b' c) \<noteq> CT_QUOTA_INF \<Longrightarrow> b_id (b' p) = b_parent (b' c) \<Longrightarrow>
    b_total (b' p) = CT_QUOTA_INF \<or> d \<le> b_total (b' p) - b_used (b' p) \<Longrightarrow> d \<le> nb \<Longrightarrow>
    loans L nb (Suc n) b (grow c d (charge p d b'))"

lemma loans_static:
  assumes "loans L nb n b b'"
  shows "b_id (b' q) = b_id (b q)" "b_ref (b' q) = b_ref (b q)" "b_parent (b' q) = b_parent (b q)"
    "b_fixed (b' q) = b_fixed (b q)"
  using assms by (induction) (auto simp: grow_def charge_def)

lemma loans_trans:
  assumes "loans L nb m b' b''" "loans L nb n b b'"
  shows "loans L nb (m + n) b b''"
  using assms by (induction) (auto intro: loans.intros)

text \<open>What an object uses for itself: its use, less what is charged for its children.\<close>

definition own_use :: "ptr set \<Rightarrow> (ptr \<Rightarrow> book) \<Rightarrow> ptr \<Rightarrow> u64" where
  "own_use L b p = b_used (b p) - (\<Sum>c | c \<in> L \<and> b_ref (b c) \<noteq> 0 \<and> b_parent (b c) = b_id (b p). b_total (b c))"

lemma sum_grow:
  assumes "finite S"
  shows "(\<Sum>x\<in>S. b_total (grow c d b x)) = (\<Sum>x\<in>S. b_total (b x)) + (if c \<in> S then d else 0)"
proof (cases "c \<in> S")
  case True
  have "(\<Sum>x\<in>S - {c}. b_total (grow c d b x)) = (\<Sum>x\<in>S - {c}. b_total (b x))"
    by (rule sum.cong) (simp_all add: grow_def)
  then show ?thesis using True assms by (simp add: sum.remove [of S c] grow_def)
next
  case False
  then have "(\<Sum>x\<in>S. b_total (grow c d b x)) = (\<Sum>x\<in>S. b_total (b x))"
    by (intro sum.cong) (auto simp: grow_def)
  then show ?thesis using False by simp
qed

lemma loans_own_use:
  assumes "loans L nb n b b'" "finite L" "inj_on (\<lambda>p. b_id (b p)) L" "q \<in> L"
  shows "own_use L b' q = own_use L b q"
  using assms
proof (induction)
  case (loans_free n b b' c d)
  let ?S = "{x \<in> L. b_ref (b' x) \<noteq> 0 \<and> b_parent (b' x) = b_id (b' q)}"
  have "{x \<in> L. b_ref (grow c d b' x) \<noteq> 0 \<and> b_parent (grow c d b' x) = b_id (grow c d b' q)} = ?S"
    by (auto simp: grow_def)
  moreover have "b_used (grow c d b' q) = b_used (b' q)" by (simp add: grow_def)
  ultimately show ?case using loans_free by (simp add: own_use_def sum_grow)
next
  case (loans_parent n b b' c p d)
  let ?b = "charge p d b'"
  let ?S = "{x \<in> L. b_ref (b' x) \<noteq> 0 \<and> b_parent (b' x) = b_id (b' q)}"
  have S: "{x \<in> L. b_ref (grow c d ?b x) \<noteq> 0 \<and> b_parent (grow c d ?b x) = b_id (grow c d ?b q)} = ?S"
    by (auto simp: grow_def charge_def)
  have t: "(\<Sum>x\<in>?S. b_total (?b x)) = (\<Sum>x\<in>?S. b_total (b' x))" by (rule sum.cong) (simp_all add: charge_def)
  have "c \<in> ?S \<longleftrightarrow> p = q"
    using loans_parent loans_static [OF loans_parent.hyps(1)] by (auto simp: inj_on_def)
  then have "b_used (grow c d ?b q) - b_used (b' q) = (if c \<in> ?S then d else 0)"
    by (auto simp: grow_def charge_def)
  then have "own_use L (grow c d ?b) q = own_use L b' q"
    using loans_parent.prems(1) unfolding own_use_def S by (simp add: sum_grow t algebra_simps)
  then show ?case using loans_parent by simp
qed simp

text \<open>The invariant the header file documents, with a bound on the finite totals.\<close>

definition quota_ok :: "ptr set \<Rightarrow> (ptr \<Rightarrow> book) \<Rightarrow> nat \<Rightarrow> bool" where
  "quota_ok L b m \<longleftrightarrow> (\<forall>p\<in>L. b_total (b p) \<noteq> CT_QUOTA_INF \<longrightarrow> b_used (b p) \<le> b_total (b p) \<and> unat (b_total (b p)) \<le> m)"

lemma grow_total:
  assumes "unat (a :: u64) \<le> m" "d \<le> nb" "m + unat nb < 2 ^ 62" "u \<le> a"
  shows "a + d \<noteq> CT_QUOTA_INF" "u \<le> a + d" "unat (a + d) \<le> m + unat nb"
proof -
  have d: "unat d \<le> unat nb" using assms(2) by (simp add: word_le_nat_alt)
  have "unat a + unat d < 2 ^ 64" using assms(1,3) d by simp
  then have s: "unat (a + d) = unat a + unat d" by (simp add: unat_add_lem [symmetric])
  then show "unat (a + d) \<le> m + unat nb" using assms(1) d by simp
  have "unat (a + d) < 2 ^ 62" using s assms(1,3) d by simp
  moreover have "unat CT_QUOTA_INF = 2 ^ 62" by (simp add: CT_QUOTA_INF_def)
  ultimately show "a + d \<noteq> CT_QUOTA_INF" by auto
  show "u \<le> a + d" using assms(4) s by (simp add: word_le_nat_alt)
qed

lemma charge_used:
  assumes "(u :: u64) \<le> t" "d \<le> t - u"
  shows "u + d \<le> t"
proof -
  have "unat d \<le> unat t - unat u" using assms by (simp add: word_le_nat_alt unat_sub)
  moreover have "unat u \<le> unat t" using assms(1) by (simp add: word_le_nat_alt)
  ultimately have "unat u + unat d \<le> unat t" by simp
  moreover have "unat (u + d) = unat u + unat d"
    using calculation unat_less_exp [of t] by (simp add: unat_add_lem [symmetric])
  ultimately show ?thesis by (simp add: word_le_nat_alt)
qed

lemma quota_ok_grow:
  assumes "quota_ok L b m" "c \<in> L" "b_total (b c) \<noteq> CT_QUOTA_INF" "d \<le> nb" "m + unat nb < 2 ^ 62"
  shows "quota_ok L (grow c d b) (m + unat nb)"
  unfolding quota_ok_def
proof (intro ballI impI)
  fix q assume q: "q \<in> L" "b_total (grow c d b q) \<noteq> CT_QUOTA_INF"
  have c: "b_used (b c) \<le> b_total (b c)" "unat (b_total (b c)) \<le> m" using assms(1-3) by (simp_all add: quota_ok_def)
  show "b_used (grow c d b q) \<le> b_total (grow c d b q) \<and> unat (b_total (grow c d b q)) \<le> m + unat nb"
  proof (cases "q = c")
    case True
    then show ?thesis using grow_total [OF c(2) assms(4,5) c(1)] by (simp add: grow_def)
  next
    case False
    then show ?thesis using q assms(1) by (simp add: grow_def quota_ok_def trans_le_add1)
  qed
qed

lemma quota_ok_charge:
  assumes "quota_ok L b m" "b_total (b p) = CT_QUOTA_INF \<or> d \<le> b_total (b p) - b_used (b p)"
  shows "quota_ok L (charge p d b) m"
  using assms by (auto simp: quota_ok_def charge_def intro: charge_used)

lemma loans_quota_ok:
  assumes "loans L nb n b b'" "quota_ok L b m" "m + n * unat nb < 2 ^ 62"
  shows "quota_ok L b' (m + n * unat nb)"
  using assms
proof (induction)
  case (loans_free n b b' c d)
  then show ?case using quota_ok_grow [of L b' "m + n * unat nb" c d nb] by (simp add: add.assoc [symmetric] add.commute)
next
  case (loans_parent n b b' c p d)
  then have "quota_ok L (charge p d b') (m + n * unat nb)" by (intro quota_ok_charge) simp_all
  moreover have "b_total (charge p d b' c) \<noteq> CT_QUOTA_INF" using loans_parent by (auto simp: charge_def)
  ultimately show ?case
    using quota_ok_grow [of L "charge p d b'" "m + n * unat nb" c d nb] loans_parent
    by (simp add: add.assoc [symmetric] add.commute)
qed simp

lemma loans_not_inf:
  assumes "loans L nb n b b'" "quota_ok L b m" "m + n * unat nb < 2 ^ 62" "b_total (b q) \<noteq> CT_QUOTA_INF"
  shows "b_total (b' q) \<noteq> CT_QUOTA_INF"
  using assms
proof (induction)
  case (loans_free n b b' c d)
  then have "quota_ok L b' (m + n * unat nb)" by (intro loans_quota_ok [OF loans_free.hyps(1)]) simp_all
  then have "b_used (b' c) \<le> b_total (b' c)" "unat (b_total (b' c)) \<le> m + n * unat nb"
    using loans_free by (simp_all add: quota_ok_def)
  then show ?case using loans_free grow_total(1) [of "b_total (b' c)" "m + n * unat nb" d nb] by (simp add: grow_def)
next
  case (loans_parent n b b' c p d)
  then have "quota_ok L b' (m + n * unat nb)" by (intro loans_quota_ok [OF loans_parent.hyps(1)]) simp_all
  then have "b_used (b' c) \<le> b_total (b' c)" "unat (b_total (b' c)) \<le> m + n * unat nb"
    using loans_parent by (simp_all add: quota_ok_def)
  then show ?case
    using loans_parent grow_total(1) [of "b_total (b' c)" "m + n * unat nb" d nb] by (auto simp: grow_def charge_def)
qed

text \<open>Objects in core are found by their ids, which are different, and no object has the thread-local segment's reserved id as its parent.\<close>

definition core_ok :: "kstate \<Rightarrow> bool" where
  "core_ok s \<longleftrightarrow> inj_on (\<lambda>p. b_id (books s p)) (set (ko_list s)) \<and>
     (\<forall>kid p. ko_find s kid = Some p \<longrightarrow> p \<in> set (ko_list s) \<and> p \<noteq> 0) \<and>
     (\<forall>p\<in>set (ko_list s). b_parent (books s p) \<noteq> kobject_id_thread_sg)"

lemma books_sel:
  "b_id (books s p) = ko_id (hdr (ks_obj s p))" "b_ref (books s p) = ko_ref (hdr (ks_obj s p))"
  "b_total (books s p) = ko_quota_total (hdr (ks_obj s p))" "b_used (books s p) = ko_quota_used (hdr (ks_obj s p))"
  "b_parent (books s p) = ko_parent (hdr (ks_obj s p))" "b_fixed (books s p) = has_flag (ko_flags (hdr (ks_obj s p))) KOBJ_FIXED_QUOTA"
  by (simp_all add: books_def hdr_book_def)

lemma ko_find_books:
  assumes "\<And>p. b_id (books s' p) = b_id (books s p)" "ko_hash s' = ko_hash s"
  shows "ko_find s' = ko_find s"
  using assms by (simp add: fun_eq_iff ko_find_def ko_chain_def books_sel)

lemma core_ok_loans:
  assumes "core_ok s" "loans L nb n (books s) (books s')" "ko_list s' = ko_list s" "ko_hash s' = ko_hash s"
  shows "core_ok s'"
proof -
  note st = loans_static [OF assms(2)]
  have "ko_find s' = ko_find s" using st(1) assms(4) by (rule ko_find_books)
  then show ?thesis using assms(1,3) by (simp add: core_ok_def st)
qed

lemma same_books_core:
  assumes "quota_view s' = quota_view s"
  shows "books s' = books s" "ko_list s' = ko_list s" "ko_hash s' = ko_hash s" "core_ok s' = core_ok s" "ko_find s' = ko_find s"
proof -
  show b: "books s' = books s" "ko_list s' = ko_list s" "ko_hash s' = ko_hash s" using assms by (simp_all add: quota_view_def)
  show f: "ko_find s' = ko_find s" by (rule ko_find_books) (simp_all add: b)
  show "core_ok s' = core_ok s" by (simp add: core_ok_def b f)
qed

lemma upd_total_books:
  "upd_hdr p (\<lambda>h. h\<lparr> ko_quota_total := ko_quota_total h + d \<rparr>) s = (Ret (), s') \<Longrightarrow>
    books s' = grow p d (books s) \<and> ko_list s' = ko_list s \<and> ko_hash s' = ko_hash s"
  by (auto simp: upd_hdr_def upd_obj_def books_def grow_def hdr_book_def fun_eq_iff)

lemma upd_used_books:
  "upd_hdr p (\<lambda>h. h\<lparr> ko_quota_used := ko_quota_used h + d \<rparr>) s = (Ret (), s') \<Longrightarrow>
    books s' = charge p d (books s) \<and> ko_list s' = ko_list s \<and> ko_hash s' = ko_hash s"
  by (auto simp: upd_hdr_def upd_obj_def books_def charge_def hdr_book_def fun_eq_iff)

text \<open>One round of borrowing, as far as the books are concerned.\<close>

definition borrowed :: "bool \<Rightarrow> unit outcome" where
  "borrowed again = (if again then Err E_AGAIN else Ret ())"

definition short_of :: "book \<Rightarrow> u64 \<Rightarrow> bool" where
  "short_of b nbytes \<longleftrightarrow> b_total b \<noteq> CT_QUOTA_INF \<and> b_total b - b_used b < nbytes"

definition same_core :: "kstate \<Rightarrow> kstate \<Rightarrow> bool" where
  "same_core s s' \<longleftrightarrow> ko_list s' = ko_list s \<and> ko_hash s' = ko_hash s"

lemma kobject_get_books:
  assumes "core_ok s" "ko \<in> set (ko_list s)" "kobject_get (b_parent (books s ko)) ty iflow s = (r, s')"
  shows "plain r \<and> quota_view s' = quota_view s"
    and "r = Ret p \<Longrightarrow> ko_find s (b_parent (books s ko)) = Some p \<and> p \<in> set (ko_list s) \<and> p \<noteq> 0"
proof -
  show "plain r \<and> quota_view s' = quota_view s" using same_books_get assms(3) by (rule same_booksD)
  assume "r = Ret p"
  then have "ko_find s (b_parent (books s ko)) = Some p"
    using kobject_get_found [of "b_parent (books s ko)" ty iflow s p s'] assms by (auto simp: core_ok_def)
  then show "ko_find s (b_parent (books s ko)) = Some p \<and> p \<in> set (ko_list s) \<and> p \<noteq> 0"
    using assms(1) by (simp add: core_ok_def)
qed

lemma borrow_from_cases:
  assumes "core_ok s" "ko \<in> set (ko_list s)" "borrow_from (Suc n) again ko nbytes s = (r, s')"
  obtains (refused) "books s' = books s" "same_core s s'" "plain r" "r \<noteq> Ret ()"
  | (free) "b_ref (books s ko) = 0" "\<not> b_fixed (books s ko)" "books s' = grow ko nbytes (books s)" "same_core s s'" "r = borrowed again"
  | (lent) p where "b_ref (books s ko) \<noteq> 0" "\<not> b_fixed (books s ko)" "ko_find s (b_parent (books s ko)) = Some p"
      "\<not> short_of (books s p) nbytes" "books s' = grow ko nbytes (charge p nbytes (books s))" "same_core s s'" "r = borrowed again"
  | (up) p s1 where "b_ref (books s ko) \<noteq> 0" "\<not> b_fixed (books s ko)" "ko_find s (b_parent (books s ko)) = Some p"
      "short_of (books s p) nbytes" "quota_view s1 = quota_view s"
      "borrow_from n True p (nbytes - (b_total (books s p) - b_used (books s p))) s1 = (r, s')"
proof -
  let ?h = "hdr (ks_obj s ko)"
  have succ: "(if again then kerr E_AGAIN else kret ()) u = (borrowed again, u)" for u
    by (simp add: borrowed_def kerr_def kret_def)
  consider "b_fixed (books s ko)" | "\<not> b_fixed (books s ko)" "b_ref (books s ko) = 0"
    | "\<not> b_fixed (books s ko)" "b_ref (books s ko) \<noteq> 0" "b_parent (books s ko) = 0"
    | "\<not> b_fixed (books s ko)" "b_ref (books s ko) \<noteq> 0" "b_parent (books s ko) \<noteq> 0" by blast
  then show thesis
  proof cases
    case 1
    then show thesis using assms(3) refused
      by (auto simp: hd_of_def kbind_get books_sel kerr_def plain_def same_core_def)
  next
    case 2
    obtain s1 where s1: "upd_hdr ko (\<lambda>h. h\<lparr> ko_quota_total := ko_quota_total h + nbytes \<rparr>) s = (Ret (), s1)"
      by (simp add: upd_hdr_def upd_obj_def)
    have "(r, s') = (borrowed again, s1)"
      using assms(3) 2 by (simp add: hd_of_def kbind_get books_sel kthen_case s1 succ)
    then show thesis using free 2 upd_total_books [OF s1] by (simp add: same_core_def)
  next
    case 3
    then show thesis using assms(3) refused
      by (auto simp: hd_of_def kbind_get books_sel kpanic_def plain_def same_core_def)
  next
    case 4
    obtain rg s1 where g: "kobject_get (b_parent (books s ko)) kobj_any iflow_rw s = (rg, s1)" by fastforce
    note gb = kobject_get_books [OF assms(1,2) g]
    have v1: "books s1 = books s" "same_core s s1" using same_books_core(1-3) [of s1 s] gb(1) by (simp_all add: same_core_def)
    define rest where "rest = (\<lambda>parent. kthen (kobject_dirty parent) (kbind (hd_of parent) (\<lambda>ph.
      if ko_quota_total ph \<noteq> CT_QUOTA_INF \<and> quota_avail ph < nbytes then borrow_from n True parent (nbytes - quota_avail ph)
      else kthen (upd_hdr parent (\<lambda>h. h\<lparr> ko_quota_used := ko_quota_used h + nbytes \<rparr>))
          (kthen (upd_hdr ko (\<lambda>h. h\<lparr> ko_quota_total := ko_quota_total h + nbytes \<rparr>))
            (if again then kerr E_AGAIN else kret ())))))"
    have run0: "borrow_from (Suc n) again ko nbytes s = kbind (kobject_get (b_parent (books s ko)) kobj_any iflow_rw) rest s"
    proof -
      have "\<not> has_flag (ko_flags (hdr (ks_obj s ko))) KOBJ_FIXED_QUOTA" "ko_ref (hdr (ks_obj s ko)) \<noteq> 0" "ko_parent (hdr (ks_obj s ko)) \<noteq> 0"
        using 4 by (simp_all add: books_sel)
      then show ?thesis
        by (simp only: borrow_from.simps hd_of_def [of ko] kbind_get Let_def rest_def books_sel if_False kassert_True kthen_ret
          not_False_eq_True simp_thms)
    qed
    show thesis
    proof (cases "\<exists>p. rg = Ret p")
      case False
      moreover have "(r, s') = (case rg of Ret p \<Rightarrow> rest p s1 | Err e \<Rightarrow> (Err e, s1) | Panic \<Rightarrow> (Panic, s1) | NoFuel \<Rightarrow> (NoFuel, s1))"
        using assms(3) unfolding run0 kbind_def g by (simp split: outcome.splits)
      ultimately have "s' = s1 \<and> plain r \<and> r \<noteq> Ret ()" using gb(1) by (cases rg) (auto simp: plain_def)
      then show thesis using refused v1 by blast
    next
      case True
      then obtain p where p: "rg = Ret p" by blast
      then have fp: "ko_find s (b_parent (books s ko)) = Some p" "p \<noteq> 0" using gb(2) by simp_all
      obtain s2 where s2: "kobject_dirty p s1 = (Ret (), s2)" using fp(2) by (simp add: kobject_dirty_def upd_hdr_def upd_obj_def)
      have v2: "quota_view s2 = quota_view s" using same_booksD [OF same_books_flags(1) s2] gb(1) by simp
      then have b2: "books s2 = books s" "same_core s s2" using same_books_core(1-3) [OF v2] by (simp_all add: same_core_def)
      have ph: "ko_quota_total (hdr (ks_obj s2 p)) = b_total (books s p)" "quota_avail (hdr (ks_obj s2 p)) = b_total (books s p) - b_used (books s p)"
        unfolding b2(1) [symmetric] by (simp_all add: books_sel quota_avail_def)
      have run: "borrow_from (Suc n) again ko nbytes s = (if short_of (books s p) nbytes
          then borrow_from n True p (nbytes - (b_total (books s p) - b_used (books s p)))
          else kthen (upd_hdr p (\<lambda>h. h\<lparr> ko_quota_used := ko_quota_used h + nbytes \<rparr>))
              (kthen (upd_hdr ko (\<lambda>h. h\<lparr> ko_quota_total := ko_quota_total h + nbytes \<rparr>))
                (if again then kerr E_AGAIN else kret ()))) s2"
        unfolding run0 kbind_run [of "kobject_get (b_parent (books s ko)) kobj_any iflow_rw" s p s1, OF g [unfolded p]] rest_def kthen_run [of "kobject_dirty p" s1 "()" s2, OF s2] hd_of_def kbind_get ph short_of_def
        by (rule refl)
      show thesis
      proof (cases "short_of (books s p) nbytes")
        case True
        then show thesis using up [of p s2] 4 fp v2 run assms(3) by simp
      next
        case False
        obtain s3 where s3: "upd_hdr p (\<lambda>h. h\<lparr> ko_quota_used := ko_quota_used h + nbytes \<rparr>) s2 = (Ret (), s3)"
          by (simp add: upd_hdr_def upd_obj_def)
        obtain s4 where s4: "upd_hdr ko (\<lambda>h. h\<lparr> ko_quota_total := ko_quota_total h + nbytes \<rparr>) s3 = (Ret (), s4)"
          by (simp add: upd_hdr_def upd_obj_def)
        have "(r, s') = (borrowed again, s4)" using run assms(3) False by (simp add: kthen_case s3 s4 succ)
        then show thesis
          using lent [of p] 4 fp False upd_used_books [OF s3] upd_total_books [OF s4] b2 by (simp add: same_core_def)
      qed
    qed
  qed
qed

lemma borrow_from_loans:
  assumes "core_ok s" "ko \<in> set (ko_list s)" "b_total (books s ko) \<noteq> CT_QUOTA_INF" "nbytes \<le> nb"
    "borrow_from n again ko nbytes s = (r, s')"
  shows "same_core s s' \<and> (\<exists>k\<le>1. loans (set (ko_list s)) nb k (books s) (books s'))"
  using assms
proof (induction n arbitrary: again ko nbytes s)
  case 0
  then show ?case by (auto simp: knofuel_def same_core_def intro!: exI [of _ 0] loans_none)
next
  case (Suc n)
  let ?L = "set (ko_list s)"
  have none: "loans ?L nb 0 (books s) (books s)" by (rule loans_none)
  from Suc.prems(1,2,5) show ?case
  proof (cases rule: borrow_from_cases)
    case refused
    then show ?thesis using none by auto
  next
    case free
    then have "loans ?L nb (Suc 0) (books s) (grow ko nbytes (books s))"
      using Suc.prems by (intro loans_free [OF none]) simp_all
    then show ?thesis using free by auto
  next
    case (lent p)
    have "p \<in> ?L" "b_id (books s p) = b_parent (books s ko)"
      using lent(3) Suc.prems(1) ko_find_id [of s] by (auto simp: core_ok_def books_sel)
    then have "loans ?L nb (Suc 0) (books s) (grow ko nbytes (charge p nbytes (books s)))"
      using Suc.prems lent by (intro loans_parent [OF none]) (auto simp: short_of_def not_less)
    then show ?thesis using lent by auto
  next
    case (up p s1)
    have p: "p \<in> ?L" using up(3) Suc.prems(1) by (simp add: core_ok_def)
    note c = same_books_core [OF up(5)]
    have "nbytes - (b_total (books s p) - b_used (books s p)) \<le> nbytes"
      using up(4) by (simp add: short_of_def word_le_nat_alt word_less_nat_alt unat_sub)
    then have "nbytes - (b_total (books s p) - b_used (books s p)) \<le> nb" using Suc.prems(4) by (rule order_trans)
    then show ?thesis
      using Suc.IH [OF _ _ _ _ up(6)] Suc.prems(1) up(4) p by (simp add: c short_of_def same_core_def)
  qed
qed

lemma borrow_rounds_loans:
  assumes "core_ok s" "ko \<in> set (ko_list s)" "borrow_rounds n ko nbytes s = (r, s')"
    "b_total (books s ko) \<noteq> CT_QUOTA_INF" "\<And>k b. loans (set (ko_list s)) nbytes k (books s) b \<Longrightarrow> k \<le> n \<Longrightarrow> b_total (b ko) \<noteq> CT_QUOTA_INF"
  shows "same_core s s' \<and> (\<exists>k\<le>n. loans (set (ko_list s)) nbytes k (books s) (books s'))"
  using assms
proof (induction n arbitrary: s)
  case 0
  then show ?case by (auto simp: knofuel_def same_core_def intro!: loans_none)
next
  case (Suc n)
  let ?L = "set (ko_list s)"
  obtain r1 s1 where r1: "kobject_borrow_parent_quota_one ko nbytes s = (r1, s1)" by fastforce
  then obtain k1 where k1: "same_core s s1" "k1 \<le> 1" "loans ?L nbytes k1 (books s) (books s1)"
    using borrow_from_loans [OF Suc.prems(1,2,4) order_refl] unfolding kobject_borrow_parent_quota_one_def kbind_get by blast
  show ?case
  proof (cases "r1 = Err E_AGAIN")
    case False
    then have "s' = s1" using Suc.prems(3) r1 by (cases r1) (auto simp: ktry_def kret_def kerr_def)
    then show ?thesis using k1 by (intro conjI exI [of _ k1]) simp_all
  next
    case True
    then have rest: "borrow_rounds n ko nbytes s1 = (r, s')" using Suc.prems(3) r1 by (simp add: ktry_def)
    have l1: "ko_list s1 = ko_list s" "ko_hash s1 = ko_hash s" using k1(1) by (simp_all add: same_core_def)
    have "b_total (b ko) \<noteq> CT_QUOTA_INF" if "loans ?L nbytes k (books s1) b" "k \<le> n" for k b
      using Suc.prems(5) [OF loans_trans [OF that(1) k1(3)]] k1(2) that(2) by simp
    then have "same_core s1 s' \<and> (\<exists>k\<le>n. loans ?L nbytes k (books s1) (books s'))"
      using Suc.IH [OF _ _ rest] core_ok_loans [OF Suc.prems(1) k1(3) l1] Suc.prems(2,5) k1(2,3) by (simp add: l1)
    then obtain k2 where "k2 \<le> n" "loans ?L nbytes k2 (books s1) (books s')" "same_core s1 s'" by blast
    then show ?thesis
      using loans_trans [of ?L nbytes k2 "books s1" "books s'" k1 "books s"] k1
      by (intro conjI exI [of _ "k2 + k1"]) (simp_all add: same_core_def)
  qed
qed

text \<open>C5: Borrowing quota never creates any. Whatever its outcome, \<open>kobject_borrow_parent_quota\<close> amounts to loans from parents to
  children: what every object in core uses for itself (its use less what is charged to it for its children) stays the same, and
  if the finite totals are bounded so that they cannot reach the infinite one, every object keeps \<open>used \<le> total\<close>, as the header file
  demands, and stays finite or infinite.\<close>

theorem borrow_conserves_quota:
  assumes "core_ok s" "ko \<in> set (ko_list s)" "b_total (books s ko) \<noteq> CT_QUOTA_INF"
    "quota_ok (set (ko_list s)) (books s) m" "m + Suc (length (ko_list s)) * unat nbytes < 2 ^ 62"
    "kobject_borrow_parent_quota ko nbytes s = (r, s')"
  shows "ko_list s' = ko_list s \<and> (\<forall>p\<in>set (ko_list s).
     own_use (set (ko_list s)) (books s') p = own_use (set (ko_list s)) (books s) p \<and>
     (ko_quota_total (hdr (ks_obj s' p)) = CT_QUOTA_INF \<longrightarrow> ko_quota_total (hdr (ks_obj s p)) = CT_QUOTA_INF) \<and>
     (ko_quota_total (hdr (ks_obj s' p)) \<noteq> CT_QUOTA_INF \<longrightarrow>
      ko_quota_used (hdr (ks_obj s' p)) \<le> ko_quota_total (hdr (ks_obj s' p))))"
proof -
  let ?L = "set (ko_list s)" and ?N = "Suc (length (ko_list s))"
  have bound: "m + k * unat nbytes < 2 ^ 62" if "k \<le> ?N" for k
    using assms(5) mult_le_mono1 [OF that, of "unat nbytes"] by linarith
  have run: "borrow_rounds ?N ko nbytes s = (r, s')"
    using assms(6) by (simp only: kobject_borrow_parent_quota_def kbind_get)
  have fin: "b_total (b ko) \<noteq> CT_QUOTA_INF" if "loans ?L nbytes k (books s) b" "k \<le> ?N" for k b
    by (rule loans_not_inf [OF that(1) assms(4) bound [OF that(2)] assms(3)])
  have "same_core s s' \<and> (\<exists>k\<le>?N. loans ?L nbytes k (books s) (books s'))"
    by (rule borrow_rounds_loans [OF assms(1,2) run assms(3)]) (rule fin)
  then obtain k where k: "k \<le> ?N" "loans ?L nbytes k (books s) (books s')" "same_core s s'" by blast
  have "quota_ok ?L (books s') (m + k * unat nbytes)" by (rule loans_quota_ok [OF k(2) assms(4) bound [OF k(1)]])
  moreover have "own_use ?L (books s') p = own_use ?L (books s) p" if "p \<in> ?L" for p
    using assms(1) that by (intro loans_own_use [OF k(2)]) (simp_all add: core_ok_def)
  moreover have "b_total (books s' p) = CT_QUOTA_INF \<longrightarrow> b_total (books s p) = CT_QUOTA_INF" for p
    using loans_not_inf [OF k(2) assms(4) bound [OF k(1)]] by blast
  ultimately show ?thesis using k(3) by (simp add: quota_ok_def books_sel same_core_def)
qed

end
