(* ===== verification/Borrow.thy ===== *)
theory Borrow
  imports Quota
begin

unbundle bit_operations_syntax

text \<open>
  Borrowing quota ends (\<^verbatim>\<open>src/kern/kern/kobj.c\<close>). The inner loop of the source walks up the parents, the outer one starts
  over whenever a grandparent had to lend first. Neither loop has a bound; if no object is its own ancestor, both end, the outer one because every round
  stops below the one before. On success the object has exactly the bytes it asked for.
\<close>

text \<open>No object is its own ancestor: some rank falls from a referenced object to its parent.\<close>

definition ranked :: "(ptr \<Rightarrow> nat) \<Rightarrow> kstate \<Rightarrow> bool" where
  "ranked rank s \<longleftrightarrow> (\<forall>c\<in>set (ko_list s). rank c \<le> length (ko_list s) \<and>
     (\<forall>p. b_ref (books s c) \<noteq> 0 \<longrightarrow> ko_find s (b_parent (books s c)) = Some p \<longrightarrow> rank p < rank c))"

text \<open>How far up the walk goes before it finds someone who can lend.\<close>

fun level :: "nat \<Rightarrow> (u64 \<Rightarrow> ptr option) \<Rightarrow> (ptr \<Rightarrow> book) \<Rightarrow> ptr \<Rightarrow> u64 \<Rightarrow> nat" where
  "level 0 f b c nb = 0"
| "level (Suc n) f b c nb =
     (if b_fixed (b c) \<or> b_ref (b c) = 0 then 0
      else case f (b_parent (b c)) of
        None \<Rightarrow> 0
      | Some p \<Rightarrow> if short_of (b p) nb then Suc (level n f b p (nb - (b_total (b p) - b_used (b p)))) else 0)"

text \<open>What a round that lends does: at level 0 the object has got its bytes, otherwise the level has fallen.\<close>

definition round_done :: "nat \<Rightarrow> bool \<Rightarrow> ptr \<Rightarrow> u64 \<Rightarrow> kstate \<Rightarrow> unit outcome \<Rightarrow> kstate \<Rightarrow> bool" where
  "round_done n again ko nbytes s r s' \<longleftrightarrow>
     (if level n (ko_find s) (books s) ko nbytes = 0
      then r = borrowed again \<and> books s' ko = (books s ko)\<lparr> b_total := b_total (books s ko) + nbytes \<rparr>
      else r = Err E_AGAIN \<and> books s' ko = books s ko \<and>
        level n (ko_find s) (books s') ko nbytes < level n (ko_find s) (books s) ko nbytes)"

definition same_static :: "kstate \<Rightarrow> kstate \<Rightarrow> bool" where
  "same_static s s' \<longleftrightarrow> same_core s s' \<and> (\<forall>q. b_id (books s' q) = b_id (books s q) \<and> b_ref (books s' q) = b_ref (books s q) \<and>
     b_parent (books s' q) = b_parent (books s q) \<and> b_fixed (books s' q) = b_fixed (books s q))"

lemma same_static_books: "books s' = books s \<Longrightarrow> same_core s s' \<Longrightarrow> same_static s s'"
  by (simp add: same_static_def)

lemma same_static_grow: "books s' = grow c d (books s) \<Longrightarrow> same_core s s' \<Longrightarrow> same_static s s'"
  by (simp add: same_static_def grow_def)

lemma same_static_lend: "books s' = grow c d (charge p d (books s)) \<Longrightarrow> same_core s s' \<Longrightarrow> same_static s s'"
  by (simp add: same_static_def grow_def charge_def)

lemma same_static_find: "same_static s s' \<Longrightarrow> ko_find s' = ko_find s"
  by (rule ko_find_books) (simp_all add: same_static_def same_core_def)

lemma same_static_ok:
  assumes "same_static s s'"
  shows "core_ok s' = core_ok s" "ranked rank s' = ranked rank s"
  using assms same_static_find [OF assms] by (simp_all add: core_ok_def ranked_def same_static_def same_core_def)

lemma avail_covers: "\<not> short_of (b\<lparr> b_total := b_total b + (nb - (b_total b - b_used b)) \<rparr>) nb"
proof -
  have "b_total b + (nb - (b_total b - b_used b)) - b_used b = nb" by simp
  then show ?thesis by (simp add: short_of_def)
qed

lemma round_done_up:
  fixes s p defines "nb \<equiv> \<lambda>nbytes. nbytes - (b_total (books s p) - b_used (books s p))"
  assumes up: "b_ref (books s ko) \<noteq> 0" "\<not> b_fixed (books s ko)" "ko_find s (b_parent (books s ko)) = Some p"
      "short_of (books s p) nbytes"
    and same: "books s' ko = books s ko" "books s1 = books s" "ko_find s1 = ko_find s"
    and d: "round_done n True p (nb nbytes) s1 r s'"
  shows "round_done (Suc n) again ko nbytes s r s'"
proof -
  have lv: "level (Suc n) (ko_find s) (books s) ko nbytes = Suc (level n (ko_find s) (books s) p (nb nbytes))"
    using up by (simp add: nb_def)
  show ?thesis
  proof (cases "level n (ko_find s) (books s) p (nb nbytes) = 0")
    case True
    then have "r = Err E_AGAIN" "books s' p = (books s p)\<lparr> b_total := b_total (books s p) + nb nbytes \<rparr>"
      using d by (simp_all add: round_done_def same borrowed_def)
    moreover have "level (Suc n) (ko_find s) (books s') ko nbytes = 0"
      using avail_covers [of "books s p" nbytes] up by (simp add: same calculation(2) nb_def)
    ultimately show ?thesis unfolding round_done_def lv by (simp add: same)
  next
    case False
    then have "r = Err E_AGAIN" "books s' p = books s p"
        "level n (ko_find s) (books s') p (nb nbytes) < level n (ko_find s) (books s) p (nb nbytes)"
      using d by (simp_all add: round_done_def same)
    moreover have "level (Suc n) (ko_find s) (books s') ko nbytes = Suc (level n (ko_find s) (books s') p (nb nbytes))"
      using up by (simp add: same calculation(2) nb_def)
    ultimately show ?thesis unfolding round_done_def lv by (simp add: same)
  qed
qed

lemma borrow_from_round:
  assumes "core_ok s" "ranked rank s" "ko \<in> set (ko_list s)" "rank ko < n" "borrow_from n again ko nbytes s = (r, s')"
  shows "r \<noteq> NoFuel \<and> same_static s s' \<and> (\<forall>q. rank ko < rank q \<longrightarrow> books s' q = books s q) \<and>
    (plain r \<and> r \<noteq> Ret () \<or> round_done n again ko nbytes s r s')"
  using assms
proof (induction n arbitrary: again ko nbytes s)
  case (Suc n)
  have rk: "rank p < rank ko \<and> p \<in> set (ko_list s)" if "ko_find s (b_parent (books s ko)) = Some p" "b_ref (books s ko) \<noteq> 0" for p
    using that Suc.prems(1-3) by (auto simp: ranked_def core_ok_def)
  from Suc.prems(1,3,5) show ?case
  proof (cases rule: borrow_from_cases)
    case refused
    then show ?thesis by (simp add: same_static_books plain_def)
  next
    case free
    then have "level (Suc n) (ko_find s) (books s) ko nbytes = 0" by simp
    then have "round_done (Suc n) again ko nbytes s r s'" using free by (simp only: round_done_def) (simp add: grow_def)
    moreover have "\<forall>q. rank ko < rank q \<longrightarrow> books s' q = books s q" using free by (auto simp: grow_def)
    ultimately show ?thesis using free same_static_grow [OF free(3,4)] by (auto simp: borrowed_def)
  next
    case (lent p)
    have "p \<noteq> ko" using rk [OF lent(3,1)] by auto
    moreover have "level (Suc n) (ko_find s) (books s) ko nbytes = 0" using lent by simp
    ultimately have "round_done (Suc n) again ko nbytes s r s'" using lent by (simp only: round_done_def) (simp add: grow_def charge_def)
    moreover have "\<forall>q. rank ko < rank q \<longrightarrow> books s' q = books s q" using lent rk [OF lent(3,1)] by (auto simp: grow_def charge_def)
    ultimately show ?thesis using lent same_static_lend [OF lent(5,6)] by (auto simp: borrowed_def)
  next
    case (up p s1)
    let ?nb = "nbytes - (b_total (books s p) - b_used (books s p))"
    note c = same_books_core [OF up(5)]
    have p: "rank p < rank ko" "p \<in> set (ko_list s)" using rk [OF up(3,1)] by simp_all
    have "ranked rank s1" using Suc.prems(2) by (simp add: ranked_def c)
    then have ih: "r \<noteq> NoFuel" "same_static s1 s'" "\<forall>q. rank p < rank q \<longrightarrow> books s' q = books s1 q"
        "plain r \<and> r \<noteq> Ret () \<or> round_done n True p ?nb s1 r s'"
      using Suc.IH [OF _ _ _ _ up(6)] Suc.prems(1,4) p by (auto simp: c)
    have st: "same_static s s'" using ih(2) by (simp add: same_static_def c same_core_def)
    have same: "books s' q = books s q" if "rank ko \<le> rank q" for q using ih(3) p(1) that by (simp add: c)
    have "round_done (Suc n) again ko nbytes s r s'" if "round_done n True p ?nb s1 r s'"
      by (rule round_done_up [OF up(1-4) same c(1,5) that]) simp
    then show ?thesis using ih(1,4) st same by auto
  qed
qed simp

lemma level_rank:
  assumes "core_ok s" "ranked rank s" "c \<in> set (ko_list s)"
  shows "level n (ko_find s) (books s) c nb \<le> rank c"
  using assms(3)
proof (induction n arbitrary: c nb)
  case (Suc n)
  have "Suc (level n (ko_find s) (books s) p x) \<le> rank c"
    if "ko_find s (b_parent (books s c)) = Some p" "b_ref (books s c) \<noteq> 0" for p x
  proof -
    have "p \<in> set (ko_list s)" "rank p < rank c" using that Suc.prems assms(1,2) by (auto simp: core_ok_def ranked_def)
    then show ?thesis using Suc.IH [of p x] by simp
  qed
  then show ?case by (auto split: option.split)
qed simp

lemma borrow_rounds_return:
  assumes "core_ok s" "ranked rank s" "ko \<in> set (ko_list s)"
    "level (Suc (length (ko_list s))) (ko_find s) (books s) ko nbytes < n" "borrow_rounds n ko nbytes s = (r, s')"
  shows "r \<noteq> NoFuel \<and> (r = Ret () \<longrightarrow> books s' ko = (books s ko)\<lparr> b_total := b_total (books s ko) + nbytes \<rparr>)"
  using assms
proof (induction n arbitrary: s)
  case (Suc n)
  let ?N = "Suc (length (ko_list s))"
  obtain r1 s1 where r1: "borrow_from ?N False ko nbytes s = (r1, s1)" by fastforce
  have "rank ko < ?N" using Suc.prems(2,3) by (auto simp: ranked_def le_less_Suc_eq less_Suc_eq_le)
  from borrow_from_round [OF Suc.prems(1-3) this r1]
  have o: "r1 \<noteq> NoFuel" "same_static s s1" "plain r1 \<and> r1 \<noteq> Ret () \<or> round_done ?N False ko nbytes s r1 s1" by blast+
  have run: "borrow_rounds (Suc n) ko nbytes s = (case r1 of Ret _ \<Rightarrow> kret () | Err e \<Rightarrow> if e = E_AGAIN then borrow_rounds n ko nbytes else kerr e
      | Panic \<Rightarrow> kpanic | NoFuel \<Rightarrow> knofuel) s1"
    unfolding borrow_rounds.simps kobject_borrow_parent_quota_one_def ktry_def kbind_get r1
    by (simp add: kpanic_def knofuel_def split: outcome.split)
  show ?case
  proof (cases "r1 = Err E_AGAIN")
    case True
    then have d: "round_done ?N False ko nbytes s r1 s1" using o(3) by (auto simp: plain_def)
    then have lv: "books s1 ko = books s ko" "level ?N (ko_find s) (books s1) ko nbytes < level ?N (ko_find s) (books s) ko nbytes"
      using True by (auto simp: round_done_def borrowed_def split: if_splits)
    have l: "ko_list s1 = ko_list s" using o(2) by (simp add: same_static_def same_core_def)
    show ?thesis
      using Suc.IH [of s1] Suc.prems lv True run same_static_ok [OF o(2)] same_static_find [OF o(2)]
      by (simp add: l del: level.simps)
  next
    case False
    then have "r = r1 \<and> s' = s1 \<or> r1 = Ret () \<and> r = Ret () \<and> s' = s1"
      using run Suc.prems(5) by (cases r1) (auto simp: kret_def kerr_def kpanic_def knofuel_def)
    then show ?thesis using o False by (auto simp: round_done_def split: if_splits)
  qed
qed simp

text \<open>C6: Borrowing ends if no object in core is its own ancestor, although neither of its two loops has a bound, and if it succeeds
  the object's total has grown by exactly the bytes asked for, with its use unchanged.\<close>

theorem borrow_terminates:
  assumes "core_ok s" "ranked rank s" "ko \<in> set (ko_list s)"
  shows "\<exists>r s'. kobject_borrow_parent_quota ko nbytes s = (r, s') \<and> r \<noteq> NoFuel \<and>
    (r = Ret () \<longrightarrow> ko_quota_total (hdr (ks_obj s' ko)) = ko_quota_total (hdr (ks_obj s ko)) + nbytes \<and>
      ko_quota_used (hdr (ks_obj s' ko)) = ko_quota_used (hdr (ks_obj s ko)))"
proof -
  let ?N = "Suc (length (ko_list s))"
  obtain r s' where run: "kobject_borrow_parent_quota ko nbytes s = (r, s')" by fastforce
  have "level ?N (ko_find s) (books s) ko nbytes \<le> rank ko" by (rule level_rank [OF assms])
  moreover have "rank ko \<le> length (ko_list s)" using assms(2,3) by (simp add: ranked_def)
  ultimately have "level ?N (ko_find s) (books s) ko nbytes < ?N" by simp
  moreover have "borrow_rounds ?N ko nbytes s = (r, s')"
    using run by (simp only: kobject_borrow_parent_quota_def kbind_get)
  ultimately have "r \<noteq> NoFuel \<and> (r = Ret () \<longrightarrow> books s' ko = (books s ko)\<lparr> b_total := b_total (books s ko) + nbytes \<rparr>)"
    by (rule borrow_rounds_return [OF assms])
  moreover have "books s' ko = (books s ko)\<lparr> b_total := b_total (books s ko) + nbytes \<rparr> \<Longrightarrow>
      ko_quota_total (hdr (ks_obj s' ko)) = ko_quota_total (hdr (ks_obj s ko)) + nbytes \<and>
      ko_quota_used (hdr (ks_obj s' ko)) = ko_quota_used (hdr (ks_obj s ko))"
    by (simp add: books_def hdr_book_def)
  ultimately show ?thesis using run by blast
qed

subsection \<open>A concrete machine state\<close>

lemma flow_state_books:
  "ko_list flow_state = [3, 4, 5, 6, 7, 8, 9]"
  "b_id (books flow_state 3) = 20" "b_id (books flow_state 4) = 21" "b_id (books flow_state 5) = 11" "b_id (books flow_state 6) = 12"
  "b_id (books flow_state 7) = 13" "b_id (books flow_state 8) = 22" "b_id (books flow_state 9) = 23"
  "p \<noteq> 4 \<Longrightarrow> b_parent (books flow_state p) = 0" "b_parent (books flow_state 4) = 23"
  "b_total (books flow_state 4) = 1024" "b_used (books flow_state 4) = 1000"
  "b_total (books flow_state 9) = 10000" "b_used (books flow_state 9) = 2000"
  "p \<notin> {4, 9} \<Longrightarrow> b_total (books flow_state p) = 0 \<and> b_used (books flow_state p) = 0"
  by (auto simp: flow_state_def kstate0_def kobject0_def books_def hdr_book_def hdr0_def label_obj_def)

lemma flow_state_found: "ko_find flow_state kid = Some p \<Longrightarrow> p \<in> {3, 4, 5, 6, 7, 8, 9} \<and> p \<noteq> 0 \<and> kid \<noteq> 0"
  by (auto simp: ko_find_def find_Some_iff ko_chain_def flow_state_def split: if_splits)

lemma flow_state_core: "core_ok flow_state" "ranked (\<lambda>p. if p = 4 then 1 else 0) flow_state"
  "quota_ok (set (ko_list flow_state)) (books flow_state) 10000"
proof -
  have "b_parent (books flow_state p) \<noteq> kobject_id_thread_sg" for p
    using flow_state_books(9,10) by (cases "p = 4") (simp_all add: kobject_id_thread_sg_def)
  then show "core_ok flow_state"
    using flow_state_found by (auto simp: core_ok_def inj_on_def flow_state_books(1-8) simp del: not_gr_zero neq0_conv)
  have "ko_find flow_state 0 = None" using flow_state_found [of 0] by (cases "ko_find flow_state 0") simp_all
  then show "ranked (\<lambda>p. if p = 4 then 1 else 0) flow_state"
    by (auto simp: ranked_def flow_state_books(1,9,10) flow_state_find)
  have "b_used (books flow_state p) \<le> b_total (books flow_state p) \<and> unat (b_total (books flow_state p)) \<le> 10000" for p
    using flow_state_books(11-14) flow_state_books(15) [of p] by (cases "p = 4"; cases "p = 9") simp_all
  then show "quota_ok (set (ko_list flow_state)) (books flow_state) 10000" by (simp add: quota_ok_def)
qed

theorem borrow_conserves_quota_witness:
  "\<exists>r s'. kobject_borrow_parent_quota 4 100 flow_state = (r, s') \<and>
     own_use {3, 4, 5, 6, 7, 8, 9} (books s') 9 = own_use {3, 4, 5, 6, 7, 8, 9} (books flow_state) 9"
proof -
  obtain r s' where run: "kobject_borrow_parent_quota 4 100 flow_state = (r, s')" by fastforce
  have "b_total (books flow_state 4) \<noteq> CT_QUOTA_INF" by (simp add: flow_state_books CT_QUOTA_INF_def)
  from borrow_conserves_quota [OF flow_state_core(1) _ this flow_state_core(3) _ run]
  show ?thesis using run by (auto simp: flow_state_books(1))
qed

theorem borrow_terminates_witness:
  "\<exists>r s'. kobject_borrow_parent_quota 4 100 flow_state = (r, s') \<and> r \<noteq> NoFuel"
  using borrow_terminates [OF flow_state_core(1,2), of 4 100] by (auto simp: flow_state_books(1))

end
