(* ===== verification/Container.thy ===== *)
theory Container
  imports Borrow
begin

unbundle bit_operations_syntax

text \<open>
  The operations of containers that change references (\<^verbatim>\<open>src/kern/kern/container.c\<close>). A slot counts how often an object
  was put into the container; only the first counts as a reference to the object.

  Results: taking a reference and dropping it again restores the books if the holder's quota is finite, and with a container of infinite
  quota the drop takes off what was never charged; putting an object into a free slot of a container and taking it out again restores what the container held.
\<close>

subsection \<open>Operations\<close>

definition container_alloc :: "ptr \<Rightarrow> ptr kernel" where
  "container_alloc l = kobject_alloc kobj_container l 0"

definition slot_free :: "container_slot \<Rightarrow> bool" where
  "slot_free cs \<longleftrightarrow> cs_ref cs = 0"

definition container_slot_alloc :: "ptr \<Rightarrow> csloc kernel" where
  "container_slot_alloc c =
     kbind (slot_search slot_free (inline_slots c)) (\<lambda>r.
     case r of
       Some l \<Rightarrow> kret l
     | None \<Rightarrow> kbind (paged_search slot_free c page_excl_dirty) (\<lambda>r.
         case r of
           Some l \<Rightarrow> kret l
         | None \<Rightarrow> kbind (hd_of c) (\<lambda>h.
             let newpage = kobject_npages h
             in kthen (kobject_set_nbytes c ((newpage + 1) * PGSIZE))
               (kbind (kmust (kobject_get_page c newpage page_excl_dirty)) (\<lambda>cpg.
                kthen (kfor (\<lambda>i. cs_write (CsPage cpg i) (\<lambda>cs. cs\<lparr> cs_ref := 0 \<rparr>)) [0..<NUM_CT_SLOT_PER_PAGE])
                  (kret (CsPage cpg 0)))))))"

definition container_slot_addref :: "ptr \<Rightarrow> csloc \<Rightarrow> ptr \<Rightarrow> u64 \<Rightarrow> unit kernel" where
  "container_slot_addref c l ko extra_refs =
     kbind (kget (\<lambda>s. cs_read s l)) (\<lambda>cs.
     kthen (if cs_ref cs = 0
            then kbind (hd_of ko) (\<lambda>h.
              if ko_ref h > extra_refs \<and> \<not> has_flag (ko_flags h) KOBJ_FIXED_QUOTA then kerr E_VAR_QUOTA
              else kthen (kobject_incref ko c)
                  (kbind (hd_of ko) (\<lambda>h. cs_write l (\<lambda>cs. cs\<lparr> cs_id := ko_id h \<rparr>))))
            else kret ())
       (cs_write l (\<lambda>cs. cs\<lparr> cs_ref := cs_ref cs + 1 \<rparr>)))"

definition container_slot_decref :: "ptr \<Rightarrow> csloc \<Rightarrow> ptr \<Rightarrow> unit kernel" where
  "container_slot_decref c l ko =
     kthen (cs_write l (\<lambda>cs. cs\<lparr> cs_ref := cs_ref cs - 1 \<rparr>))
    (kbind (kget (\<lambda>s. cs_read s l)) (\<lambda>cs. kwhen (cs_ref cs = 0) (kobject_decref ko c)))"

definition container_put :: "ptr \<Rightarrow> ptr \<Rightarrow> u64 \<Rightarrow> unit kernel" where
  "container_put c ko extra_refs =
     kbind (hd_of ko) (\<lambda>h.
     kthen (kassert (kobject_type_num (ko_type h) < kobject_type_num kobj_ntypes))
    (kbind (kget (\<lambda>s. ct_avoid_types (ct (ks_obj s c)))) (\<lambda>avoid.
     if bit avoid (kobject_type_num (ko_type h)) then kerr E_BAD_TYPE
     else kbind (ktry (container_slot_find c (ko_id h) page_excl_dirty) (\<lambda>r.
            case r of
              Inr l \<Rightarrow> kret l
            | Inl e \<Rightarrow> if e = E_NOT_FOUND then container_slot_alloc c else kerr e)) (\<lambda>l.
          container_slot_addref c l ko extra_refs))))"

definition container_unref :: "ptr \<Rightarrow> ptr \<Rightarrow> bool \<Rightarrow> unit kernel" where
  "container_unref c ko preponly =
     kbind (hd_of ko) (\<lambda>h.
     kbind (container_slot_find c (ko_id h) page_excl_dirty) (\<lambda>l.
     kwhen (\<not> preponly) (container_slot_decref c l ko)))"

text \<open>Emptying one slot takes as many steps as it counts references.\<close>

fun slot_clear :: "nat \<Rightarrow> ptr \<Rightarrow> csloc \<Rightarrow> unit kernel" where
  "slot_clear 0 c l = knofuel"
| "slot_clear (Suc n) c l =
     kbind (kget (\<lambda>s. cs_read s l)) (\<lambda>cs.
     if cs_ref cs > 0
     then kbind (kobject_get (cs_id cs) kobj_any iflow_none) (\<lambda>ko.
          kthen (container_slot_decref c l ko) (slot_clear n c l))
     else kret ())"

definition container_gc :: "ptr \<Rightarrow> unit kernel" where
  "container_gc c =
     kbind (container_nslots c) (\<lambda>nslots.
     kfor (\<lambda>i. kbind (container_slot_get c (of_nat i) page_excl_dirty) (\<lambda>l.
        kbind (kget (\<lambda>s. Suc (unat (cs_ref (cs_read s l))))) (\<lambda>n. slot_clear n c l))) [0..<unat nslots])"

subsection \<open>References and the books\<close>

lemma kobject_incref_run:
  assumes "kh \<noteq> 0" "rh \<noteq> 0" "kh \<noteq> rh"
    "b_total (books s rh) = CT_QUOTA_INF \<or> b_total (books s kh) \<le> b_total (books s rh) - b_used (books s rh)"
  shows "\<exists>s1. kobject_incref kh rh s = (Ret (), s1) \<and> ko_list s1 = ko_list s \<and>
    books s1 = (books s)(kh := (books s kh)\<lparr> b_ref := b_ref (books s kh) + 1, b_parent := b_id (books s rh) \<rparr>,
      rh := (books s rh)\<lparr> b_used := (if b_total (books s rh) = CT_QUOTA_INF then b_used (books s rh)
                                    else b_used (books s rh) + b_total (books s kh)) \<rparr>) \<and>
    ko_gc_list s1 = (if unref s kh then remove1 kh (ko_gc_list s) else ko_gc_list s) \<and>
    (\<forall>p. ko_pin (hdr (ks_obj s1 p)) = ko_pin (hdr (ks_obj s p)) \<and> ko_type (hdr (ks_obj s1 p)) = ko_type (hdr (ks_obj s p)) \<and>
      ct (ks_obj s1 p) = ct (ks_obj s p) \<and> ko_nbytes (hdr (ks_obj s1 p)) = ko_nbytes (hdr (ks_obj s p)))"
proof -
  have b: "hdr_book (hdr (ks_obj s p)) = books s p" for p by (simp add: books_def)
  have nb: "\<not> quota_avail (hdr (ks_obj s rh)) < ko_quota_total (hdr (ks_obj s kh))" if "b_total (books s rh) \<noteq> CT_QUOTA_INF"
    using assms(4) that by (auto simp: books_sel quota_avail_def)
  have d: "(ko_flags h OR KOBJ_DIRTY) AND KOBJ_FIXED_QUOTA = ko_flags h AND KOBJ_FIXED_QUOTA" for h :: kobject_hdr
    by (simp add: bit.conj_disj_distrib2 KOBJ_DIRTY_def KOBJ_FIXED_QUOTA_def)
  show ?thesis
    using assms(1-3) nb
    by (cases "b_total (books s rh) = CT_QUOTA_INF")
      (auto simp: kobject_incref_def kobject_qres_init_def kobject_qres_reserve_def kobject_incref_resv_def kobject_qres_take_def
        kobject_dirty_def gc_list_remove_def krun books_sel unref_def d has_flag_def books_def hdr_book_def fun_eq_iff)
qed

lemma kobject_decref_run:
  assumes "kh \<noteq> 0" "kh \<noteq> rh" "b_ref (books s kh) \<noteq> 0" "ko_type (hdr (ks_obj s kh)) \<notin> {kobj_thread, kobj_segment}"
  shows "\<exists>s1. kobject_decref kh rh s = (Ret (), s1) \<and> ko_list s1 = ko_list s \<and>
    books s1 = (books s)(kh := (books s kh)\<lparr> b_ref := b_ref (books s kh) - 1,
        b_parent := (if b_id (books s rh) = b_parent (books s kh) then 0 else b_parent (books s kh)) \<rparr>,
      rh := (books s rh)\<lparr> b_used := b_used (books s rh) - b_total (books s kh) \<rparr>) \<and>
    ko_gc_list s1 = (if b_ref (books s kh) = 1 \<and> ko_pin (hdr (ks_obj s kh)) = 0 then kh # ko_gc_list s else ko_gc_list s) \<and>
    (\<forall>p. ko_pin (hdr (ks_obj s1 p)) = ko_pin (hdr (ks_obj s p)) \<and>
      ct (ks_obj s1 p) = ct (ks_obj s p) \<and> ko_nbytes (hdr (ks_obj s1 p)) = ko_nbytes (hdr (ks_obj s p)))"
proof -
  have d: "(ko_flags h OR KOBJ_DIRTY) AND KOBJ_FIXED_QUOTA = ko_flags h AND KOBJ_FIXED_QUOTA" for h :: kobject_hdr
    by (simp add: bit.conj_disj_distrib2 KOBJ_DIRTY_def KOBJ_FIXED_QUOTA_def)
  show ?thesis
    using assms
    by (auto simp: kobject_decref_def kobject_dirty_def gc_list_insert_def krun books_sel d has_flag_def books_def hdr_book_def
        fun_eq_iff)
qed

lemma gc_inv_books:
  assumes "gc_inv s" "ko_list s' = ko_list s" "\<And>p. ko_pin (hdr (ks_obj s' p)) = ko_pin (hdr (ks_obj s p))"
    "\<And>p. p \<noteq> kh \<Longrightarrow> b_ref (books s' p) = b_ref (books s p)" "kh \<in> set (ko_list s)"
    "ko_gc_list s' = (if unref s' kh then (if unref s kh then ko_gc_list s else kh # ko_gc_list s)
                      else if unref s kh then remove1 kh (ko_gc_list s) else ko_gc_list s)"
  shows "gc_inv s'"
proof -
  have u: "unref s' p = unref s p" if "p \<noteq> kh" for p using assms(3,4) that by (simp add: unref_def books_sel)
  have d: "distinct (ko_gc_list s)" "set (ko_gc_list s) = {p \<in> set (ko_list s). unref s p}" using assms(1) by (simp_all add: gc_inv_def)
  have "set (ko_gc_list s') = {p \<in> set (ko_list s). unref s' p}"
  proof (rule set_eqI)
    fix p
    show "p \<in> set (ko_gc_list s') \<longleftrightarrow> p \<in> {p \<in> set (ko_list s). unref s' p}"
      using d assms(5) u [of p] by (cases "p = kh") (auto simp: assms(6))
  qed
  then show ?thesis using d unfolding gc_inv_def assms(2) by (auto simp: assms(6))
qed

text \<open>C8: Taking a reference to an object that is neither a thread nor a segment and dropping it again balances, for a holder of finite quota that has
  the object's total to spare, so that nothing has to be borrowed: \<open>kobject_incref\<close> succeeds and charges the holder
  with the object's total; \<open>kobject_decref\<close> then restores all books, except that the object is left without a parent, as its holder was the last one to
  take a reference. The garbage-collection list is right at every point. (Threads and segments have further work done when a reference is dropped, and with
  infinite quota the two do not balance.) The object and the holder differ and the reference count is not the largest number.\<close>

theorem incref_decref_balance:
  assumes "kh \<noteq> 0" "rh \<noteq> 0" "kh \<noteq> rh" "b_total (books s rh) \<noteq> CT_QUOTA_INF"
    "b_total (books s kh) \<le> b_total (books s rh) - b_used (books s rh)"
    "ko_type (hdr (ks_obj s kh)) \<notin> {kobj_thread, kobj_segment}" "b_ref (books s kh) \<noteq> - 1"
    "gc_inv s" "kh \<in> set (ko_list s)"
  shows "\<exists>s1 s2. kobject_incref kh rh s = (Ret (), s1) \<and> kobject_decref kh rh s1 = (Ret (), s2) \<and> gc_inv s1 \<and> gc_inv s2 \<and>
    b_used (books s1 rh) = b_used (books s rh) + b_total (books s kh) \<and> b_parent (books s1 kh) = b_id (books s rh) \<and>
    books s2 = (books s)(kh := (books s kh)\<lparr> b_parent := 0 \<rparr>)"
proof -
  obtain s1 where s1: "kobject_incref kh rh s = (Ret (), s1)" "ko_list s1 = ko_list s"
      "books s1 = (books s)(kh := (books s kh)\<lparr> b_ref := b_ref (books s kh) + 1, b_parent := b_id (books s rh) \<rparr>,
        rh := (books s rh)\<lparr> b_used := b_used (books s rh) + b_total (books s kh) \<rparr>)"
      "ko_gc_list s1 = (if unref s kh then remove1 kh (ko_gc_list s) else ko_gc_list s)"
      "\<forall>p. ko_pin (hdr (ks_obj s1 p)) = ko_pin (hdr (ks_obj s p)) \<and> ko_type (hdr (ks_obj s1 p)) = ko_type (hdr (ks_obj s p))"
    using kobject_incref_run [OF assms(1-3), of s] assms(4,5) by auto
  have nz: "b_ref (books s kh) + 1 \<noteq> 0" using assms(7) by (metis add.commute add_eq_0_iff add.inverse_inverse)
  have ref1: "b_ref (books s1 kh) = b_ref (books s kh) + 1" using assms(3) by (simp add: s1(3))
  obtain s2 where s2: "kobject_decref kh rh s1 = (Ret (), s2)" "ko_list s2 = ko_list s1"
      "books s2 = (books s1)(kh := (books s1 kh)\<lparr> b_ref := b_ref (books s1 kh) - 1,
          b_parent := (if b_id (books s1 rh) = b_parent (books s1 kh) then 0 else b_parent (books s1 kh)) \<rparr>,
        rh := (books s1 rh)\<lparr> b_used := b_used (books s1 rh) - b_total (books s1 kh) \<rparr>)"
      "ko_gc_list s2 = (if b_ref (books s1 kh) = 1 \<and> ko_pin (hdr (ks_obj s1 kh)) = 0 then kh # ko_gc_list s1 else ko_gc_list s1)"
      "\<forall>p. ko_pin (hdr (ks_obj s2 p)) = ko_pin (hdr (ks_obj s1 p))"
    using kobject_decref_run [of kh rh s1] assms(1,3,6) s1(5) nz ref1 by auto
  have u1: "\<not> unref s1 kh" using nz ref1 by (simp add: unref_def books_sel)
  have books2: "books s2 = (books s)(kh := (books s kh)\<lparr> b_parent := 0 \<rparr>)"
    using assms(3) by (auto simp: s2(3) s1(3) fun_eq_iff)
  have g1: "gc_inv s1" using assms(3,8,9) s1 u1 by (intro gc_inv_books [of s s1 kh]) (auto simp: s1(3))
  have "unref s2 kh \<longleftrightarrow> b_ref (books s1 kh) = 1 \<and> ko_pin (hdr (ks_obj s1 kh)) = 0"
    using s2(5) ref1 by (simp add: unref_def books_sel [symmetric] books2)
  then have "gc_inv s2" using assms(3,9) s1(2) s2 u1 g1 by (intro gc_inv_books [of s1 s2 kh]) auto
  then show ?thesis using s1(1) s2(1) g1 books2 assms(3) by (auto simp: s1(3))
qed

text \<open>C29: With a holder of infinite quota the same does not balance: taking the reference charges nothing, dropping it still takes off the
  object's total, so that the holder's use falls, and below zero wraps to a huge number.\<close>

theorem incref_decref_infinite:
  assumes "kh \<noteq> 0" "rh \<noteq> 0" "kh \<noteq> rh" "b_total (books s rh) = CT_QUOTA_INF"
    "ko_type (hdr (ks_obj s kh)) \<notin> {kobj_thread, kobj_segment}" "b_ref (books s kh) \<noteq> - 1"
  shows "\<exists>s1 s2. kobject_incref kh rh s = (Ret (), s1) \<and> kobject_decref kh rh s1 = (Ret (), s2) \<and>
    b_used (books s1 rh) = b_used (books s rh) \<and> b_used (books s2 rh) = b_used (books s rh) - b_total (books s kh)"
proof -
  obtain s1 where s1: "kobject_incref kh rh s = (Ret (), s1)"
      "books s1 = (books s)(kh := (books s kh)\<lparr> b_ref := b_ref (books s kh) + 1, b_parent := b_id (books s rh) \<rparr>,
        rh := (books s rh))"
      "\<forall>p. ko_type (hdr (ks_obj s1 p)) = ko_type (hdr (ks_obj s p))"
    using kobject_incref_run [OF assms(1-3), of s] assms(4) by auto
  have "b_ref (books s kh) + 1 \<noteq> 0" using assms(6) by (metis add.commute add_eq_0_iff add.inverse_inverse)
  then have "b_ref (books s1 kh) \<noteq> 0" using assms(3) by (simp add: s1(2))
  then obtain s2 where "kobject_decref kh rh s1 = (Ret (), s2)"
      "b_used (books s2 rh) = b_used (books s1 rh) - b_total (books s1 kh)"
    using kobject_decref_run [of kh rh s1] assms(1,3,5) s1(3) by auto
  then show ?thesis using s1 assms(3) by auto
qed

definition book_state :: "u64 \<Rightarrow> kstate" where
  "book_state tot = kstate0\<lparr>
     ks_obj := (ks_obj kstate0)(
       1 := kobject0\<lparr> hdr := hdr0\<lparr> ko_id := 5, ko_ref := 1, ko_quota_total := tot, ko_quota_used := 600 \<rparr> \<rparr>,
       2 := kobject0\<lparr> hdr := hdr0\<lparr> ko_id := 6, ko_type := kobj_gate, ko_quota_total := 1024, ko_quota_used := 512 \<rparr> \<rparr>),
     ko_list := [1, 2], ko_gc_list := [2] \<rparr>"

lemma book_state_sel:
  "b_total (books (book_state x) 1) = x" "b_used (books (book_state x) 1) = 600" "b_total (books (book_state x) 2) = 1024"
  "b_ref (books (book_state x) 2) = 0" "ko_type (hdr (ks_obj (book_state x) 2)) = kobj_gate" "ko_list (book_state x) = [1, 2]"
  "gc_inv (book_state x)"
  by (auto simp: books_def hdr_book_def book_state_def hdr0_def gc_inv_def unref_def)

theorem incref_decref_balance_witness:
  "\<exists>s1 s2. kobject_incref 2 1 (book_state 5000) = (Ret (), s1) \<and> kobject_decref 2 1 s1 = (Ret (), s2) \<and>
     b_used (books s1 1) = 1624 \<and> b_used (books s2 1) = 600"
proof -
  obtain s1 s2 where "kobject_incref 2 1 (book_state 5000) = (Ret (), s1)" "kobject_decref 2 1 s1 = (Ret (), s2)"
      "b_used (books s1 1) = 1624" "books s2 = (books (book_state 5000))(2 := (books (book_state 5000) 2)\<lparr> b_parent := 0 \<rparr>)"
    using incref_decref_balance [of 2 1 "book_state 5000"] by (auto simp: book_state_sel CT_QUOTA_INF_def simp del: One_nat_def)
  then show ?thesis by (simp add: book_state_sel del: One_nat_def)
qed

theorem incref_decref_infinite_witness:
  "\<exists>s1 s2. kobject_incref 2 1 (book_state CT_QUOTA_INF) = (Ret (), s1) \<and> kobject_decref 2 1 s1 = (Ret (), s2) \<and>
     b_used (books s1 1) = 600 \<and> b_used (books s2 1) = 600 - 1024"
  using incref_decref_infinite [of 2 1 "book_state CT_QUOTA_INF"] by (auto simp: book_state_sel simp del: One_nat_def)

subsection \<open>Putting an object into a container and taking it out\<close>

text \<open>A container without pages: all its slots are in the object.\<close>

definition small_container :: "kstate \<Rightarrow> ptr \<Rightarrow> bool" where
  "small_container s c \<longleftrightarrow> c \<noteq> 0 \<and> kobject_npages (hdr (ks_obj s c)) = 0 \<and> length (ct_slots (ct (ks_obj s c))) = NUM_CT_SLOT_INLINE"

definition cslots :: "kstate \<Rightarrow> ptr \<Rightarrow> container_slot list" where
  "cslots s c = ct_slots (ct (ks_obj s c))"

lemma small_holds:
  assumes "small_container s c"
  shows "container_holds s c kid \<longleftrightarrow> (\<exists>i<NUM_CT_SLOT_INLINE. slot_holds kid (cslots s c ! i))"
  using assms by (auto simp: container_holds_def container_locs_def small_container_def inline_slots_def cs_read_def cslots_def)

text \<open>Both searches come down to the first slot in the object that fits.\<close>

lemma inline_search:
  "slot_search P (inline_slots c) s = (Ret (map_option (CsInline c) (find (\<lambda>i. P (cslots s c ! i)) [0..<NUM_CT_SLOT_INLINE])), s)"
proof -
  have "find (\<lambda>l. P (cs_read s l)) (map (CsInline c) is) = map_option (CsInline c) (find (\<lambda>i. P (cslots s c ! i)) is)" for "is"
    by (induction "is") (simp_all add: cs_read_def cslots_def)
  then show ?thesis by (simp add: slot_search_def inline_slots_def)
qed

lemma small_paged: "small_container s c \<Longrightarrow> paged_search P c rw s = (Ret None, s)"
  by (simp add: paged_search_def hd_of_def kbind_get small_container_def kret_def)

lemma small_find_none:
  assumes "small_container s c" "\<not> container_holds s c kid"
  shows "container_slot_find c kid rw s = (Err E_NOT_FOUND, s)"
proof -
  have "find (\<lambda>i. slot_holds kid (cslots s c ! i)) [0..<NUM_CT_SLOT_INLINE] = None"
    using assms small_holds [OF assms(1), of kid] by (simp add: find_None_iff)
  then show ?thesis by (simp add: container_slot_find_def kbind_def inline_search small_paged [OF assms(1)] kerr_def)
qed

lemma small_alloc:
  assumes "small_container s c" "find (\<lambda>i. slot_free (cslots s c ! i)) [0..<NUM_CT_SLOT_INLINE] = Some i"
  shows "container_slot_alloc c s = (Ret (CsInline c i), s)"
  using assms(2) by (simp add: container_slot_alloc_def kbind_def inline_search kret_def)

lemma small_find_some:
  assumes "small_container s c" "find (\<lambda>i. slot_holds kid (cslots s c ! i)) [0..<NUM_CT_SLOT_INLINE] = Some i"
  shows "container_slot_find c kid page_excl_dirty s = kthen (kobject_dirty c) (kret (CsInline c i)) s"
  using assms(2) by (simp add: container_slot_find_def kbind_def inline_search)

text \<open>Storing into a slot of the object changes that slot only.\<close>

lemma cs_write_inline:
  "cs_write (CsInline c i) f s = (Ret (), s\<lparr> ks_obj := (ks_obj s)(c := (ks_obj s c)\<lparr> ct := (ct (ks_obj s c))\<lparr>
     ct_slots := (cslots s c)[i := f (cslots s c ! i)] \<rparr> \<rparr>) \<rparr>)"
  by (simp add: cs_write_def upd_ct_def upd_obj_def cslots_def)

lemma cs_read_inline: "cs_read s (CsInline c i) = cslots s c ! i"
  by (simp add: cs_read_def cslots_def)

lemma addref_free_run:
  assumes "slot_free (cslots s c ! i)" "i < length (cslots s c)" "ko \<noteq> 0" "c \<noteq> 0" "ko \<noteq> c"
    "ko_ref (hdr (ks_obj s ko)) \<le> extra \<or> b_fixed (books s ko)"
    "b_total (books s c) \<noteq> CT_QUOTA_INF" "b_total (books s ko) \<le> b_total (books s c) - b_used (books s c)"
  shows "\<exists>s'. container_slot_addref c (CsInline c i) ko extra s = (Ret (), s') \<and>
    books s' = (books s)(ko := (books s ko)\<lparr> b_ref := b_ref (books s ko) + 1, b_parent := b_id (books s c) \<rparr>,
      c := (books s c)\<lparr> b_used := b_used (books s c) + b_total (books s ko) \<rparr>) \<and>
    cslots s' c = (cslots s c)[i := \<lparr> cs_id = b_id (books s ko), cs_ref = 1 \<rparr>] \<and>
    (\<forall>p. ko_type (hdr (ks_obj s' p)) = ko_type (hdr (ks_obj s p)) \<and> ko_nbytes (hdr (ks_obj s' p)) = ko_nbytes (hdr (ks_obj s p)))"
proof -
  obtain s1 where s1: "kobject_incref ko c s = (Ret (), s1)"
      "books s1 = (books s)(ko := (books s ko)\<lparr> b_ref := b_ref (books s ko) + 1, b_parent := b_id (books s c) \<rparr>,
        c := (books s c)\<lparr> b_used := b_used (books s c) + b_total (books s ko) \<rparr>)"
      "\<forall>p. ko_type (hdr (ks_obj s1 p)) = ko_type (hdr (ks_obj s p)) \<and>
        ct (ks_obj s1 p) = ct (ks_obj s p) \<and> ko_nbytes (hdr (ks_obj s1 p)) = ko_nbytes (hdr (ks_obj s p))"
    using kobject_incref_run [OF assms(3-5), of s] assms(7,8) by auto
  have c1: "cslots s1 c = cslots s c" using s1(3) by (simp add: cslots_def)
  have id1: "ko_id (hdr (ks_obj s1 ko)) = b_id (books s ko)" using assms(5) s1(2) by (simp add: books_sel(1) [symmetric])
  have ok: "\<not> (ko_ref (hdr (ks_obj s ko)) > extra \<and> \<not> has_flag (ko_flags (hdr (ks_obj s ko))) KOBJ_FIXED_QUOTA)"
    using assms(6) by (auto simp: books_sel)
  have full: "x\<lparr> cs_id := a, cs_ref := b \<rparr> = \<lparr> cs_id = a, cs_ref = b \<rparr>" for x :: container_slot and a b
    by (cases x) simp
  show ?thesis
    using s1(2,3) assms(1,2) ok
    by (simp add: container_slot_addref_def kbind_get cs_read_inline slot_free_def hd_of_def kthen_case kbind_def s1(1) cs_write_inline c1 id1)
      (auto simp: books_def cslots_def fun_eq_iff full)
qed

lemma kobject_dirty_keeps:
  "c \<noteq> 0 \<Longrightarrow> \<exists>s'. kobject_dirty c s = (Ret (), s') \<and> books s' = books s \<and> cslots s' = cslots s \<and>
    (\<forall>p. ko_type (hdr (ks_obj s' p)) = ko_type (hdr (ks_obj s p)) \<and> ko_nbytes (hdr (ks_obj s' p)) = ko_nbytes (hdr (ks_obj s p)))"
  using same_booksD [OF same_books_flags(1), of c s]
  by (auto simp: kobject_dirty_def upd_hdr_def upd_obj_def quota_view_def cslots_def fun_eq_iff)

lemma decref_last_run:
  assumes "cs_ref (cslots s c ! i) = 1" "i < length (cslots s c)" "ko \<noteq> 0" "ko \<noteq> c" "b_ref (books s ko) \<noteq> 0"
    "ko_type (hdr (ks_obj s ko)) \<notin> {kobj_thread, kobj_segment}"
  shows "\<exists>s'. container_slot_decref c (CsInline c i) ko s = (Ret (), s') \<and>
    books s' = (books s)(ko := (books s ko)\<lparr> b_ref := b_ref (books s ko) - 1,
        b_parent := (if b_id (books s c) = b_parent (books s ko) then 0 else b_parent (books s ko)) \<rparr>,
      c := (books s c)\<lparr> b_used := b_used (books s c) - b_total (books s ko) \<rparr>) \<and>
    cslots s' c = (cslots s c)[i := (cslots s c ! i)\<lparr> cs_ref := 0 \<rparr>] \<and>
    (\<forall>p. ko_nbytes (hdr (ks_obj s' p)) = ko_nbytes (hdr (ks_obj s p)))"
proof -
  define s1 where "s1 = snd (cs_write (CsInline c i) (\<lambda>cs. cs\<lparr> cs_ref := cs_ref cs - 1 \<rparr>) s)"
  have e: "cs_write (CsInline c i) (\<lambda>cs. cs\<lparr> cs_ref := cs_ref cs - 1 \<rparr>) s = (Ret (), s1)"
    "books s1 = books s" "cslots s1 c = (cslots s c)[i := (cslots s c ! i)\<lparr> cs_ref := 0 \<rparr>]"
    "ko_type (hdr (ks_obj s1 p)) = ko_type (hdr (ks_obj s p))" "ko_nbytes (hdr (ks_obj s1 p)) = ko_nbytes (hdr (ks_obj s p))" for p
    using assms(1) by (simp_all add: s1_def cs_write_inline) (auto simp: cslots_def books_def fun_eq_iff)
  obtain s2 where s2: "kobject_decref ko c s1 = (Ret (), s2)"
      "books s2 = (books s)(ko := (books s ko)\<lparr> b_ref := b_ref (books s ko) - 1,
          b_parent := (if b_id (books s c) = b_parent (books s ko) then 0 else b_parent (books s ko)) \<rparr>,
        c := (books s c)\<lparr> b_used := b_used (books s c) - b_total (books s ko) \<rparr>)"
      "\<forall>p. ct (ks_obj s2 p) = ct (ks_obj s1 p) \<and> ko_nbytes (hdr (ks_obj s2 p)) = ko_nbytes (hdr (ks_obj s1 p))"
    using kobject_decref_run [of ko c s1] assms(3-6) by (auto simp: e)
  have "container_slot_decref c (CsInline c i) ko s = (Ret (), s2)"
    using assms(2) by (simp add: container_slot_decref_def kthen_case e(1) kbind_get cs_read_inline e(3) s2(1))
  moreover have "cslots s2 c = cslots s1 c" using s2(3) by (simp add: cslots_def)
  ultimately show ?thesis using s2 e by auto
qed

lemma find_free_set:
  assumes "find (\<lambda>i. slot_free (l ! i)) [0..<NUM_CT_SLOT_INLINE] = Some i" "length l = NUM_CT_SLOT_INLINE"
    "\<forall>j<NUM_CT_SLOT_INLINE. \<not> slot_holds kid (l ! j)"
  shows "i < NUM_CT_SLOT_INLINE" "slot_free (l ! i)"
    "find (\<lambda>j. slot_holds kid (l[i := \<lparr> cs_id = kid, cs_ref = 1 \<rparr>] ! j)) [0..<NUM_CT_SLOT_INLINE] = Some i"
proof -
  show i: "i < NUM_CT_SLOT_INLINE" "slot_free (l ! i)" using assms(1) by (auto simp: find_Some_iff)
  show "find (\<lambda>j. slot_holds kid (l[i := \<lparr> cs_id = kid, cs_ref = 1 \<rparr>] ! j)) [0..<NUM_CT_SLOT_INLINE] = Some i"
    using i assms(2,3) by (auto simp: find_Some_iff slot_holds_def intro!: exI [of _ i])
qed

lemma set_slot_holds:
  assumes "i < length l" "slot_free (l ! i)"
  shows "(\<exists>j<length l. slot_holds kid (l[i := x] ! j)) \<longleftrightarrow> slot_holds kid x \<or> (\<exists>j<length l. slot_holds kid (l ! j))"
proof -
  have "\<not> slot_holds kid (l ! i)" using assms(2) by (simp add: slot_free_def slot_holds_def)
  then show ?thesis using assms(1) by (metis nth_list_update_eq nth_list_update_neq)
qed

text \<open>C7: Putting an object into a container and taking it out again, for a container whose slots are all in the object itself (no pages), of finite quota
  with the object's total to spare (nothing has to be borrowed), and an object that is neither a thread nor a segment. If the container does not hold the object yet, has a
  free slot and does not avoid the type, and the object is not shared with a variable quota, then \<open>container_put\<close> succeeds: the container holds the
  object and otherwise what it held before, and is charged for it. \<open>container_unref\<close> then takes it out: the container holds what it held at first, and
  the books are restored, except that the object has no parent. (The reference count of the object is not the largest number.)\<close>

theorem container_put_unref:
  assumes "small_container s c" "\<not> container_holds s c (b_id (books s ko))" "ko \<noteq> 0" "ko \<noteq> c"
    "find (\<lambda>i. slot_free (cslots s c ! i)) [0..<NUM_CT_SLOT_INLINE] = Some i"
    "\<not> bit (ct_avoid_types (ct (ks_obj s c))) (kobject_type_num (ko_type (hdr (ks_obj s ko))))"
    "ko_type (hdr (ks_obj s ko)) \<notin> {kobj_thread, kobj_segment, kobj_ntypes, kobj_any}"
    "ko_ref (hdr (ks_obj s ko)) \<le> extra \<or> b_fixed (books s ko)" "b_ref (books s ko) \<noteq> - 1"
    "b_total (books s c) \<noteq> CT_QUOTA_INF" "b_total (books s ko) \<le> b_total (books s c) - b_used (books s c)"
  shows "\<exists>s1 s2. container_put c ko extra s = (Ret (), s1) \<and> container_unref c ko False s1 = (Ret (), s2) \<and>
    (\<forall>kid. container_holds s1 c kid \<longleftrightarrow> kid = b_id (books s ko) \<or> container_holds s c kid) \<and>
    b_used (books s1 c) = b_used (books s c) + b_total (books s ko) \<and>
    (\<forall>kid. container_holds s2 c kid \<longleftrightarrow> container_holds s c kid) \<and>
    books s2 = (books s)(ko := (books s ko)\<lparr> b_parent := 0 \<rparr>)"
proof -
  let ?kid = "b_id (books s ko)" and ?L = "cslots s c"
  have len: "length ?L = NUM_CT_SLOT_INLINE" "c \<noteq> 0" using assms(1) by (simp_all add: small_container_def cslots_def)
  have noh: "\<forall>j<NUM_CT_SLOT_INLINE. \<not> slot_holds ?kid (?L ! j)" using assms(2) small_holds [OF assms(1)] by blast
  note ff = find_free_set [OF assms(5) len(1) noh]
  obtain s1 where s1: "container_slot_addref c (CsInline c i) ko extra s = (Ret (), s1)"
      "books s1 = (books s)(ko := (books s ko)\<lparr> b_ref := b_ref (books s ko) + 1, b_parent := b_id (books s c) \<rparr>,
        c := (books s c)\<lparr> b_used := b_used (books s c) + b_total (books s ko) \<rparr>)"
      "cslots s1 c = ?L[i := \<lparr> cs_id = ?kid, cs_ref = 1 \<rparr>]"
      "\<forall>p. ko_type (hdr (ks_obj s1 p)) = ko_type (hdr (ks_obj s p)) \<and> ko_nbytes (hdr (ks_obj s1 p)) = ko_nbytes (hdr (ks_obj s p))"
    using addref_free_run [OF ff(2) _ assms(3) len(2) assms(4,8,10,11)] ff(1) len(1) by auto
  have "kobject_type_num (ko_type (hdr (ks_obj s ko))) < 8" using assms(7) by (cases "ko_type (hdr (ks_obj s ko))") simp_all
  then have put: "container_put c ko extra s = (Ret (), s1)"
    using assms(6) by (simp add: container_put_def hd_of_def kbind_get kbind_def ktry_def books_sel(1) [symmetric]
      small_find_none [OF assms(1,2)] small_alloc [OF assms(1,5)] s1(1))
  have sm1: "small_container s1 c"
    using assms(1) s1(3,4) len by (simp add: small_container_def kobject_npages_def cslots_def)
  obtain s2 where s2: "kobject_dirty c s1 = (Ret (), s2)" "books s2 = books s1" "cslots s2 = cslots s1"
      "\<forall>p. ko_type (hdr (ks_obj s2 p)) = ko_type (hdr (ks_obj s1 p)) \<and> ko_nbytes (hdr (ks_obj s2 p)) = ko_nbytes (hdr (ks_obj s1 p))"
    using kobject_dirty_keeps [OF len(2)] by blast
  have nz: "b_ref (books s2 ko) \<noteq> 0"
    using assms(4,9) by (simp add: s2(2) s1(2)) (metis add.commute add_eq_0_iff add.inverse_inverse)
  have at_i: "cs_ref (cslots s2 c ! i) = 1" using ff(1) len(1) by (simp add: s2(3) s1(3))
  have "i < length (cslots s2 c)" "ko_type (hdr (ks_obj s2 ko)) \<notin> {kobj_thread, kobj_segment}"
    using assms(7) ff(1) len(1) s1(4) s2(4) by (auto simp: s2(3) s1(3))
  from decref_last_run [OF at_i this(1) assms(3,4) nz this(2)] obtain s3 where s3: "container_slot_decref c (CsInline c i) ko s2 = (Ret (), s3)"
      "books s3 = (books s)(ko := (books s ko)\<lparr> b_parent := 0 \<rparr>)"
      "cslots s3 c = ?L[i := \<lparr> cs_id = ?kid, cs_ref = 0 \<rparr>]" "\<forall>p. ko_nbytes (hdr (ks_obj s3 p)) = ko_nbytes (hdr (ks_obj s2 p))"
    using assms(4) ff(1) len(1) by (auto simp: s2(2,3) s1(2,3) fun_eq_iff)
  have "ko_id (hdr (ks_obj s1 ko)) = ?kid" using assms(4) s1(2) by (simp add: books_sel(1) [symmetric])
  then have unref: "container_unref c ko False s1 = (Ret (), s3)"
    using small_find_some [OF sm1, of ?kid i] ff(3)
    by (simp add: container_unref_def hd_of_def kbind_get kbind_def s1(3) kthen_case s2(1) kret_def s3(1))
  have sm3: "small_container s3 c"
    using sm1 s2(4) s3(3,4) len by (simp add: small_container_def kobject_npages_def cslots_def)
  have h1: "container_holds s1 c kid \<longleftrightarrow> kid = ?kid \<or> container_holds s c kid" for kid
    unfolding small_holds [OF assms(1)] small_holds [OF sm1] s1(3)
    using set_slot_holds [of i ?L kid "\<lparr> cs_id = ?kid, cs_ref = 1 \<rparr>"] ff(1,2) len(1) by (auto simp: slot_holds_def [of _ "\<lparr> cs_id = _, cs_ref = _ \<rparr>"])
  have h3: "container_holds s3 c kid \<longleftrightarrow> container_holds s c kid" for kid
    unfolding small_holds [OF assms(1)] small_holds [OF sm3] s3(3)
    using set_slot_holds [of i ?L kid "\<lparr> cs_id = ?kid, cs_ref = 0 \<rparr>"] ff(1,2) len(1) by (auto simp: slot_holds_def [of _ "\<lparr> cs_id = _, cs_ref = _ \<rparr>"])
  show ?thesis using put unref h1 h3 s3(2) assms(4) by (auto simp: s1(2))
qed

theorem container_put_unref_witness:
  "\<exists>s1 s2. container_put 1 2 0 (book_state 5000) = (Ret (), s1) \<and> container_unref 1 2 False s1 = (Ret (), s2) \<and>
     container_holds s1 1 6 \<and> \<not> container_holds s2 1 6 \<and> b_used (books s1 1) = 1624"
proof -
  let ?s = "book_state 5000"
  have sm: "small_container ?s 1"
    by (simp add: small_container_def book_state_def kobject_npages_def ROUNDUP_def ROUNDDOWN_def PGSIZE_def hdr0_def
      kobject0_def container0_def)
  have sl: "cslots ?s 1 = replicate NUM_CT_SLOT_INLINE \<lparr> cs_id = 0, cs_ref = 0 \<rparr>"
    by (simp add: cslots_def book_state_def kobject0_def container0_def)
  have no: "\<not> container_holds ?s 1 kid" for kid unfolding small_holds [OF sm] sl by (simp add: slot_holds_def)
  have free: "find (\<lambda>i. slot_free (cslots ?s 1 ! i)) [0..<NUM_CT_SLOT_INLINE] = Some 0"
    unfolding sl by (simp add: NUM_CT_SLOT_INLINE_def upt_rec slot_free_def)
  have f: "b_id (books ?s 2) = 6" "ct_avoid_types (ct (ks_obj ?s 1)) = 0" "ko_ref (hdr (ks_obj ?s 2)) = 0"
    by (simp_all add: book_state_def books_def hdr_book_def hdr0_def kobject0_def container0_def)
  obtain s1 s2 where "container_put 1 2 0 ?s = (Ret (), s1)" "container_unref 1 2 False s1 = (Ret (), s2)"
      "\<forall>kid. container_holds s1 1 kid \<longleftrightarrow> kid = 6 \<or> container_holds ?s 1 kid" "b_used (books s1 1) = 600 + 1024"
      "\<forall>kid. container_holds s2 1 kid \<longleftrightarrow> container_holds ?s 1 kid"
    using container_put_unref [OF sm no _ _ free, of 2 0]
    by (auto simp: f book_state_sel CT_QUOTA_INF_def simp del: One_nat_def)
  then show ?thesis using no by auto
qed

end
