(* ===== verification/Labelset.thy ===== *)
theory Labelset
  imports Quota
begin

unbundle bit_operations_syntax

text \<open>
  Building labels (\<^verbatim>\<open>src/kern/kern/label.c\<close>): allocation, copying, setting the level of a category, and the join of two labels.

  Main results, for labels whose entries fit into the object: setting a level changes the function that a label denotes at that category only, with one exception (level 0 of category 0 is encoded as
  an empty slot); the join denotes the pointwise larger level.
\<close>

subsection \<open>Operations\<close>

definition label_alloc :: "u8 \<Rightarrow> ptr kernel" where
  "label_alloc def_level =
     kbind (kobject_alloc kobj_label 0 0) (\<lambda>l.
     kthen (upd_lb l (\<lambda>_. \<lparr> lb_def_level = def_level, lb_nent = 0, lb_ent = replicate NUM_LB_ENT_INLINE 0 \<rparr>)) (kret l))"

definition label_copy :: "ptr \<Rightarrow> ptr kernel" where
  "label_copy src =
     kbind (label_alloc LB_LEVEL_UNDEF) (\<lambda>dst.
     kbind (kget (\<lambda>s. lb (ks_obj s src))) (\<lambda>slb.
     kthen (upd_lb dst (\<lambda>_. slb))
    (kthen (kobject_copy_pages src dst) (kret dst))))"

text \<open>The scan for the slot to use: the slot of the category, or else the first empty one. \<open>None\<close> is an index of \<open>-1\<close>.\<close>

fun label_set_scan :: "ptr \<Rightarrow> u64 \<Rightarrow> nat list \<Rightarrow> nat option \<Rightarrow> nat option kernel" where
  "label_set_scan l handle [] slot_idx = kret slot_idx"
| "label_set_scan l handle (i # is) slot_idx =
     kbind (kmust (label_read l i)) (\<lambda>ent.
     if ent = 0 \<and> slot_idx = None then label_set_scan l handle is (Some i)
     else if ent \<noteq> 0 \<and> LB_HANDLE ent = handle then kret (Some i)
     else label_set_scan l handle is slot_idx)"

definition label_set :: "ptr \<Rightarrow> u64 \<Rightarrow> u8 \<Rightarrow> unit kernel" where
  "label_set l handle level =
     kbind (label_nents l) (\<lambda>is.
     kbind (label_set_scan l handle is None) (\<lambda>slot_idx.
     kbind (label_nslots l) (\<lambda>nslots.
     kbind (kget (\<lambda>s. lb_nent (lb (ks_obj s l)))) (\<lambda>nent.
     kbind (case slot_idx of
              Some i \<Rightarrow> kret i
            | None \<Rightarrow> if nent < ucast nslots then kret (unat nent)
                else kbind (hd_of l) (\<lambda>h.
                  kthen (kobject_set_nbytes l (ko_nbytes h + PGSIZE)) (kret (unat nslots)))) (\<lambda>i.
     kbind (label_get_slotp_write l (of_nat i)) (\<lambda>entp.
     kbind (kget (\<lambda>s. slot_value s entp)) (\<lambda>ent.
     kthen (kassert (ent = 0 \<or> LB_HANDLE ent = handle))
    (kbind (kget (\<lambda>s. lb_def_level (lb (ks_obj s l)))) (\<lambda>def_level.
     slot_store entp (if level = def_level then 0 else LB_CODE handle level))))))))))"

text \<open>The loop of \<^verbatim>\<open>ulabel_to_label\<close> over the entries of the user's label.\<close>

definition label_set_entries :: "ptr \<Rightarrow> u64 list \<Rightarrow> unit kernel" where
  "label_set_entries l ents =
     kfor (\<lambda>ul_val.
       if LB_LEVEL ul_val > LB_LEVEL_STAR then kerr E_INVAL
       else label_set l (LB_HANDLE ul_val) (LB_LEVEL ul_val)) ents"

text \<open>One of the two loops of \<^verbatim>\<open>label_max\<close>: the entries of one label against the levels of the other, joined by \<open>join\<close>.\<close>

definition label_max_from :: "ptr \<Rightarrow> ptr \<Rightarrow> ptr \<Rightarrow> (u8 \<Rightarrow> u8 \<Rightarrow> u8 kernel) \<Rightarrow> unit kernel" where
  "label_max_from dst a b join =
     kbind (label_nents a) (\<lambda>is.
     kfor (\<lambda>i. kbind (label_read a i) (\<lambda>ent.
       kwhen (ent \<noteq> 0)
         (kbind (label_get_level b (LB_HANDLE ent)) (\<lambda>blv.
          kbind (join (LB_LEVEL ent) blv) (\<lambda>lv.
          label_set dst (LB_HANDLE ent) lv))))) is)"

definition level_max :: "level_comparator \<Rightarrow> u8 \<Rightarrow> u8 \<Rightarrow> u8 kernel" where
  "level_max leq a b = table_read (snd (level_comparator_init leq)) a b"

definition label_max_fill :: "ptr \<Rightarrow> ptr \<Rightarrow> ptr \<Rightarrow> level_comparator \<Rightarrow> unit kernel" where
  "label_max_fill dst a b leq =
     kthen (label_max_from dst a b (level_max leq)) (label_max_from dst b a (\<lambda>x y. level_max leq y x))"

definition label_max :: "ptr \<Rightarrow> ptr \<Rightarrow> level_comparator \<Rightarrow> ptr kernel" where
  "label_max a b leq =
     kbind (kget (\<lambda>s. (lb_def_level (lb (ks_obj s a)), lb_def_level (lb (ks_obj s b))))) (\<lambda>(da, db).
     kbind (level_max leq da db) (\<lambda>d.
     kbind (label_alloc d) (\<lambda>dst.
     kthen (label_max_fill dst a b leq) (kret dst))))"

subsection \<open>Encoding of entries\<close>

lemma handle_bits:
  assumes "h < (0x2000000000000000 :: u64)"
  shows "take_bit 61 h = h" "drop_bit 61 h = 0"
proof -
  have "uint h < 2 ^ 61" using assms by (simp add: word_less_alt)
  then show t: "take_bit 61 h = h" by (simp add: word_uint_eqI take_bit_int_eq_self unsigned_take_bit_eq)
  show "drop_bit 61 h = 0" by (subst t [symmetric]) (simp add: drop_bit_take_bit)
qed

lemma LB_CODE_handle: "h < 0x2000000000000000 \<Longrightarrow> LB_HANDLE (LB_CODE h lv) = h"
proof -
  assume h: "h < 0x2000000000000000"
  have m: "(0x1fffffffffffffff :: u64) = mask 61" by (simp add: mask_eq_exp_minus_1)
  show ?thesis
    unfolding LB_HANDLE_def LB_CODE_def m take_bit_eq_mask [symmetric] take_bit_or handle_bits(1) [OF h]
    by (simp add: take_bit_push_bit)
qed

lemma LB_CODE_level: "h < 0x2000000000000000 \<Longrightarrow> lv < 8 \<Longrightarrow> LB_LEVEL (LB_CODE h lv) = lv"
proof -
  assume h: "h < 0x2000000000000000" and lv: "lv < 8"
  have "uint lv < 2 ^ 3" using lv by (simp add: word_less_alt)
  then have "take_bit 3 lv = lv" by (simp add: word_uint_eqI take_bit_int_eq_self unsigned_take_bit_eq)
  then have b: "n < 3" if "bit lv n" for n using that by (metis bit_take_bit_iff)
  show ?thesis
    unfolding LB_LEVEL_def LB_CODE_def
    by (rule bit_word_eqI) (use handle_bits(2) [OF h] in \<open>auto simp: bit_simps dest: bit_imp_le_length b\<close>)
qed

text \<open>The word that is stored for a category and a level, given the default.\<close>

definition entry_word :: "u8 \<Rightarrow> u64 \<Rightarrow> u8 \<Rightarrow> u64" where
  "entry_word d h lv = (if lv = d then 0 else LB_CODE h lv)"

text \<open>What setting a level does to the level of the category: category 0 cannot be stored at level 0.\<close>

definition stored_level :: "u8 \<Rightarrow> u64 \<Rightarrow> u8 \<Rightarrow> u8" where
  "stored_level d h lv = (if h = 0 \<and> lv = 0 then d else lv)"

lemma LB_CODE_zero: "h < 0x2000000000000000 \<Longrightarrow> lv < 8 \<Longrightarrow> LB_CODE h lv = 0 \<longleftrightarrow> h = 0 \<and> lv = 0"
proof -
  assume a: "h < 0x2000000000000000" "lv < 8"
  have "LB_HANDLE 0 = 0" "LB_LEVEL 0 = 0" by (simp_all add: LB_HANDLE_def LB_LEVEL_def)
  then have "h = 0 \<and> lv = 0" if "LB_CODE h lv = 0" using LB_CODE_handle [OF a(1), of lv] LB_CODE_level [OF a] that by simp
  moreover have "LB_CODE 0 0 = 0" by (simp add: LB_CODE_def)
  ultimately show ?thesis by auto
qed

lemma entry_word_level:
  assumes "h < 0x2000000000000000" "lv < 8"
  shows "entry_word d h lv = 0 \<longleftrightarrow> stored_level d h lv = d" "entry_word d h lv \<noteq> 0 \<Longrightarrow> LB_HANDLE (entry_word d h lv) = h"
    "entry_word d h lv \<noteq> 0 \<Longrightarrow> LB_LEVEL (entry_word d h lv) = stored_level d h lv"
  using assms LB_CODE_zero [OF assms] LB_CODE_handle [OF assms(1), of lv] LB_CODE_level [OF assms]
  by (auto simp: entry_word_def stored_level_def)

lemma words_fun_simps:
  "words_fun [] d k = d" "words_fun (w # ws) d k = (if w \<noteq> 0 \<and> LB_HANDLE w = k then LB_LEVEL w else words_fun ws d k)"
  by (simp_all add: words_fun_def)

lemma words_fun_append: "words_fun (a @ b) d k = (if \<exists>w\<in>set a. w \<noteq> 0 \<and> LB_HANDLE w = k then words_fun a d k else words_fun b d k)"
  by (induction a) (auto simp: words_fun_simps)

lemma words_fun_zero: "words_fun (ws @ [0]) d = words_fun ws d"
  by (rule ext) (induction ws; simp add: words_fun_simps)

text \<open>Replacing the only word that can be for category \<open>h\<close>.\<close>

definition spare :: "u64 \<Rightarrow> u64 list \<Rightarrow> bool" where
  "spare h ws \<longleftrightarrow> (\<forall>w\<in>set ws. w \<noteq> 0 \<longrightarrow> LB_HANDLE w \<noteq> h)"

lemma spare_nil [simp]: "spare h []"
  by (simp add: spare_def)

lemma spare_default: "spare h ws \<Longrightarrow> words_fun ws d h = d"
  by (induction ws) (auto simp: spare_def words_fun_simps)

lemma words_fun_replace:
  assumes "spare h a" "spare h b" "w = 0 \<or> LB_HANDLE w = h" "h < 0x2000000000000000" "lv < 8"
  shows "words_fun (a @ entry_word d h lv # b) d = (words_fun (a @ w # b) d)(h := stored_level d h lv)"
proof
  fix k
  let ?e = "entry_word d h lv"
  have na: "\<not> (\<exists>w\<in>set a. w \<noteq> 0 \<and> LB_HANDLE w = h)" and nb: "words_fun b d h = d"
    using assms(1,2) by (auto simp: spare_default) (auto simp: spare_def)
  show "words_fun (a @ ?e # b) d k = ((words_fun (a @ w # b) d)(h := stored_level d h lv)) k"
  proof (cases "k = h")
    case True
    have "words_fun (?e # b) d h = stored_level d h lv"
      using entry_word_level [OF assms(4,5), of d] nb by (auto simp: words_fun_simps)
    then show ?thesis using True na by (auto simp: words_fun_append)
  next
    case False
    have "words_fun (?e # b) d k = words_fun (w # b) d k"
      using entry_word_level(2) [OF assms(4,5), of d] assms(3) False by (auto simp: words_fun_simps)
    then show ?thesis using False by (auto simp: words_fun_append)
  qed
qed

lemma words_ok_spare:
  assumes "words_ok (a @ w # b)" "w \<noteq> 0"
  shows "spare (LB_HANDLE w) a \<and> spare (LB_HANDLE w) b"
proof -
  have "LB_HANDLE w \<notin> LB_HANDLE ` {x \<in> set a. x \<noteq> 0}" "LB_HANDLE w \<notin> LB_HANDLE ` {x \<in> set b. x \<noteq> 0}"
    using assms by (simp_all add: words_ok_def)
  then show ?thesis unfolding spare_def by (metis (mono_tags, lifting) imageI mem_Collect_eq)
qed

lemma words_ok_replace:
  assumes "words_ok (a @ w # b)" "spare h a" "spare h b" "h < 0x2000000000000000" "lv \<le> LB_LEVEL_STAR"
  shows "words_ok (a @ entry_word d h lv # b)"
proof -
  have lv: "lv < 8" using assms(5) by (simp add: LB_LEVEL_STAR_def word_le_nat_alt word_less_nat_alt)
  let ?e = "entry_word d h lv" and ?hs = "\<lambda>ws. map LB_HANDLE (filter (\<lambda>w. w \<noteq> 0) ws)"
  have ab: "\<forall>w\<in>set a \<union> set b. w \<noteq> 0 \<longrightarrow> LB_LEVEL w \<le> LB_LEVEL_STAR" "distinct (?hs a @ ?hs b)"
    using assms(1) by (auto simp: words_ok_def split: if_splits)
  show ?thesis
  proof (cases "?e = 0")
    case True
    then show ?thesis using ab by (auto simp: words_ok_def)
  next
    case False
    note e = entry_word_level(2,3) [OF assms(4) lv False]
    have "stored_level d h lv = lv" using False entry_word_level(1) [OF assms(4) lv, of d] by (auto simp: stored_level_def)
    moreover have "h \<notin> set (?hs a @ ?hs b)" using assms(2,3) by (auto simp: spare_def)
    ultimately show ?thesis using ab e assms(5) False by (auto simp: words_ok_def)
  qed
qed

subsection \<open>Setting a level\<close>

text \<open>The scan on the words of the label.\<close>

fun pick :: "(nat \<Rightarrow> u64) \<Rightarrow> u64 \<Rightarrow> nat list \<Rightarrow> nat option \<Rightarrow> nat option" where
  "pick f h [] slot = slot"
| "pick f h (i # is) slot =
     (if f i = 0 \<and> slot = None then pick f h is (Some i)
      else if f i \<noteq> 0 \<and> LB_HANDLE (f i) = h then Some i
      else pick f h is slot)"

lemma label_set_scan_returns:
  assumes "label_wf s l" "set is \<subseteq> {..<label_n s l}"
  shows "returns (label_set_scan l h is slot) s (Ret (pick (slot_word s l) h is slot))"
  using assms
proof (induction "is" arbitrary: s slot)
  case Nil
  then show ?case by (simp add: returns_kret)
next
  case (Cons i "is")
  have "returns (kmust (label_read l i)) s (Ret (slot_word s l i))"
    using Cons.prems by (intro returns_kmust label_read_returns) simp_all
  moreover have "returns (label_set_scan l h is slot') s' (Ret (pick (slot_word s l) h is slot'))" if "reads s s'" for s' slot'
    using Cons.IH [of s' slot'] Cons.prems by (simp add: reads_label [OF that])
  ultimately show ?case
    by (auto intro!: returns_kbind [where a = "slot_word s l i"] returns_kret)
qed

lemma pick_spec:
  "(\<exists>i\<in>set is. f i \<noteq> 0 \<and> LB_HANDLE (f i) = h \<and> pick f h is slot = Some i) \<or>
   (\<forall>i\<in>set is. f i \<noteq> 0 \<longrightarrow> LB_HANDLE (f i) \<noteq> h) \<and>
   (pick f h is slot = slot \<or> slot = None \<and> (\<exists>i\<in>set is. pick f h is slot = Some i \<and> f i = 0))"
  by (induction "is" arbitrary: slot) auto

text \<open>A label whose entries are all in the object, with room for one more; the unused slots are zero.\<close>

definition label_small :: "kstate \<Rightarrow> ptr \<Rightarrow> bool" where
  "label_small s l \<longleftrightarrow> label_wf s l \<and> kobject_npages (hdr (ks_obj s l)) = 0 \<and> label_n s l < NUM_LB_ENT_INLINE \<and> length (lb_ent (lb (ks_obj s l))) = NUM_LB_ENT_INLINE \<and>
     (\<forall>i. label_n s l \<le> i \<longrightarrow> i < NUM_LB_ENT_INLINE \<longrightarrow> lb_ent (lb (ks_obj s l)) ! i = 0)"

lemma small_words:
  assumes "label_n s l \<le> NUM_LB_ENT_INLINE" "length (lb_ent (lb (ks_obj s l))) = NUM_LB_ENT_INLINE"
  shows "label_words s l = take (label_n s l) (lb_ent (lb (ks_obj s l)))"
  using assms by (intro nth_equalityI) (simp_all add: label_words_def slot_word_def)

text \<open>The index that the scan and the choice after it give, and what is known of it.\<close>

definition set_index :: "kstate \<Rightarrow> ptr \<Rightarrow> u64 \<Rightarrow> nat" where
  "set_index s l h = (case pick (slot_word s l) h [0..<label_n s l] None of Some i \<Rightarrow> i | None \<Rightarrow> label_n s l)"

lemma set_index_spec:
  fixes s l h defines "i \<equiv> set_index s l h" and "ws \<equiv> lb_ent (lb (ks_obj s l))"
  assumes sm: "label_small s l"
  shows "i \<le> label_n s l" "i < NUM_LB_ENT_INLINE" "ws ! i = 0 \<or> LB_HANDLE (ws ! i) = h"
    "spare h (take i ws)" "spare h (drop (Suc i) (take (max (label_n s l) (Suc i)) ws))"
proof -
  let ?n = "label_n s l" and ?w = "slot_word s l"
  have n: "?n < NUM_LB_ENT_INLINE" "length ws = NUM_LB_ENT_INLINE" using sm by (simp_all add: label_small_def ws_def)
  have w: "?w j = ws ! j" if "j < NUM_LB_ENT_INLINE" for j using that by (simp add: slot_word_def ws_def)
  have words: "label_words s l = take ?n ws" using n by (simp add: small_words ws_def)
  have ok: "words_ok (take ?n ws)" using sm words by (simp add: label_small_def label_wf_def)
  consider (hit) "i < ?n" "ws ! i \<noteq> 0" "LB_HANDLE (ws ! i) = h"
    | (none) "\<forall>j<?n. ws ! j \<noteq> 0 \<longrightarrow> LB_HANDLE (ws ! j) \<noteq> h" "i = ?n \<or> i < ?n \<and> ws ! i = 0"
    using pick_spec [of "[0..<?n]" ?w h None] n(1) unfolding i_def set_index_def by (auto simp: w)
  then have "i \<le> ?n \<and> (ws ! i = 0 \<or> LB_HANDLE (ws ! i) = h) \<and> spare h (take i ws) \<and>
      spare h (drop (Suc i) (take (max ?n (Suc i)) ws))"
  proof cases
    case hit
    have "take ?n ws = take i ws @ ws ! i # drop (Suc i) (take ?n ws)"
      using id_take_nth_drop [of i "take ?n ws"] hit(1) n by simp
    then have "spare h (take i ws)" "spare h (drop (Suc i) (take ?n ws))"
      using words_ok_spare [of "take i ws" "ws ! i" "drop (Suc i) (take ?n ws)"] ok hit by simp_all
    then show ?thesis using hit by (simp add: max_def)
  next
    case none
    have "spare h (take ?n ws)" using none(1) by (fastforce simp: spare_def in_set_conv_nth)
    moreover have "set (take i ws) \<subseteq> set (take ?n ws)" using none(2) by (intro set_take_subset_set_take) auto
    moreover have "set (drop (Suc i) (take (max ?n (Suc i)) ws)) \<subseteq> set (take ?n ws)"
      using none(2) set_drop_subset [of "Suc i" "take ?n ws"] by (auto simp: max_def)
    ultimately have "spare h (take i ws)" "spare h (drop (Suc i) (take (max ?n (Suc i)) ws))"
      unfolding spare_def by blast+
    moreover have "ws ! i = 0" using none(2) sm n(1) by (auto simp: label_small_def ws_def)
    ultimately show ?thesis using none(2) by auto
  qed
  then show "i \<le> ?n" "i < NUM_LB_ENT_INLINE" "ws ! i = 0 \<or> LB_HANDLE (ws ! i) = h" "spare h (take i ws)"
    "spare h (drop (Suc i) (take (max ?n (Suc i)) ws))"
    using n by simp_all
qed

lemma ucast_of_nat32: "k < 2 ^ 32 \<Longrightarrow> (ucast (of_nat k :: u32) :: u64) = of_nat k"
  by (simp add: word_unat_eq_iff unat_ucast_wide unat_of_nat)

lemma nent_after:
  assumes "i \<le> n" "n < 32"
  shows "(if (of_nat n :: u64) \<le> ucast (of_nat i :: u32) then ucast (of_nat i + 1 :: u32) else of_nat n) = (of_nat (max n (Suc i)) :: u64)"
proof -
  have u: "ucast (of_nat i :: u32) = (of_nat i :: u64)" "ucast (of_nat i + 1 :: u32) = (of_nat (Suc i) :: u64)"
    using ucast_of_nat32 [of i] ucast_of_nat32 [of "Suc i"] assms by (simp_all add: add.commute)
  have "take_bit 64 i = i" "take_bit 64 n = n" using assms by (simp_all add: take_bit_nat_eq_self_iff)
  then have "(of_nat n :: u64) \<le> of_nat i \<longleftrightarrow> n \<le> i" by (simp add: word_le_nat_alt unsigned_of_nat)
  moreover have "max n (Suc i) = (if n \<le> i then Suc i else n)" using assms(1) by (simp add: max_def)
  ultimately show ?thesis unfolding u by simp
qed

definition set_entry :: "ptr \<Rightarrow> nat \<Rightarrow> nat \<Rightarrow> u64 \<Rightarrow> kstate \<Rightarrow> kstate" where
  "set_entry l n i w s = s\<lparr> ks_obj := (ks_obj s)(l := (ks_obj s l)\<lparr> lb := (lb (ks_obj s l))\<lparr> lb_nent := of_nat (max n (Suc i)),
     lb_ent := (lb_ent (lb (ks_obj s l)))[i := w] \<rparr> \<rparr>) \<rparr>"

lemma label_set_run:
  assumes sm: "label_small s l"
  shows "\<exists>s1. reads s s1 \<and> label_set l h lv s =
    (Ret (), set_entry l (label_n s l) (set_index s l h) (entry_word (lb_def_level (lb (ks_obj s l))) h lv) s1)"
proof -
  let ?n = "label_n s l" and ?i = "set_index s l h" and ?p = "pick (slot_word s l) h [0..<label_n s l] None"
  note ix = set_index_spec [OF sm, of h]
  have wf: "label_wf s l" and n: "?n < NUM_LB_ENT_INLINE" "kobject_npages (hdr (ks_obj s l)) = 0"
    using sm by (simp_all add: label_small_def)
  obtain s1 where s1: "label_set_scan l h [0..<?n] None s = (Ret ?p, s1)" "reads s s1"
    using label_set_scan_returns [OF wf, of "[0..<?n]" h None] by (auto simp: returns_def lessThan_atLeast0)
  note f = reads_frame [OF s1(2)]
  have nent: "lb_nent (lb (ks_obj s l)) = of_nat ?n" "unat (lb_nent (lb (ks_obj s l))) = ?n" by (simp_all add: label_n_def)
  have small: "take_bit 32 ?i = ?i" "take_bit 64 ?i = ?i" "take_bit 64 ?n = ?n"
    using ix(2) n(1) by (simp_all add: NUM_LB_ENT_INLINE_def take_bit_nat_eq_self_iff)
  have lt: "(of_nat ?i :: u32) < of_nat NUM_LB_ENT_INLINE" "unat (of_nat ?i :: u32) = ?i" "(of_nat ?n :: u64) < 32"
    using small ix(2) n(1) by (simp_all add: NUM_LB_ENT_INLINE_def word_less_nat_alt unsigned_of_nat)
  have lt0: "lb_nent (lb (ks_obj s l)) < ucast (of_nat NUM_LB_ENT_INLINE :: u32)"
    using lt(3) ucast_of_nat32 [of NUM_LB_ENT_INLINE] by (simp add: nent(1) NUM_LB_ENT_INLINE_def)
  have choose: "(case ?p of None \<Rightarrow> kret ?n | Some x \<Rightarrow> kret x) = (kret ?i :: nat kernel)"
    by (simp add: set_index_def split: option.split)
  have grow: "(if lb_nent (lb (ks_obj s l)) \<le> ucast (of_nat ?i :: u32) then ucast (of_nat ?i + 1 :: u32) else lb_nent (lb (ks_obj s l))) = (of_nat (max ?n (Suc ?i)) :: u64)"
    unfolding nent(1) using ix(1) n(1) by (intro nent_after) (simp_all add: NUM_LB_ENT_INLINE_def)
  have grow2: "(if lb_nent (lb (ks_obj s l)) \<le> ucast (of_nat ?i :: u32) then (lb (ks_obj s l))\<lparr> lb_nent := ucast (of_nat ?i + 1 :: u32) \<rparr>
      else lb (ks_obj s l)) = (lb (ks_obj s l))\<lparr> lb_nent := of_nat (max ?n (Suc ?i)) \<rparr>"
    unfolding grow [symmetric] by (simp only: Label.surjective Label.update_convs split: if_split) simp
  define s2 where "s2 = s1\<lparr> ks_obj := (ks_obj s1)(l := (ks_obj s1 l)\<lparr> lb := (lb (ks_obj s l))\<lparr> lb_nent := of_nat (max ?n (Suc ?i)) \<rparr> \<rparr>) \<rparr>"
  have wr: "label_get_slotp_write l (of_nat ?i) s1 = (Ret (LbInline l ?i), s2)"
    unfolding label_get_slotp_write_def upd_lb_def upd_obj_def kthen_mod f grow2 s2_def using lt(1,2) by (simp add: kret_def)
  have ns: "label_nslots l s1 = (Ret (of_nat NUM_LB_ENT_INLINE), s1)"
    by (simp add: label_nslots_def hd_of_def kbind_get f n kret_def)
  have "label_set l h lv s = kbind (label_get_slotp_write l (of_nat ?i)) (\<lambda>entp.
      kbind (kget (\<lambda>s. slot_value s entp)) (\<lambda>ent.
      kthen (kassert (ent = 0 \<or> LB_HANDLE ent = h))
     (kbind (kget (\<lambda>s. lb_def_level (lb (ks_obj s l)))) (\<lambda>def_level.
      slot_store entp (if lv = def_level then 0 else LB_CODE h lv))))) s1"
    unfolding label_set_def label_nents_def kbind_get nent(2) [symmetric]
    by (simp add: kbind_def [of "label_set_scan l h _ None"] s1(1) kbind_def [of "label_nslots l"] nent(2) ns kbind_get f choose lt0 cong: option.case_cong)
  also have "\<dots> = (Ret (), set_entry l ?n ?i (entry_word (lb_def_level (lb (ks_obj s l))) h lv) s1)"
    using ix(3)
    by (simp add: kbind_def wr kthen_case slot_value_def slot_store_def upd_lb_def upd_obj_def kret_def set_entry_def entry_word_def f s2_def)
  finally show ?thesis using s1(2) by blast
qed

text \<open>The words before and after.\<close>

lemma set_entry_words:
  fixes w :: u64
  assumes "label_small s l" "i \<le> label_n s l" "i < NUM_LB_ENT_INLINE" "reads s s1"
  defines "ws \<equiv> lb_ent (lb (ks_obj s l))" and "m \<equiv> max (label_n s l) (Suc i)" and "s' \<equiv> set_entry l (label_n s l) i w s1"
  shows "label_n s' l = m" "label_words s' l = take i ws @ w # drop (Suc i) (take m ws)"
    "take m ws = take i ws @ ws ! i # drop (Suc i) (take m ws)"
    "words_ok (take m ws)" "words_fun (take m ws) d = words_fun (label_words s l) d"
proof -
  have len: "length ws = NUM_LB_ENT_INLINE" "label_n s l < NUM_LB_ENT_INLINE" using assms(1) by (simp_all add: label_small_def ws_def)
  have m: "i < m" "m \<le> NUM_LB_ENT_INLINE" "m < 2 ^ 64" using len(2) assms(3) by (simp_all add: m_def NUM_LB_ENT_INLINE_def)
  show n: "label_n s' l = m" using m(3) by (simp add: s'_def set_entry_def label_n_def m_def unat_of_nat)
  have "lb_ent (lb (ks_obj s' l)) = ws[i := w]"
    using reads_frame(1) [OF assms(4), of l] by (simp add: s'_def set_entry_def ws_def)
  then have "label_words s' l = take m (ws[i := w])" using m(2) len(1) by (simp add: small_words n)
  also have "\<dots> = take i ws @ w # drop (Suc i) (take m ws)"
    unfolding take_update_swap using upd_conv_take_nth_drop [of i "take m ws" w] m(1,2) len(1) by (simp add: min_def)
  finally show "label_words s' l = take i ws @ w # drop (Suc i) (take m ws)" .
  show t: "take m ws = take i ws @ ws ! i # drop (Suc i) (take m ws)"
    using id_take_nth_drop [of i "take m ws"] m len(1) by (simp add: min_def)
  have words: "label_words s l = take (label_n s l) ws" using len by (simp add: small_words ws_def)
  have "take m ws = label_words s l \<or> take m ws = label_words s l @ [0]"
  proof (cases "m = label_n s l")
    case False
    then have "m = Suc (label_n s l)" using assms(2) by (simp add: m_def max_def split: if_splits)
    moreover have "ws ! label_n s l = 0" using assms(1) len by (simp add: label_small_def ws_def)
    ultimately show ?thesis using words len by (simp add: take_Suc_conv_app_nth)
  qed (simp add: words)
  moreover have "words_ok (label_words s l)" using assms(1) by (simp add: label_small_def label_wf_def)
  ultimately show "words_ok (take m ws)" "words_fun (take m ws) d = words_fun (label_words s l) d"
    by (auto simp: words_ok_def words_fun_zero)
qed

lemma set_entry_frame:
  shows "ks_page (set_entry l n i w s) = ks_page s" "pt_lookup (set_entry l n i w s) t k = pt_lookup s t k"
    "hdr (ks_obj (set_entry l n i w s) q) = hdr (ks_obj s q)"
    "q \<noteq> l \<Longrightarrow> label_fun (set_entry l n i w s) q = label_fun s q" "q \<noteq> l \<Longrightarrow> label_wf (set_entry l n i w s) q = label_wf s q"
    "q \<noteq> l \<Longrightarrow> label_words (set_entry l n i w s) q = label_words s q"
    "q \<noteq> l \<Longrightarrow> lb (ks_obj (set_entry l n i w s) q) = lb (ks_obj s q)"
    "lb_def_level (lb (ks_obj (set_entry l n i w s) q)) = lb_def_level (lb (ks_obj s q))"
proof -
  let ?t = "set_entry l n i w s"
  show p: "ks_page ?t = ks_page s" "hdr (ks_obj ?t q) = hdr (ks_obj s q)" "lb_def_level (lb (ks_obj ?t q)) = lb_def_level (lb (ks_obj s q))" for q
    by (simp_all add: set_entry_def)
  have e: "ent_of ?t = ent_of s"
    by (auto simp: fun_eq_iff set_entry_def ent_of_def pt_of_def split: entloc.split ptid.split)
  have walk: "pt_walk ?t x k lv = pt_walk s x k lv" for x k lv by (induction lv arbitrary: x k) (simp_all add: e Let_def)
  show lk: "pt_lookup ?t t k = pt_lookup s t k" for t k by (simp add: pt_lookup_def pt_entry_def e walk cong: option.case_cong)
  assume q: "q \<noteq> l"
  then show lq: "lb (ks_obj ?t q) = lb (ks_obj s q)" by (simp add: set_entry_def)
  then have "slot_word ?t q = slot_word s q" "label_n ?t q = label_n s q"
    by (simp_all add: fun_eq_iff slot_word_def label_n_def p lk)
  then show w: "label_words ?t q = label_words s q" "label_wf ?t q = label_wf s q"
    by (simp_all add: label_words_def label_wf_def slot_backed_def p lk lq)
  then show "label_fun ?t q = label_fun s q" by (simp add: label_fun_def lq)
qed

text \<open>A label that can take \<open>k\<close> more entries without another page.\<close>

definition label_room :: "kstate \<Rightarrow> ptr \<Rightarrow> nat \<Rightarrow> bool" where
  "label_room s l k \<longleftrightarrow> label_wf s l \<and> kobject_npages (hdr (ks_obj s l)) = 0 \<and> label_n s l + k \<le> NUM_LB_ENT_INLINE \<and>
     length (lb_ent (lb (ks_obj s l))) = NUM_LB_ENT_INLINE \<and>
     (\<forall>i. label_n s l \<le> i \<longrightarrow> i < NUM_LB_ENT_INLINE \<longrightarrow> lb_ent (lb (ks_obj s l)) ! i = 0)"

lemma label_room_small: "label_small s l \<longleftrightarrow> label_room s l (Suc 0)"
  by (auto simp: label_small_def label_room_def)

lemma label_room_mono: "label_room s l k \<Longrightarrow> j \<le> k \<Longrightarrow> label_room s l j"
  by (auto simp: label_room_def)

definition other_labels :: "ptr \<Rightarrow> kstate \<Rightarrow> kstate \<Rightarrow> bool" where
  "other_labels l s s' \<longleftrightarrow> lb_def_level (lb (ks_obj s' l)) = lb_def_level (lb (ks_obj s l)) \<and>
     (\<forall>q. q \<noteq> l \<longrightarrow> label_fun s' q = label_fun s q \<and> label_wf s' q = label_wf s q \<and> label_n s' q = label_n s q \<and> slot_word s' q = slot_word s q)"

lemma other_labels_trans: "other_labels l s t \<Longrightarrow> other_labels l t u \<Longrightarrow> other_labels l s u"
  by (simp add: other_labels_def)

lemma other_labels_reads: "reads s t \<Longrightarrow> other_labels l s t"
  by (simp add: other_labels_def reads_label reads_frame)

lemma label_room_reads: "reads s t \<Longrightarrow> label_room t l k = label_room s l k"
  by (simp add: label_room_def reads_label reads_frame)

lemma other_labels_set_entry: "other_labels l s (set_entry l n i w s)"
proof -
  have "slot_word (set_entry l n i w s) q = slot_word s q \<and> label_n (set_entry l n i w s) q = label_n s q" if "q \<noteq> l" for q
    using that by (simp add: fun_eq_iff slot_word_def label_n_def set_entry_frame)
  then show ?thesis by (simp add: other_labels_def set_entry_frame)
qed

lemma label_set_step:
  assumes "label_room s l (Suc k)" "h < 0x2000000000000000" "lv \<le> LB_LEVEL_STAR"
  shows "\<exists>s'. label_set l h lv s = (Ret (), s') \<and> label_room s' l k \<and> other_labels l s s' \<and>
    label_fun s' l = (label_fun s l)(h := stored_level (lb_def_level (lb (ks_obj s l))) h lv)"
proof -
  let ?i = "set_index s l h" and ?d = "lb_def_level (lb (ks_obj s l))" and ?ws = "lb_ent (lb (ks_obj s l))"
  let ?m = "max (label_n s l) (Suc ?i)" and ?e = "entry_word ?d h lv"
  let ?a = "take ?i ?ws" and ?b = "drop (Suc ?i) (take ?m ?ws)"
  have sm: "label_small s l" using assms(1) by (simp add: label_room_small label_room_mono)
  obtain s1 where s1: "reads s s1" "label_set l h lv s = (Ret (), set_entry l (label_n s l) ?i ?e s1)" (is "_ = (_, ?s')")
    using label_set_run [OF sm] by blast
  note ix = set_index_spec [OF sm, of h] and sw = set_entry_words [OF sm ix(1,2) s1(1)]
  have lv: "lv < 8" using assms(3) by (simp add: LB_LEVEL_STAR_def word_le_nat_alt word_less_nat_alt)
  have def: "lb_def_level (lb (ks_obj ?s' l)) = ?d" using s1(1) by (simp add: set_entry_frame reads_frame)
  have "label_fun ?s' l = words_fun (?a @ ?e # ?b) ?d" by (simp add: label_fun_def sw(2) def)
  also have "\<dots> = (words_fun (?a @ ?ws ! ?i # ?b) ?d)(h := stored_level ?d h lv)"
    by (rule words_fun_replace [OF ix(4,5,3) assms(2) lv])
  also have "\<dots> = (label_fun s l)(h := stored_level ?d h lv)"
    unfolding label_fun_def sw(5) [symmetric] sw(3) [symmetric] by (rule refl)
  finally have lf: "label_fun ?s' l = (label_fun s l)(h := stored_level ?d h lv)" .
  have "words_ok (?a @ ?e # ?b)"
    using words_ok_replace [OF _ ix(4,5) assms(2,3), of "?ws ! ?i" ?d] sw(3,4) by simp
  moreover have m: "?m + k \<le> NUM_LB_ENT_INLINE" using ix(1) assms(1) by (auto simp: label_room_def max_def)
  ultimately have "label_wf ?s' l"
    using sm by (auto simp: label_wf_def sw(1,2) def label_small_def slot_backed_def NUM_LB_ENT_INLINE_def)
  moreover have "lb_ent (lb (ks_obj ?s' l)) = ?ws[?i := ?e]" using s1(1) by (simp add: set_entry_def reads_frame)
  ultimately have "label_room ?s' l k"
    using assms(1) m s1(1) by (simp add: label_room_def sw(1) set_entry_frame reads_frame)
  then show ?thesis
    using s1 lf other_labels_trans [OF other_labels_reads [OF s1(1)] other_labels_set_entry] by blast
qed

text \<open>C12: Setting the level of a category in a label that has no pages and a free slot left in the object succeeds (a full label has to grow by a page,
  which can fail and is not treated here), leaves the label well formed, and changes
  the function that the label denotes at that category only: from then on the label has the level there, with one exception, since level 0 of category 0
  is encoded as the word 0 that marks an empty slot. No other label changes.\<close>

theorem label_set_level:
  assumes "label_small s l" "h < 0x2000000000000000" "lv \<le> LB_LEVEL_STAR"
  shows "\<exists>s'. label_set l h lv s = (Ret (), s') \<and> label_wf s' l \<and>
    label_fun s' l = (label_fun s l)(h := if h = 0 \<and> lv = 0 then lb_def_level (lb (ks_obj s l)) else lv) \<and>
    (\<forall>q. q \<noteq> l \<longrightarrow> label_fun s' q = label_fun s q)"
  using label_set_step [of s l 0 h lv] assms unfolding label_room_small
  by (auto simp: label_room_def other_labels_def stored_level_def)

subsection \<open>The join of two labels\<close>

text \<open>The entries of one label that a loop of \<^verbatim>\<open>label_max\<close> has gone through, as categories.\<close>

definition entry_handles :: "kstate \<Rightarrow> ptr \<Rightarrow> nat list \<Rightarrow> u64 set" where
  "entry_handles s a is = LB_HANDLE ` {w \<in> slot_word s a ` set is. w \<noteq> 0}"

lemma entry_level:
  assumes "label_wf s a" "i < label_n s a" "slot_word s a i \<noteq> 0"
  shows "label_fun s a (LB_HANDLE (slot_word s a i)) = LB_LEVEL (slot_word s a i)" "LB_LEVEL (slot_word s a i) \<le> LB_LEVEL_STAR"
proof -
  have m: "slot_word s a i \<in> set (label_words s a)" and ok: "words_ok (label_words s a)"
    using assms by (auto simp: label_words_def label_wf_def)
  then show "LB_LEVEL (slot_word s a i) \<le> LB_LEVEL_STAR" using assms(3) by (auto simp: words_ok_def)
  obtain x y where xy: "label_words s a = x @ slot_word s a i # y" using m by (meson split_list)
  then have "spare (LB_HANDLE (slot_word s a i)) x" using words_ok_spare ok assms(3) by metis
  then show "label_fun s a (LB_HANDLE (slot_word s a i)) = LB_LEVEL (slot_word s a i)"
    unfolding label_fun_def xy words_fun_append using assms(3) by (auto simp: spare_def words_fun_simps)
qed

lemma label_fun_default:
  assumes "h \<notin> entry_handles s a [0..<label_n s a]"
  shows "label_fun s a h = lb_def_level (lb (ks_obj s a))"
  unfolding label_fun_def using assms
  by (intro spare_default) (auto simp: spare_def label_words_def entry_handles_def)

lemma label_fun_star: "label_wf s a \<Longrightarrow> label_fun s a h \<le> LB_LEVEL_STAR"
proof (cases "h \<in> entry_handles s a [0..<label_n s a]")
  case True
  moreover assume "label_wf s a"
  ultimately show ?thesis using entry_level [of s a] by (auto simp: entry_handles_def)
qed (simp add: label_fun_default label_wf_def)

definition level_join :: "level_comparator \<Rightarrow> u8 \<Rightarrow> u8 \<Rightarrow> u8" where
  "level_join leq x y = (if comparator_gen leq x y then y else x)"

lemma level_join_star: "x \<le> LB_LEVEL_STAR \<Longrightarrow> y \<le> LB_LEVEL_STAR \<Longrightarrow> level_join leq x y \<le> LB_LEVEL_STAR"
  by (simp add: level_join_def)

lemma level_max_join: "x \<le> LB_LEVEL_STAR \<Longrightarrow> y \<le> LB_LEVEL_STAR \<Longrightarrow> level_max leq x y = kret (level_join leq x y)"
  by (simp add: level_max_def level_comparator_table level_join_def)

lemma LB_HANDLE_bound: "LB_HANDLE w < 0x2000000000000000"
proof -
  have "LB_HANDLE w = take_bit 61 w" by (simp add: LB_HANDLE_def take_bit_eq_mask mask_eq_exp_minus_1)
  moreover have "uint (take_bit 61 w) < 2 ^ 61"
    using take_bit_int_less_exp [of 61 "uint w"] by (simp add: unsigned_take_bit_eq)
  ultimately show ?thesis by (simp add: word_less_alt)
qed

text \<open>What a loop of \<^verbatim>\<open>label_max\<close> does for one entry.\<close>

definition max_entry :: "ptr \<Rightarrow> ptr \<Rightarrow> ptr \<Rightarrow> (u8 \<Rightarrow> u8 \<Rightarrow> u8 kernel) \<Rightarrow> nat \<Rightarrow> unit kernel" where
  "max_entry dst a b join i =
     kbind (label_read a i) (\<lambda>ent.
       kwhen (ent \<noteq> 0)
         (kbind (label_get_level b (LB_HANDLE ent)) (\<lambda>blv.
          kbind (join (LB_LEVEL ent) blv) (\<lambda>lv.
          label_set dst (LB_HANDLE ent) lv))))"

definition joins :: "(u8 \<Rightarrow> u8 \<Rightarrow> u8 kernel) \<Rightarrow> (u8 \<Rightarrow> u8 \<Rightarrow> u8) \<Rightarrow> bool" where
  "joins join J \<longleftrightarrow> (\<forall>x y. x \<le> LB_LEVEL_STAR \<longrightarrow> y \<le> LB_LEVEL_STAR \<longrightarrow> join x y = kret (J x y) \<and> J x y \<le> LB_LEVEL_STAR)"

lemma max_entry_step:
  assumes "joins join J" "label_wf s a" "label_wf s b" "i < label_n s a" "0 \<notin> entry_handles s a [i]" "label_room s dst (Suc k)"
  shows "\<exists>s'. max_entry dst a b join i s = (Ret (), s') \<and> label_room s' dst k \<and> other_labels dst s s' \<and>
    label_fun s' dst = (\<lambda>h. if h \<in> entry_handles s a [i] then J (label_fun s a h) (label_fun s b h) else label_fun s dst h)"
proof -
  let ?w = "slot_word s a i" and ?h = "LB_HANDLE (slot_word s a i)"
  obtain s1 where s1: "label_read a i s = (Ret ?w, s1)" "reads s s1"
    using label_read_returns [OF assms(2,4)] by (auto simp: returns_def)
  show ?thesis
  proof (cases "?w = 0")
    case True
    then show ?thesis
      using s1 label_room_mono [OF assms(6), of k]
      by (simp add: max_entry_def kbind_def kwhen_def kret_def label_room_reads other_labels_reads reads_label entry_handles_def)
  next
    case False
    note lev = entry_level [OF assms(2,4) False]
    obtain s3 where s3: "label_get_level b ?h s1 = (Ret (label_fun s b ?h), s3)" "reads s1 s3"
      using label_get_level_returns [of s1 b ?h] assms(3) s1(2) by (auto simp: returns_def reads_label)
    have r3: "reads s s3" using s1(2) s3(2) by (rule reads_trans)
    let ?j = "J (LB_LEVEL ?w) (label_fun s b ?h)"
    have j: "join (LB_LEVEL ?w) (label_fun s b ?h) = kret ?j" "?j \<le> LB_LEVEL_STAR"
      using assms(1) lev(2) label_fun_star [OF assms(3)] by (simp_all add: joins_def)
    have room: "label_room s3 dst (Suc k)" using assms(6) r3 by (simp add: label_room_reads)
    obtain s2 where s2: "label_set dst ?h ?j s3 = (Ret (), s2)" "label_room s2 dst k" "other_labels dst s3 s2"
      "label_fun s2 dst = (label_fun s3 dst)(?h := stored_level (lb_def_level (lb (ks_obj s3 dst))) ?h ?j)"
      using label_set_step [OF room LB_HANDLE_bound j(2)] by blast
    have e: "entry_handles s a [i] = {?h}" "?h \<noteq> 0" using assms(5) False by (auto simp: entry_handles_def)
    then have "label_fun s2 dst = (\<lambda>h. if h \<in> entry_handles s a [i] then J (label_fun s a h) (label_fun s b h) else label_fun s dst h)"
      using s2(4) lev(1) by (auto simp: stored_level_def reads_label(4) [OF r3])
    moreover have "max_entry dst a b join i s = (Ret (), s2)"
      using False s1(1) s3(1) s2(1) by (simp add: max_entry_def kbind_def kwhen_def j(1) kret_def)
    ultimately show ?thesis
      using s2(2) other_labels_trans [OF other_labels_reads [OF r3] s2(3)] by blast
  qed
qed

text \<open>One of the loops: the categories gone through have the join, the others what they had.\<close>

lemma max_entries:
  assumes "joins join J" "a \<noteq> dst" "b \<noteq> dst"
  shows "label_wf s a \<Longrightarrow> label_wf s b \<Longrightarrow> set is \<subseteq> {..<label_n s a} \<Longrightarrow> 0 \<notin> entry_handles s a is \<Longrightarrow> label_room s dst (length is + k) \<Longrightarrow>
    \<exists>s'. kfor (max_entry dst a b join) is s = (Ret (), s') \<and> label_room s' dst k \<and> other_labels dst s s' \<and>
      label_fun s' dst = (\<lambda>h. if h \<in> entry_handles s a is then J (label_fun s a h) (label_fun s b h) else label_fun s dst h)"
proof (induction "is" arbitrary: s)
  case Nil
  then show ?case by (simp add: kret_def entry_handles_def other_labels_def)
next
  case (Cons i "is")
  have u: "entry_handles s a (i # is) = entry_handles s a [i] \<union> entry_handles s a is"
    by (auto simp: entry_handles_def)
  obtain s2 where s2: "max_entry dst a b join i s = (Ret (), s2)" "label_room s2 dst (length is + k)" "other_labels dst s s2"
    "label_fun s2 dst = (\<lambda>h. if h \<in> entry_handles s a [i] then J (label_fun s a h) (label_fun s b h) else label_fun s dst h)"
    using max_entry_step [OF assms(1) Cons.prems(1,2), of i dst "length is + k"] Cons.prems(3-5) u by auto
  have o: "label_fun s2 a = label_fun s a" "label_fun s2 b = label_fun s b" "label_wf s2 a" "label_wf s2 b"
    "label_n s2 a = label_n s a" "entry_handles s2 a is = entry_handles s a is"
    using s2(3) Cons.prems(1,2) assms(2,3) by (auto simp: other_labels_def entry_handles_def)
  obtain s' where s': "kfor (max_entry dst a b join) is s2 = (Ret (), s')" "label_room s' dst k" "other_labels dst s2 s'"
    "label_fun s' dst = (\<lambda>h. if h \<in> entry_handles s a is then J (label_fun s a h) (label_fun s b h) else label_fun s2 dst h)"
    using Cons.IH [of s2, unfolded o(1,2,5,6), OF o(3,4) _ _ s2(2)] Cons.prems(3,4) u by auto
  have "label_fun s' dst = (\<lambda>h. if h \<in> entry_handles s a (i # is) then J (label_fun s a h) (label_fun s b h) else label_fun s dst h)"
    unfolding s'(4) s2(4) u by (auto simp: fun_eq_iff)
  moreover have "kfor (max_entry dst a b join) (i # is) s = (Ret (), s')" using s2(1) s'(1) by (simp add: kthen_case)
  ultimately show ?case using s'(2) other_labels_trans [OF s2(3) s'(3)] by blast
qed

lemma label_max_from_entries: "label_max_from dst a b join s = kfor (max_entry dst a b join) [0..<label_n s a] s"
  by (simp add: label_max_from_def label_nents_def kbind_get label_n_def max_entry_def [abs_def])

text \<open>C11: The two loops of \<^verbatim>\<open>label_max\<close> fill a new label, whose default level is the larger of the two defaults, with the larger of the
  levels that the two labels have, at every category: the label that results denotes the pointwise join under the order asked for,
  and neither argument changes. The entries have to fit into the object, and neither label has an entry for category 0.\<close>

theorem label_max_pointwise:
  assumes "label_wf s a" "label_wf s b" "a \<noteq> dst" "b \<noteq> dst"
    "label_room s dst (label_n s a + label_n s b)" "label_n s dst = 0"
    "lb_def_level (lb (ks_obj s dst)) = level_join leq (lb_def_level (lb (ks_obj s a))) (lb_def_level (lb (ks_obj s b)))"
    "0 \<notin> entry_handles s a [0..<label_n s a]" "0 \<notin> entry_handles s b [0..<label_n s b]"
  shows "\<exists>s'. label_max_fill dst a b leq s = (Ret (), s') \<and> label_wf s' dst \<and>
    label_fun s' dst = (\<lambda>h. level_join leq (label_fun s a h) (label_fun s b h)) \<and>
    label_fun s' a = label_fun s a \<and> label_fun s' b = label_fun s b"
proof -
  let ?A = "entry_handles s a [0..<label_n s a]" and ?B = "entry_handles s b [0..<label_n s b]"
  let ?J = "\<lambda>h. level_join leq (label_fun s a h) (label_fun s b h)"
  have j: "joins (level_max leq) (level_join leq)" "joins (\<lambda>x y. level_max leq y x) (\<lambda>x y. level_join leq y x)"
    by (simp_all add: joins_def level_max_join level_join_star)
  obtain s1 where s1: "label_max_from dst a b (level_max leq) s = (Ret (), s1)" "label_room s1 dst (label_n s b)" "other_labels dst s s1"
    "label_fun s1 dst = (\<lambda>h. if h \<in> ?A then ?J h else label_fun s dst h)"
    using max_entries [OF j(1) assms(3,4,1,2) _ assms(8), of "label_n s b"] assms(5) by (auto simp: label_max_from_entries lessThan_atLeast0)
  have o: "label_wf s1 a" "label_wf s1 b" "label_fun s1 a = label_fun s a" "label_fun s1 b = label_fun s b" "label_n s1 b = label_n s b"
    "entry_handles s1 b [0..<label_n s b] = ?B"
    using s1(3) assms(1-4) by (auto simp: other_labels_def entry_handles_def)
  obtain s2 where s2: "label_max_from dst b a (\<lambda>x y. level_max leq y x) s1 = (Ret (), s2)" "label_room s2 dst 0" "other_labels dst s1 s2"
    "label_fun s2 dst = (\<lambda>h. if h \<in> ?B then ?J h else label_fun s1 dst h)"
    using max_entries [OF j(2) assms(4,3) o(2,1), of "[0..<label_n s b]" 0, unfolded o(3-6)] assms(9) s1(2)
    by (auto simp: label_max_from_entries lessThan_atLeast0 o(5))
  have empty: "label_fun s dst h = lb_def_level (lb (ks_obj s dst))" for h
    by (rule label_fun_default) (simp add: assms(6) entry_handles_def)
  have "label_fun s2 dst = ?J"
    using label_fun_default [of _ s a] label_fun_default [of _ s b] by (auto simp: s2(4) s1(4) empty assms(7))
  moreover have "label_max_fill dst a b leq s = (Ret (), s2)" using s1(1) s2(1) by (simp add: label_max_fill_def kthen_case)
  ultimately show ?thesis
    using s2(2,3) o assms(3,4) by (auto simp: label_room_def other_labels_def)
qed

text \<open>A state with two labels and a new one.\<close>

definition three_labels :: kstate where
  "three_labels = two_labels\<lparr> ks_obj := (ks_obj two_labels)(8 := label_obj 14 [] 1) \<rparr>"

lemma three_labels_obj:
  "ks_obj three_labels 5 = label_obj 11 [LB_CODE 7 3] 1" "ks_obj three_labels 6 = label_obj 12 [LB_CODE 7 4] 1"
  "ks_obj three_labels 8 = label_obj 14 [] 1"
  by (simp_all add: three_labels_def two_labels_def)

lemmas three_labels_words = three_labels_obj [THEN label_obj_words(1)] three_labels_obj [THEN label_obj_words(2)]
  three_labels_obj [THEN label_obj_words(3)]

lemma three_labels_wf: "label_wf three_labels 5" "label_wf three_labels 6" "label_wf three_labels 8"
  by (rule three_labels_obj [THEN label_obj_wf]; simp add: words_ok_code words_ok_nil LB_LEVEL_STAR_def)+

lemma label_obj_room:
  assumes "ks_obj s p = label_obj kid ents def" "label_wf s p" "length ents + k \<le> 32"
  shows "label_room s p k"
proof -
  have "label_n s p = length ents" using label_obj_words(3) [OF assms(1)] assms(3) by simp
  moreover have "kobject_npages (hdr (ks_obj s p)) = 0"
    by (simp add: assms(1) label_obj_def kobject_npages_def hdr0_def ROUNDUP_def ROUNDDOWN_def PGSIZE_def)
  moreover have "lb_ent (lb (ks_obj s p)) = ents @ replicate (32 - length ents) 0" by (simp add: assms(1) label_obj_def)
  ultimately show ?thesis using assms(2,3) by (simp add: label_room_def NUM_LB_ENT_INLINE_def nth_append)
qed

theorem label_set_level_witness:
  "\<exists>s'. label_set 5 9 2 three_labels = (Ret (), s') \<and> label_fun s' 5 9 = 2 \<and> label_fun s' 5 7 = 3"
proof -
  have "label_small three_labels 5"
    unfolding label_room_small by (rule label_obj_room [OF three_labels_obj(1) three_labels_wf(1)]) simp
  then show ?thesis
    using label_set_level [of three_labels 5 9 2] LB_CODE_handle [of 7 3] LB_CODE_level [of 7 3]
    by (auto simp: three_labels_words words_fun_simps LB_LEVEL_STAR_def LB_CODE_zero)
qed

theorem label_max_pointwise_witness:
  "\<exists>s'. label_max_fill 8 5 6 label_leq_starhi three_labels = (Ret (), s') \<and> label_fun s' 8 7 = 4 \<and> label_fun s' 8 9 = 1"
proof -
  have code: "LB_HANDLE (LB_CODE 7 3) = 7" "LB_HANDLE (LB_CODE 7 4) = 7" "LB_LEVEL (LB_CODE 7 3) = 3" "LB_LEVEL (LB_CODE 7 4) = 4"
    "LB_CODE 7 3 \<noteq> 0" "LB_CODE 7 4 \<noteq> 0"
    by (simp_all add: LB_CODE_handle LB_CODE_level LB_CODE_zero)
  have h: "entry_handles three_labels 5 [0..<Suc 0] = {7}" "entry_handles three_labels 6 [0..<Suc 0] = {7}"
    using three_labels_words(1,2) code by (auto simp: entry_handles_def label_words_def three_labels_words(7,8))
  have n: "label_n three_labels 5 = Suc 0" "label_n three_labels 6 = Suc 0" "label_n three_labels 8 = 0"
    by (simp_all add: three_labels_words)
  have "label_room three_labels 8 (Suc 0 + Suc 0)" by (rule label_obj_room [OF three_labels_obj(3) three_labels_wf(3)]) simp
  then have "\<exists>s'. label_max_fill 8 5 6 label_leq_starhi three_labels = (Ret (), s') \<and>
      label_fun s' 8 = (\<lambda>h. level_join label_leq_starhi (label_fun three_labels 5 h) (label_fun three_labels 6 h))"
    using label_max_pointwise [OF three_labels_wf(1,2), of 8 label_leq_starhi] h
    by (auto simp: n three_labels_obj label_obj_def level_join_def)
  then show ?thesis
    by (auto simp: level_join_def three_labels_words words_fun_simps code label_leq_starhi_fn_def LB_LEVEL_STAR_def)
qed

end
