(* ===== verification/Dstack.thy ===== *)
theory Dstack
  imports Pagealloc
begin

text \<open>
  \<^verbatim>\<open>src/kern/kern/dstack.c\<close>: a stack of words in a list of pages, used by the free list of the disk. \<open>sp\<close> is the index of the top element in
  the first page; every other page is full. Since a page is given back when its last element is popped, \<open>sp = 0\<close> means both that the first page
  is full and that there is no page.

  Main result: any sequence of pushes and pops computes what a list does, and the pages that the stack holds are exactly those that its length needs.
\<close>

definition DSTACK_BUF_SIZE :: nat where
  "DSTACK_BUF_SIZE = 510"

record dstack =
  sp :: nat
  pages :: "ptr list"

text \<open>The links of the list of pages take the first two words of a page.\<close>

definition buf_read :: "ptr \<Rightarrow> nat \<Rightarrow> u64 kernel" where
  "buf_read p i = (if p = 0 \<or> DSTACK_BUF_SIZE \<le> i then kpanic else kget (\<lambda>s. pg_words (ks_page s p) ! (i + 2)))"

definition buf_write :: "ptr \<Rightarrow> nat \<Rightarrow> u64 \<Rightarrow> unit kernel" where
  "buf_write p i n =
     (if p = 0 \<or> DSTACK_BUF_SIZE \<le> i then kpanic
      else upd_page p (\<lambda>pg. pg\<lparr> pg_words := (pg_words pg)[i + 2 := n] \<rparr>))"

definition list_first :: "ptr list \<Rightarrow> ptr" where
  "list_first ps = (case ps of [] \<Rightarrow> 0 | p # _ \<Rightarrow> p)"

definition dstack_init :: dstack where
  "dstack_init = \<lparr> sp = 0, pages = [] \<rparr>"

definition dstack_push :: "dstack \<Rightarrow> u64 \<Rightarrow> dstack kernel" where
  "dstack_push d n =
     kbind (if sp d = 0
            then kbind page_alloc (\<lambda>p. kret (\<lparr> sp = DSTACK_BUF_SIZE, pages = p # pages d \<rparr>, p))
            else kret (d, list_first (pages d))) (\<lambda>(d, p).
     kthen (buf_write p (sp d - 1) n) (kret (d\<lparr> sp := sp d - 1 \<rparr>)))"

definition dstack_pop :: "dstack \<Rightarrow> (dstack \<times> u64) kernel" where
  "dstack_pop d =
     (let p = list_first (pages d)
      in if sp d = 0 \<and> p = 0 then kpanic
         else kbind (buf_read p (sp d)) (\<lambda>ret.
              if sp d + 1 = DSTACK_BUF_SIZE
              then kthen (page_free p) (kret (\<lparr> sp = 0, pages = tl (pages d) \<rparr>, ret))
              else kret (d\<lparr> sp := sp d + 1 \<rparr>, ret)))"

definition dstack_empty :: "dstack \<Rightarrow> bool" where
  "dstack_empty d \<longleftrightarrow> pages d = []"

subsection \<open>The list that a stack stands for\<close>

definition page_buf :: "kstate \<Rightarrow> ptr \<Rightarrow> u64 list" where
  "page_buf s p = drop 2 (pg_words (ks_page s p))"

definition dstack_list :: "kstate \<Rightarrow> dstack \<Rightarrow> u64 list" where
  "dstack_list s d = drop (sp d) (concat (map (page_buf s) (pages d)))"

text \<open>Pages have their size, and the pages of the stack are different and in use.\<close>

definition dstack_mem :: "kstate \<Rightarrow> dstack \<Rightarrow> bool" where
  "dstack_mem s d \<longleftrightarrow> free_inv s \<and> 0 \<notin> set (page_free_list s) \<and> (\<forall>p. length (pg_words (ks_page s p)) = 512) \<and>
     distinct (pages d) \<and> 0 \<notin> set (pages d) \<and> set (pages d) \<inter> set (page_free_list s) = {}"

definition dstack_ok :: "kstate \<Rightarrow> dstack \<Rightarrow> bool" where
  "dstack_ok s d \<longleftrightarrow> dstack_mem s d \<and> (if pages d = [] then sp d = 0 else sp d < DSTACK_BUF_SIZE)"

lemma dstack_mem_buf: "dstack_mem s d \<Longrightarrow> length (page_buf s p) = DSTACK_BUF_SIZE"
  by (simp add: dstack_mem_def page_buf_def DSTACK_BUF_SIZE_def)

lemma dstack_ok_buf: "dstack_ok s d \<Longrightarrow> length (page_buf s p) = DSTACK_BUF_SIZE"
  using dstack_mem_buf [of s d p] by (simp add: dstack_ok_def)

lemma dstack_list_cons:
  assumes "dstack_ok s d" "pages d = p # ps"
  shows "dstack_list s d = page_buf s p ! sp d # drop (Suc (sp d)) (page_buf s p) @ concat (map (page_buf s) ps)"
proof -
  have "sp d < length (page_buf s p)" using assms by (simp add: dstack_ok_buf) (simp add: dstack_ok_def)
  then show ?thesis by (simp add: dstack_list_def assms(2) Cons_nth_drop_Suc)
qed

lemma dstack_list_empty: "dstack_ok s d \<Longrightarrow> dstack_list s d = [] \<longleftrightarrow> dstack_empty d"
  by (cases "pages d") (auto simp: dstack_list_cons dstack_empty_def, simp add: dstack_list_def)

text \<open>The pages are those that the length needs.\<close>

lemma dstack_pages:
  assumes "dstack_ok s d"
  shows "length (pages d) * DSTACK_BUF_SIZE = length (dstack_list s d) + sp d"
proof -
  have "length (concat (map (page_buf s) ps)) = length ps * DSTACK_BUF_SIZE" for ps
    by (induction ps) (simp_all add: dstack_ok_buf [OF assms])
  moreover have "sp d \<le> length (pages d) * DSTACK_BUF_SIZE"
    using assms by (cases "pages d") (auto simp: dstack_ok_def)
  ultimately show ?thesis by (simp add: dstack_list_def)
qed

subsection \<open>The contract of a stack\<close>

text \<open>A stack in memory: \<open>spare\<close> is how many pushes have room for sure.\<close>

locale memory_stack =
  fixes inv :: "'s \<Rightarrow> 'd \<Rightarrow> bool"
    and abs :: "'s \<Rightarrow> 'd \<Rightarrow> 'a list"
    and push :: "'d \<Rightarrow> 'a \<Rightarrow> ('s, 'd) km"
    and pop :: "'d \<Rightarrow> ('s, 'd \<times> 'a) km"
    and spare :: "'s \<Rightarrow> nat"
  assumes push_spare: "inv s d \<Longrightarrow> 0 < spare s \<Longrightarrow>
      \<exists>d' s'. push d x s = (Ret d', s') \<and> inv s' d' \<and> abs s' d' = x # abs s d \<and> spare s \<le> Suc (spare s')"
    and pop_cons: "inv s d \<Longrightarrow> abs s d = x # xs \<Longrightarrow>
      \<exists>d' s'. pop d s = (Ret (d', x), s') \<and> inv s' d' \<and> abs s' d' = xs \<and> spare s \<le> spare s'"
    and pop_nil: "inv s d \<Longrightarrow> abs s d = [] \<Longrightarrow> fst (pop d s) = Panic"
begin

text \<open>What is pushed comes back in the opposite order.\<close>

fun push_all :: "'a list \<Rightarrow> 'd \<Rightarrow> ('s, 'd) km" where
  "push_all [] d = kret d"
| "push_all (x # xs) d = kbind (push d x) (push_all xs)"

fun pop_all :: "nat \<Rightarrow> 'd \<Rightarrow> ('s, 'd \<times> 'a list) km" where
  "pop_all 0 d = kret (d, [])"
| "pop_all (Suc n) d = kbind (pop d) (\<lambda>(d, x). kbind (pop_all n d) (\<lambda>(d, xs). kret (d, x # xs)))"

lemma push_all_spare:
  assumes "inv s d" "length xs \<le> spare s"
  shows "\<exists>d' s'. push_all xs d s = (Ret d', s') \<and> inv s' d' \<and> abs s' d' = rev xs @ abs s d \<and> spare s \<le> length xs + spare s'"
  using assms
proof (induction xs arbitrary: s d)
  case Nil
  then show ?case by (simp add: kret_def)
next
  case (Cons x xs)
  obtain d1 s1 where 1: "push d x s = (Ret d1, s1)" "inv s1 d1" "abs s1 d1 = x # abs s d" "spare s \<le> Suc (spare s1)"
    using push_spare [OF Cons.prems(1), of x] Cons.prems(2) by auto
  obtain d2 s2 where "push_all xs d1 s1 = (Ret d2, s2)" "inv s2 d2" "abs s2 d2 = rev xs @ abs s1 d1" "spare s1 \<le> length xs + spare s2"
    using Cons.IH [OF 1(2)] 1(4) Cons.prems(2) by auto
  then show ?case using 1 by (auto simp: kbind_def)
qed

lemma pop_all_cons:
  assumes "inv s d" "abs s d = xs @ ys"
  shows "\<exists>d' s'. pop_all (length xs) d s = (Ret (d', xs), s') \<and> inv s' d' \<and> abs s' d' = ys \<and> spare s \<le> spare s'"
  using assms
proof (induction xs arbitrary: s d)
  case Nil
  then show ?case by (simp add: kret_def)
next
  case (Cons x xs)
  obtain d1 s1 where 1: "pop d s = (Ret (d1, x), s1)" "inv s1 d1" "abs s1 d1 = xs @ ys" "spare s \<le> spare s1"
    using pop_cons [OF Cons.prems(1), of x "xs @ ys"] Cons.prems(2) by auto
  obtain d2 s2 where "pop_all (length xs) d1 s1 = (Ret (d2, xs), s2)" "inv s2 d2" "abs s2 d2 = ys" "spare s1 \<le> spare s2"
    using Cons.IH [OF 1(2,3)] by auto
  then show ?case using 1 by (auto simp: kbind_def kret_def)
qed

end

definition free_count :: "kstate \<Rightarrow> nat" where
  "free_count s = length (page_free_list s)"

lemma buf_write_list:
  assumes "dstack_mem s d" "pages d = p # ps" "sp d = Suc i" "i < DSTACK_BUF_SIZE"
  shows "\<exists>s'. buf_write p i x s = (Ret (), s') \<and> dstack_ok s' (d\<lparr> sp := i \<rparr>) \<and> dstack_list s' (d\<lparr> sp := i \<rparr>) = x # dstack_list s d \<and>
    free_count s' = free_count s"
proof -
  have ok: "p \<noteq> 0" "p \<notin> set ps" "length (pg_words (ks_page s p)) = 512"
    using assms by (auto simp: dstack_mem_def)
  define s2 where "s2 = s\<lparr> ks_page := (ks_page s)(p := (ks_page s p)\<lparr> pg_words := (pg_words (ks_page s p))[i + 2 := x] \<rparr>) \<rparr>"
  have run: "buf_write p i x s = (Ret (), s2)" using ok assms(4) by (simp add: buf_write_def upd_page_def s2_def)
  have dok: "dstack_ok s2 (d\<lparr> sp := i \<rparr>)" using assms by (auto simp: dstack_ok_def dstack_mem_def free_inv_def s2_def)
  have pb: "page_buf s2 p = (page_buf s p)[i := x]" "map (page_buf s2) ps = map (page_buf s) ps"
    using ok(2) by (auto simp: page_buf_def drop_update_swap s2_def)
  have "dstack_list s2 (d\<lparr> sp := i \<rparr>) = x # drop (Suc i) (page_buf s p) @ concat (map (page_buf s) ps)"
    using dstack_list_cons [OF dok, of p ps] assms(2,4) dstack_mem_buf [OF assms(1)] unfolding pb by simp
  also have "\<dots> = x # dstack_list s d"
    using assms(2-4) dstack_mem_buf [OF assms(1)] by (simp add: dstack_list_def)
  finally show ?thesis using run dok by (auto simp: free_count_def s2_def)
qed

lemma dstack_push_list:
  assumes "dstack_ok s d" "0 < free_count s"
  shows "\<exists>d' s'. dstack_push d x s = (Ret d', s') \<and> dstack_ok s' d' \<and> dstack_list s' d' = x # dstack_list s d \<and> free_count s \<le> Suc (free_count s')"
proof (cases "sp d = 0")
  case True
  obtain p ps where fl: "page_free_list s = p # ps" using assms(2) by (cases "page_free_list s") (auto simp: free_count_def)
  have fp: "pi_freepage (ks_pi s p)" using assms(1) by (simp add: dstack_ok_def dstack_mem_def free_inv_def fl)
  define s1 where "s1 = snd (page_alloc s)"
  let ?d = "\<lparr> sp = DSTACK_BUF_SIZE, pages = p # pages d \<rparr>"
  have s1: "page_alloc s = (Ret p, s1)" "free_count s = Suc (free_count s1)" "ks_page s1 = ks_page s" "page_free_list s1 = ps"
    by (auto simp: s1_def page_alloc_run [OF fl fp] free_count_def fl)
  have inv: "free_inv s1" using page_alloc_free_inv [of s] assms(1) s1(1) fl by (auto simp: dstack_ok_def dstack_mem_def)
  have b: "page_buf s1 = page_buf s" by (simp add: page_buf_def fun_eq_iff s1(3))
  have mem: "dstack_mem s1 ?d"
    using assms(1) inv fl by (auto simp: dstack_ok_def dstack_mem_def s1(3,4) free_inv_def)
  have full: "dstack_list s1 ?d = dstack_list s d" using True by (simp add: dstack_list_def b dstack_ok_buf [OF assms(1)])
  show ?thesis using buf_write_list [OF mem, of p "pages d" 509 x] True s1 full
    by (auto simp: dstack_push_def kbind_def kthen_case kret_def DSTACK_BUF_SIZE_def)
next
  case False
  then obtain p ps i where p: "pages d = p # ps" "sp d = Suc i"
    using assms(1) by (cases "pages d"; cases "sp d") (auto simp: dstack_ok_def)
  have "dstack_mem s d" "i < DSTACK_BUF_SIZE" using assms(1) p by (auto simp: dstack_ok_def)
  then show ?thesis using buf_write_list [OF _ p, of s x] p by (auto simp: dstack_push_def list_first_def kbind_def kthen_case kret_def)
qed

lemma dstack_pop_list:
  assumes "dstack_ok s d" "dstack_list s d = x # xs"
  shows "\<exists>d' s'. dstack_pop d s = (Ret (d', x), s') \<and> dstack_ok s' d' \<and> dstack_list s' d' = xs \<and> free_count s \<le> free_count s'"
proof -
  obtain p ps where p: "pages d = p # ps"
    using assms by (cases "pages d") (auto simp: dstack_list_def)
  have x: "x = page_buf s p ! sp d" "xs = drop (Suc (sp d)) (page_buf s p) @ concat (map (page_buf s) ps)"
    using dstack_list_cons [OF assms(1) p] assms(2) by simp_all
  have ok: "p \<noteq> 0" "sp d < DSTACK_BUF_SIZE" "\<not> pi_freepage (ks_pi s p)" "length (pg_words (ks_page s p)) = 512"
    using assms(1) p by (auto simp: dstack_ok_def dstack_mem_def free_inv_def)
  have read: "buf_read p (sp d) s = (Ret x, s)"
    using ok by (simp add: buf_read_def x(1) page_buf_def DSTACK_BUF_SIZE_def add.commute)
  show ?thesis
  proof (cases "sp d + 1 = DSTACK_BUF_SIZE")
    case False
    let ?d = "d\<lparr> sp := sp d + 1 \<rparr>"
    have "dstack_pop d s = (Ret (?d, x), s)"
      using ok read p False by (simp add: dstack_pop_def list_first_def kbind_def kret_def)
    moreover have "dstack_ok s ?d" using assms(1) ok(2) False p by (auto simp: dstack_ok_def dstack_mem_def)
    moreover have "dstack_list s ?d = xs" using p ok(2) dstack_ok_buf [OF assms(1)] by (simp add: dstack_list_def x(2))
    ultimately show ?thesis by blast
  next
    case True
    let ?d = "\<lparr> sp = 0, pages = ps \<rparr>"
    define s1 where "s1 = snd (page_free p s)"
    have s1: "page_free p s = (Ret (), s1)" "free_count s1 = Suc (free_count s)" "ks_page s1 = ks_page s" "page_free_list s1 = p # page_free_list s"
      using ok(3) by (auto simp: s1_def page_free_run free_count_def)
    have b: "page_buf s1 = page_buf s" by (simp add: page_buf_def fun_eq_iff s1(3))
    have inv: "free_inv s1" using pga.release_avail [of s p] assms(1) p s1(1) by (auto simp: dstack_ok_def dstack_mem_def)
    have "dstack_pop d s = (Ret (?d, x), s1)"
      using ok read p True s1(1) by (simp add: dstack_pop_def list_first_def kbind_def kret_def kthen_case)
    moreover have "dstack_ok s1 ?d"
      using assms(1) p inv by (auto simp: dstack_ok_def dstack_mem_def s1(3,4) DSTACK_BUF_SIZE_def)
    moreover have "dstack_list s1 ?d = xs"
      using dstack_ok_buf [OF assms(1)] True by (simp add: dstack_list_def x(2) b)
    ultimately show ?thesis using s1(2) by auto
  qed
qed

lemma dstack_pop_empty: "dstack_ok s d \<Longrightarrow> dstack_list s d = [] \<Longrightarrow> dstack_pop d s = (Panic, s)"
  by (simp add: dstack_list_empty dstack_empty_def dstack_pop_def list_first_def kpanic_def) (simp add: dstack_ok_def)

interpretation dst: memory_stack dstack_ok dstack_list dstack_push dstack_pop free_count
  by unfold_locales (blast intro: dstack_push_list, blast intro: dstack_pop_list, simp add: dstack_pop_empty)

subsection \<open>Sequences of operations\<close>

datatype dstack_op = Push u64 | Pop

fun dstack_ops :: "dstack_op list \<Rightarrow> dstack \<Rightarrow> (dstack \<times> u64 list) kernel" where
  "dstack_ops [] d = kret (d, [])"
| "dstack_ops (Push x # ops) d = kbind (dstack_push d x) (dstack_ops ops)"
| "dstack_ops (Pop # ops) d = kbind (dstack_pop d) (\<lambda>(d, x). kbind (dstack_ops ops d) (\<lambda>(d, out). kret (d, x # out)))"

fun list_ops :: "dstack_op list \<Rightarrow> u64 list \<Rightarrow> (u64 list \<times> u64 list) option" where
  "list_ops [] xs = Some (xs, [])"
| "list_ops (Push x # ops) xs = list_ops ops (x # xs)"
| "list_ops (Pop # ops) [] = None"
| "list_ops (Pop # ops) (x # xs) = map_option (\<lambda>(ys, out). (ys, x # out)) (list_ops ops xs)"

lemma dstack_ops_list:
  assumes "dstack_ok s d" "length ops \<le> free_count s"
  shows "case list_ops ops (dstack_list s d) of
      Some (xs, out) \<Rightarrow> \<exists>d' s'. dstack_ops ops d s = (Ret (d', out), s') \<and> dstack_ok s' d' \<and> dstack_list s' d' = xs
    | None \<Rightarrow> fst (dstack_ops ops d s) = Panic"
  using assms
proof (induction ops arbitrary: s d)
  case Nil
  then show ?case by (simp add: kret_def)
next
  case (Cons op ops)
  show ?case
  proof (cases op)
    case (Push x)
    obtain d1 s1 where 1: "dstack_push d x s = (Ret d1, s1)" "dstack_ok s1 d1" "dstack_list s1 d1 = x # dstack_list s d" "free_count s \<le> Suc (free_count s1)"
      using dst.push_spare [OF Cons.prems(1), of x] Cons.prems(2) by auto
    then show ?thesis using Cons.IH [OF 1(2)] Cons.prems(2) unfolding Push by (auto simp: kbind_def split: option.splits)
  next
    case Pop
    show ?thesis
    proof (cases "dstack_list s d")
      case Nil
      then show ?thesis using dstack_pop_empty [OF Cons.prems(1)] unfolding Pop by (simp add: kbind_def)
    next
      case x: (Cons x xs)
      obtain d1 s1 where 1: "dstack_pop d s = (Ret (d1, x), s1)" "dstack_ok s1 d1" "dstack_list s1 d1 = xs" "free_count s \<le> free_count s1"
        using dst.pop_cons [OF Cons.prems(1) x] by auto
      then have "length ops \<le> free_count s1" using Cons.prems(2) by simp
      from Cons.IH [OF 1(2) this] show ?thesis
        using 1 x unfolding Pop by (auto simp: kbind_def kret_def split: option.splits prod.splits outcome.splits)
    qed
  qed
qed

text \<open>C25: A sequence of pushes and pops on the stack in pages gives what it gives on a list: the same elements come out, the stack then stands for the
  same list, and a pop of an empty stack panics. Afterwards the stack holds the pages that the length of the list needs and no more.
  The hypothesis on memory is that there is a free page for each operation.\<close>

theorem dstack_refines_list:
  assumes "dstack_ok s d" "length ops \<le> length (page_free_list s)"
  shows "case list_ops ops (dstack_list s d) of
      None \<Rightarrow> fst (dstack_ops ops d s) = Panic
    | Some (xs, out) \<Rightarrow> \<exists>d' s'. dstack_ops ops d s = (Ret (d', out), s') \<and> dstack_ok s' d' \<and> dstack_list s' d' = xs \<and>
        length (pages d') = (length xs + (DSTACK_BUF_SIZE - 1)) div DSTACK_BUF_SIZE"
proof -
  have "length (pages d') = (length (dstack_list s' d') + (DSTACK_BUF_SIZE - 1)) div DSTACK_BUF_SIZE" if "dstack_ok s' d'" for s' d'
  proof -
    have "sp d' < DSTACK_BUF_SIZE" using that by (auto simp: dstack_ok_def DSTACK_BUF_SIZE_def split: if_splits)
    then show ?thesis using dstack_pages [OF that] by (auto simp: DSTACK_BUF_SIZE_def)
  qed
  then show ?thesis using dstack_ops_list [OF assms(1), of ops] assms(2) by (fastforce simp: free_count_def split: option.splits)
qed

definition three_pages :: kstate where
  "three_pages = kstate0\<lparr> page_free_list := [4, 9, 10],
     ks_pi := (\<lambda>p. page_info0\<lparr> pi_freepage := (p = 4 \<or> p = 9 \<or> p = 10) \<rparr>),
     page_stat := \<lparr> pages_used = 0, pages_avail = 3, ps_allocations = 0, ps_failures = 0 \<rparr> \<rparr>"

theorem dstack_refines_list_witness:
  "(\<exists>d s'. dstack_ops [Push 7, Push 8, Pop] dstack_init three_pages = (Ret (d, [8]), s') \<and> dstack_list s' d = [7] \<and> length (pages d) = 1) \<and>
   fst (dstack_ops [Pop] dstack_init three_pages) = Panic"
proof -
  have "dstack_ok three_pages dstack_init" "dstack_list three_pages dstack_init = []" "length (page_free_list three_pages) = 3"
    by (auto simp: dstack_ok_def dstack_mem_def dstack_init_def dstack_list_def three_pages_def free_inv_def page_info0_def kstate0_def page0_def)
  then show ?thesis
    using dstack_refines_list [of three_pages dstack_init "[Push 7, Push 8, Pop]"] dstack_refines_list [of three_pages dstack_init "[Pop]"]
    by (auto simp: DSTACK_BUF_SIZE_def)
qed

end
