(* ===== verification/Writelog.thy ===== *)
theory Writelog
  imports Hashtable Pagealloc
begin

text \<open>
  \<^verbatim>\<open>src/kern/kern/log.c\<close>: the write-ahead log of the disk. Nodes of the disk's B-trees that were changed are kept in memory buffers, are
  written to the log area of the disk when the buffers run full or a snapshot is committed, and are written to their home blocks
  when the log is applied, from memory while the system runs or from the log area after a crash.

  The state is the static structure \<^verbatim>\<open>the_log\<close>, the contents of the buffers and the blocks of the disk. A disk request is one block; whether
  the \<open>n\<close>-th request succeeds is given by \<open>lg_io\<close>, since it depends on the device.

  This theory has the state and the operations; the invariant of the log and its view as a disk are in the theory on the view, and
  what is proved of flushing, recovery, writing and reading in the theory on recovery.
\<close>

subsection \<open>State\<close>

text \<open>
  A block that holds a B-tree node: the block's own offset, the mark of blocks that are not in the log area yet, and everything else
  (the kind of node, the number of keys, children and keys). The fields that are only of use in memory are left out: the pointer to the tree, whose node size is the argument \<open>nwords\<close>
  of \<open>log_write\<close>, and the links of the list, which are the lists of buffers below.
\<close>

record btree_block =
  blk_offset :: u64
  blk_dirty :: bool
  blk_data :: "u64 list"

record the_log =
  lg_byteoff :: u64
  lg_npages :: u64
  lg_max_mem :: u64
  lg_in_mem :: u64
  lg_tailq_inited :: bool
  lg_must_apply :: bool
  lg_nodes :: "ptr list"
  lg_free_nodes :: "ptr list"
  lg_on_disk :: u64
  lg_disk_map :: hashtable
  lg_map_back :: "ptr list"
  lg_node :: "ptr \<Rightarrow> btree_block"
  lg_disk :: "u64 \<Rightarrow> btree_block"
  lg_io :: "nat \<Rightarrow> bool"
  lg_ios :: nat
  lg_kern :: kstate

type_synonym 'a logm = "(the_log, 'a) km"

definition LOG_MEMORY :: nat where
  "LOG_MEMORY = 1024"

definition LOG_OFFSET :: u64 where
  "LOG_OFFSET = 1"

definition MAX_LOG_PAGES :: nat where
  "MAX_LOG_PAGES = 131072"

definition hashentry0 :: hashentry where
  "hashentry0 = \<lparr> he_key = 0, he_val = 0 \<rparr>"

text \<open>Operations of the rest of the kernel and of the hash table on their part of the state.\<close>

definition log_kern :: "'a kernel \<Rightarrow> 'a logm" where
  "log_kern m s = (case m (lg_kern s) of (r, k) \<Rightarrow> (r, s\<lparr> lg_kern := k \<rparr>))"

definition log_map :: "(hashtable, 'a) km \<Rightarrow> 'a logm" where
  "log_map m s = (case m (lg_disk_map s) of (r, t) \<Rightarrow> (r, s\<lparr> lg_disk_map := t \<rparr>))"

text \<open>Requests to the disk: a failed one changes nothing.\<close>

definition log_io :: "bool logm" where
  "log_io s = (Ret (lg_io s (lg_ios s)), s\<lparr> lg_ios := lg_ios s + 1 \<rparr>)"

definition disk_write :: "ptr \<Rightarrow> u64 \<Rightarrow> unit logm" where
  "disk_write node off =
     kbind log_io (\<lambda>ok.
     if ok then kmod (\<lambda>s. s\<lparr> lg_disk := (lg_disk s)(off := lg_node s node) \<rparr>) else kerr E_IO)"

definition disk_read :: "ptr \<Rightarrow> u64 \<Rightarrow> unit logm" where
  "disk_read node off =
     kbind log_io (\<lambda>ok.
     if ok then kmod (\<lambda>s. s\<lparr> lg_node := (lg_node s)(node := lg_disk s off) \<rparr>) else kerr E_IO)"

subsection \<open>Operations\<close>

fun log_write_to_disk :: "ptr list \<Rightarrow> u64 \<Rightarrow> u64 logm" where
  "log_write_to_disk [] n = kret n"
| "log_write_to_disk (node # rest) n =
     kbind (kget (\<lambda>s. (blk_offset (lg_node s node), lg_byteoff s, lg_npages s))) (\<lambda>(off, byteoff, npages).
     kthen (kassert (off < byteoff \<or> off \<ge> byteoff + npages * PGSIZE))
    (kthen (disk_write node off)
       (log_write_to_disk rest (n + 1))))"

text \<open>The loop of \<^verbatim>\<open>log_write_to_log\<close>. The result of \<^verbatim>\<open>hash_put\<close> is ignored, its assertion is not.\<close>

fun log_write_nodes :: "ptr list \<Rightarrow> u64 \<Rightarrow> u64 \<Rightarrow> u64 logm" where
  "log_write_nodes [] off n = kret n"
| "log_write_nodes (node # rest) off n =
     kbind (kget (\<lambda>s. blk_dirty (lg_node s node))) (\<lambda>is_dirty.
     if \<not> is_dirty then log_write_nodes rest off n
     else
       kbind (kget (\<lambda>s. (lg_byteoff s, lg_npages s, blk_offset (lg_node s node)))) (\<lambda>(byteoff, npages, key).
       kthen (kassert (off + n * PGSIZE < npages * PGSIZE + byteoff))
      (kthen (disk_write node (off + n * PGSIZE))
      (kthen (ktry (log_map (hash_put key (off + n * PGSIZE))) (\<lambda>_. kret ()))
      (kthen (kmod (\<lambda>s. s\<lparr> lg_node := (lg_node s)(node := (lg_node s node)\<lparr> blk_dirty := False \<rparr>) \<rparr>))
         (log_write_nodes rest off (n + 1)))))))"

definition log_write_to_log :: "ptr list \<Rightarrow> u64 \<Rightarrow> u64 logm" where
  "log_write_to_log ns off =
     kbind (kget lg_byteoff) (\<lambda>byteoff.
     kthen (kassert (byteoff \<le> off)) (log_write_nodes ns off 0))"

text \<open>The list that is emptied is the caller's: its nodes go to the front of the free list one by one.\<close>

fun log_free_list :: "ptr list \<Rightarrow> u64 \<Rightarrow> u64 logm" where
  "log_free_list [] n = kret n"
| "log_free_list (node # rest) n =
     kthen (kmod (\<lambda>s. s\<lparr> lg_free_nodes := node # lg_free_nodes s \<rparr>)) (log_free_list rest (n + 1))"

definition log_free_nodes :: "u64 logm" where
  "log_free_nodes =
     kbind (kget lg_nodes) (\<lambda>ns.
     kthen (kmod (\<lambda>s. s\<lparr> lg_nodes := [] \<rparr>)) (log_free_list ns 0))"

definition take_free_node :: "ptr logm" where
  "take_free_node =
     kbind (kget lg_free_nodes) (\<lambda>fl.
     case fl of
       [] \<Rightarrow> kpanic
     | node # rest \<Rightarrow> kthen (kmod (\<lambda>s. s\<lparr> lg_free_nodes := rest \<rparr>)) (kret node))"

text \<open>The nodes read so far are the caller's also when a request fails; the buffer of the failed request is on no list.\<close>

fun log_read_log :: "nat \<Rightarrow> u64 \<Rightarrow> ptr list \<Rightarrow> (bool \<times> ptr list) logm" where
  "log_read_log 0 off ns = kret (True, ns)"
| "log_read_log (Suc n) off ns =
     kbind take_free_node (\<lambda>node.
     ktry (disk_read node off) (\<lambda>r. case r of
         Inl _ \<Rightarrow> kret (False, ns)
       | Inr _ \<Rightarrow> log_read_log n (off + PGSIZE) (ns @ [node])))"

text \<open>The loop over the entries of the map, in the order of its iterator. A request that fails returns at once, and the buffers taken so far are on no list.\<close>

fun log_read_map :: "(u64 \<times> u64) list \<Rightarrow> u64 \<Rightarrow> u64 \<Rightarrow> ptr list \<Rightarrow> (u64 \<times> ptr list) logm" where
  "log_read_map [] max_nodes count ns = kret (count, ns)"
| "log_read_map ((key, off) # es) max_nodes count ns =
     kbind take_free_node (\<lambda>node.
     kthen (disk_read node off)
    (kbind (kget (\<lambda>s. blk_offset (lg_node s node))) (\<lambda>boff.
     kthen (kassert (boff = key))
    (if count + 1 \<ge> max_nodes then kret (count + 1, node # ns)
     else log_read_map es max_nodes (count + 1) (node # ns)))))"

text \<open>The result is the page that was copied.\<close>

definition log_try_read :: "u64 \<Rightarrow> btree_block logm" where
  "log_try_read byteoff =
     kbind (kget (\<lambda>s. map (lg_node s) (lg_nodes s))) (\<lambda>bs.
     case find (\<lambda>b. byteoff = blk_offset b) bs of
       Some b \<Rightarrow> kret b
     | None \<Rightarrow>
         kbind (kget (\<lambda>s. hash_get (lg_disk_map s) byteoff)) (\<lambda>r.
         case r of
           Inl _ \<Rightarrow> kerr E_NOT_FOUND
         | Inr log_off \<Rightarrow>
             kbind log_io (\<lambda>ok. if ok then kget (\<lambda>s. lg_disk s log_off) else kerr E_IO)))"

definition log_flush :: "u64 logm" where
  "log_flush =
     kbind (kget (\<lambda>s. (lg_npages s, lg_in_mem s, lg_on_disk s, lg_byteoff s, lg_nodes s))) (\<lambda>(npages, in_mem, on_disk, byteoff, ns).
     if npages \<le> in_mem + on_disk + 1 then kpanic
     else
       kbind (log_write_to_log ns (byteoff + on_disk * PGSIZE)) (\<lambda>count.
       kthen (kassert (count \<le> in_mem))
      (kthen (kmod (\<lambda>s. s\<lparr> lg_on_disk := lg_on_disk s + count \<rparr>))
         (kget lg_on_disk))))"

text \<open>A cleared page as a block.\<close>

definition BLK_WORDS :: nat where
  "BLK_WORDS = 511"

definition block0 :: btree_block where
  "block0 = \<lparr> blk_offset = 0, blk_dirty = False, blk_data = replicate BLK_WORDS 0 \<rparr>"

text \<open>
  \<open>nwords\<close> is the part of the data that \<^verbatim>\<open>BTREE_NODE_SIZE\<close> of the node's tree covers; what is beyond it stays as it was in the buffer.
\<close>

definition block_copy :: "btree_block \<Rightarrow> nat \<Rightarrow> btree_block \<Rightarrow> btree_block" where
  "block_copy node nwords store =
     \<lparr> blk_offset = blk_offset node, blk_dirty = True, blk_data = take nwords (blk_data node) @ drop nwords (blk_data store) \<rparr>"

definition log_fresh_node :: "ptr logm" where
  "log_fresh_node =
     kbind take_free_node (\<lambda>store.
     kthen (kmod (\<lambda>s. s\<lparr> lg_node := (lg_node s)(store := block0), lg_in_mem := lg_in_mem s + 1 \<rparr>)) (kret store))"

text \<open>The case of \<^verbatim>\<open>log_write\<close> for a block that is in no buffer: if all buffers are in use, they are flushed and freed first.\<close>

definition log_new_node :: "ptr logm" where
  "log_new_node =
     kbind (kget (\<lambda>s. lg_in_mem s = lg_max_mem s)) (\<lambda>full.
     kthen (kwhen full
       (kthen log_flush
       (kbind log_free_nodes (\<lambda>count.
        kthen (kmod (\<lambda>s. s\<lparr> lg_in_mem := lg_in_mem s - count \<rparr>))
       (kbind (kget lg_in_mem) (\<lambda>m. kassert (m = 0)))))))
     log_fresh_node)"

definition log_write :: "btree_block \<Rightarrow> nat \<Rightarrow> unit logm" where
  "log_write node nwords =
     kbind (kget (\<lambda>s. find (\<lambda>p. blk_offset (lg_node s p) = blk_offset node) (lg_nodes s))) (\<lambda>found.
     kbind (case found of
         Some store \<Rightarrow> kthen (kmod (\<lambda>s. s\<lparr> lg_nodes := remove1 store (lg_nodes s) \<rparr>)) (kret store)
       | None \<Rightarrow> log_new_node) (\<lambda>store.
     kmod (\<lambda>s. s\<lparr> lg_node := (lg_node s)(store := block_copy node nwords (lg_node s store)),
                  lg_nodes := lg_nodes s @ [store] \<rparr>)))"

definition log_free :: "u64 \<Rightarrow> unit logm" where
  "log_free byteoff =
     kbind (kget (\<lambda>s. find (\<lambda>p. byteoff = blk_offset (lg_node s p)) (lg_nodes s))) (\<lambda>found.
     kthen (case found of
         None \<Rightarrow> kret ()
       | Some node \<Rightarrow> kmod (\<lambda>s. s\<lparr> lg_nodes := remove1 node (lg_nodes s), lg_free_nodes := node # lg_free_nodes s,
                                     lg_in_mem := lg_in_mem s - 1 \<rparr>))
    (kbind (kget (\<lambda>s. hash_get (lg_disk_map s) byteoff)) (\<lambda>r.
     case r of
       Inl _ \<Rightarrow> kret ()
     | Inr _ \<Rightarrow> kthen (kmod (\<lambda>s. s\<lparr> lg_must_apply := True \<rparr>))
                  (ktry (log_map (hash_del byteoff)) (\<lambda>_. kret ())))))"

definition log_must_apply :: "bool logm" where
  "log_must_apply = kget lg_must_apply"

definition log_page_alloc :: "ptr logm" where
  "log_page_alloc = ktry (log_kern page_alloc) (\<lambda>r. case r of Inl _ \<Rightarrow> kpanic | Inr p \<Rightarrow> kret p)"

definition log_init_map :: "nat \<Rightarrow> unit logm" where
  "log_init_map i =
     kthen (kassert (i < MAX_LOG_PAGES div 256 + 1))
    (kbind (kget (\<lambda>s. lg_map_back s ! i)) (\<lambda>p.
     kwhen (p = 0) (kbind log_page_alloc (\<lambda>p. kmod (\<lambda>s. s\<lparr> lg_map_back := (lg_map_back s)[i := p] \<rparr>)))))"

text \<open>
  The pages of the map are cleared. The source clears those for \<open>log_pages\<close> entries and the map never reads beyond them; here the contents
  given to \<open>hash_init2\<close> are a cleared table of the full size.
\<close>

definition log_init :: "u64 \<Rightarrow> unit logm" where
  "log_init log_pages =
     kbind (kget lg_tailq_inited) (\<lambda>inited.
     kthen (kwhen (\<not> inited)
       (kthen (kmod (\<lambda>s. s\<lparr> lg_nodes := [], lg_free_nodes := [], lg_tailq_inited := True \<rparr>))
          (kfor (\<lambda>_. kbind log_page_alloc (\<lambda>p. kmod (\<lambda>s. s\<lparr> lg_free_nodes := lg_free_nodes s @ [p] \<rparr>))) [0..<LOG_MEMORY])))
    (kthen (kfor log_init_map [0..<unat log_pages div 256 + 1])
    (kthen (kbind log_free_nodes (\<lambda>_. kret ()))
       (kmod (\<lambda>s. s\<lparr> lg_disk_map := hash_init2 (lg_disk_map s) (replicate (MAX_LOG_PAGES div 256 + 1) (replicate 256 hashentry0)) (unat log_pages) 4096,
                     lg_in_mem := 0, lg_on_disk := 0, lg_byteoff := LOG_OFFSET * PGSIZE, lg_npages := log_pages,
                     lg_max_mem := of_nat LOG_MEMORY, lg_must_apply := False \<rparr>)))))"

text \<open>One round of the loop of \<^verbatim>\<open>log_apply_disk\<close>, with \<open>n\<close> blocks.\<close>

definition log_apply_round :: "u64 \<Rightarrow> u64 \<Rightarrow> unit logm" where
  "log_apply_round n off =
     kbind (log_read_log (unat n) off []) (\<lambda>(ok, ns).
     if \<not> ok then kthen (log_free_list ns 0) (kerr E_IO)
     else ktry (log_write_to_disk ns 0) (\<lambda>r. case r of
         Inl e \<Rightarrow> kthen (log_free_list ns 0) (kerr e)
       | Inr count \<Rightarrow> kthen (kassert (count = n)) (kthen (log_free_list ns 0) (kret ()))))"

text \<open>The loop takes at least one block in every round, so as many rounds as there are blocks are enough.\<close>

fun log_apply_rounds :: "nat \<Rightarrow> u64 \<Rightarrow> u64 \<Rightarrow> unit logm" where
  "log_apply_rounds fuel n_nodes off =
     (if n_nodes = 0 then kret ()
      else case fuel of
        0 \<Rightarrow> knofuel
      | Suc fuel \<Rightarrow>
          kbind (kget (\<lambda>s. min n_nodes (lg_max_mem s))) (\<lambda>n.
          kthen (log_apply_round n off)
            (log_apply_rounds fuel (n_nodes - n) (off + n * PGSIZE))))"

declare log_apply_rounds.simps [simp del]

definition log_apply_disk :: "u64 \<Rightarrow> unit logm" where
  "log_apply_disk n_nodes =
     kbind (kget (\<lambda>s. (lg_byteoff s, lg_npages s))) (\<lambda>(off, npages).
     kthen (log_init npages)
    (kthen (log_apply_rounds (unat n_nodes) n_nodes off)
       (log_init npages)))"

definition log_del_offsets :: "ptr list \<Rightarrow> unit logm" where
  "log_del_offsets ns =
     kfor (\<lambda>node. kbind (kget (\<lambda>s. blk_offset (lg_node s node))) (\<lambda>off. ktry (log_map (hash_del off)) (\<lambda>_. kret ()))) ns"

text \<open>One round of the loop of \<^verbatim>\<open>log_apply_mem\<close> over the map.\<close>

definition log_drain_round :: "unit logm" where
  "log_drain_round =
     kbind (kget (\<lambda>s. (lg_disk_map s, lg_max_mem s))) (\<lambda>(disk_map, max_mem).
     kbind (log_read_map (hashiter_all disk_map hashiter_init) max_mem 0 []) (\<lambda>(r, in_log).
     kthen (kassert (r \<noteq> 0))
    (kthen (log_write_to_disk in_log 0)
    (kthen (log_del_offsets in_log)
    (kthen (log_free_list in_log 0) (kret ()))))))"

text \<open>Every round takes entries off the map, so as many rounds as it has entries are enough.\<close>

fun log_drain :: "nat \<Rightarrow> unit logm" where
  "log_drain fuel =
     kbind (kget (\<lambda>s. ht_size (lg_disk_map s))) (\<lambda>entries.
     if entries = 0 then kret ()
     else case fuel of
       0 \<Rightarrow> knofuel
     | Suc fuel \<Rightarrow> kthen log_drain_round (log_drain fuel))"

declare log_drain.simps [simp del]

definition log_apply_mem :: "unit logm" where
  "log_apply_mem =
     kbind (kget lg_nodes) (\<lambda>ns.
     kbind (log_write_to_disk ns 0) (\<lambda>count.
     kthen (log_del_offsets ns)
    (kbind log_free_nodes (\<lambda>freed.
     kthen (kassert (count = freed))
    (kthen (kmod (\<lambda>s. s\<lparr> lg_in_mem := lg_in_mem s - count \<rparr>))
    (kbind (kget lg_in_mem) (\<lambda>m.
     kthen (kassert (m = 0))
    (kbind (kget (\<lambda>s. nat (ht_size (lg_disk_map s)))) (\<lambda>fuel.
     kthen (log_drain fuel)
    (kbind (kget lg_npages) log_init))))))))))"

end
