(* ===== verification/Logview.thy ===== *)
theory Logview
  imports Writelog
begin

text \<open>
  The log of \<^verbatim>\<open>src/kern/kern/log.c\<close> as a disk: what the blocks of the log area and the buffers in memory stand for, the invariant of the log, and
  that flushing keeps both. The results are about a log from which no block that is in the log area was freed since it was last
  applied (\<^verbatim>\<open>must_apply\<close> is 0): the map of the log then has no tombstones.
\<close>

subsection \<open>The map without tombstones\<close>

definition ht_no_tomb :: "hashtable \<Rightarrow> bool" where
  "ht_no_tomb t \<longleftrightarrow> (\<forall>i<capacity t. slot_key t i \<noteq> TOMB)"

lemma hash_put_no_tomb:
  assumes wf: "ht_wf t" and d: "ht_distinct t" and nt: "ht_no_tomb t" and put: "hash_put k v t = (Ret (), t')"
  shows "ht_distinct t' \<and> ht_no_tomb t'"
  using put
proof (rule hash_put_Ret)
  fix j e
  let ?x = "\<lparr> he_key = k, he_val = v \<rparr>"
  assume k: "live k" and j: "j < capacity t" "e = hash_probe t k j" and old: "slot_key t e \<in> {0, TOMB, k}"
    and before: "\<And>i. i < j \<Longrightarrow> slot_key t (hash_probe t k i) \<notin> {0, TOMB, k}"
    and t': "t' = (hash_ent_set t e ?x)\<lparr> ht_size := (if slot_key t e = k then ht_size t else ht_size t + 1) \<rparr>"
  note shape = ht_wf_shape [OF wf]
  have e: "e < capacity t" using j shape by (simp add: hash_probe_less)
  have only: "s = e" if s: "s < capacity t" "slot_key t s = k" for s
  proof -
    obtain i where i: "i < capacity t" "hash_probe t k i = s" "\<forall>i'<i. slot_key t (hash_probe t k i') \<noteq> 0"
      using wf s k by (auto simp: ht_wf_def)
    have "slot_key t e \<noteq> TOMB" using nt e by (simp add: ht_no_tomb_def)
    then have "slot_key t e = 0 \<or> slot_key t e = k" using old by simp
    moreover have "\<not> i < j" using before [of i] i(2) s(2) by auto
    ultimately show ?thesis
      using i(2,3) j(2) d s e k by (metis ht_distinct_def linorder_neqE_nat)
  qed
  have "ht_distinct t'" unfolding t' using shape d e only by (intro ht_distinct_set) auto
  moreover have "ht_no_tomb t'"
    using nt e k shape by (auto simp: ht_no_tomb_def t' hash_ent_set_other live_def)
  ultimately show ?thesis by blast
qed

lemma zero_row: "(replicate n x)[i := x] = replicate n x"
  by (cases "i < n") (simp_all add: list_eq_iff_nth_eq nth_list_update)

lemma hash_init2_zero:
  assumes "n \<le> 256 * m"
  shows "hash_init2 t (replicate m (replicate 256 hashentry0)) n 4096 =
    t\<lparr> entry2 := replicate m (replicate 256 hashentry0), capacity := n, ht_size := 0, pgents := 256 \<rparr>"
proof -
  let ?t = "t\<lparr> entry2 := replicate m (replicate 256 hashentry0), capacity := n, ht_size := 0, pgents := 256 \<rparr>"
  have "hash_ent_set ?t i \<lparr> he_key = 0, he_val = 0 \<rparr> = ?t" if "i < n" for i
  proof -
    have "i div 256 < m" using that assms by linarith
    then show ?thesis by (simp add: hash_ent_set_def hashentry0_def [symmetric] zero_row)
  qed
  then have "fold (\<lambda>i t. hash_ent_set t i \<lparr> he_key = 0, he_val = 0 \<rparr>) is ?t = ?t" if "set is \<subseteq> {..<n}" for "is"
    using that by (induction "is") auto
  then show ?thesis by (simp add: hash_init2_def lessThan_atLeast0)
qed

lemma hash_init2_wf:
  fixes t :: hashtable
  assumes "n \<le> 256 * m" "n < 2 ^ 31"
  defines "h \<equiv> hash_init2 t (replicate m (replicate 256 hashentry0)) n 4096"
  shows "ht_wf h" "ht_distinct h" "ht_counted h" "ht_no_tomb h" "ht_lookup h = Map.empty" "capacity h = n" "ht_size h = 0"
proof -
  have h: "h = t\<lparr> entry2 := replicate m (replicate 256 hashentry0), capacity := n, ht_size := 0, pgents := 256 \<rparr>"
    unfolding h_def by (rule hash_init2_zero [OF assms(1)])
  show cap: "capacity h = n" "ht_size h = 0" by (simp_all add: h)
  have row: "i div 256 < m" if "i < n" for i using that assms(1) by linarith
  have key: "i < n \<Longrightarrow> slot_key h i = 0" for i
    using row by (simp add: h hash_ent_def hashentry0_def)
  show wf: "ht_wf h" using assms(2) row key by (simp add: ht_wf_def cap) (simp add: ht_shape_def h)
  show "ht_distinct h" "ht_no_tomb h" using key by (auto simp: ht_distinct_def ht_no_tomb_def cap)
  have "{s. s < capacity h \<and> live (slot_key h s)} = {}" using key by (auto simp: cap)
  then show "ht_counted h" unfolding ht_counted_def by (simp only: card.empty) (simp add: cap)
  have "ht_lookup h k = None" for k
    by (cases "live k") (use ht_lookup_None_iff [OF wf, of k] key in \<open>auto simp: cap ht_lookup_find [of _ k]\<close>)
  then show "ht_lookup h = Map.empty" by auto
qed

subsection \<open>The log area\<close>

text \<open>The offset of block \<open>k\<close> of the log area.\<close>

definition slot :: "nat \<Rightarrow> u64" where
  "slot k = LOG_OFFSET * PGSIZE + of_nat k * PGSIZE"

lemma unat_slot:
  assumes "k \<le> MAX_LOG_PAGES"
  shows "unat (slot k) = 4096 + k * 4096"
proof -
  have k: "k \<le> 131072" using assms by (simp add: MAX_LOG_PAGES_def)
  have "slot k = of_nat (4096 + k * 4096)" by (simp add: slot_def LOG_OFFSET_def PGSIZE_def)
  then have "unat (slot k) = (4096 + k * 4096) mod 2 ^ LENGTH(64)" by (simp only: unat_of_nat)
  then show ?thesis using k by simp
qed

lemma slot_inj:
  assumes "slot j = slot k" "j \<le> MAX_LOG_PAGES" "k \<le> MAX_LOG_PAGES"
  shows "j = k"
proof -
  have "4096 + j * 4096 = 4096 + k * 4096"
    unfolding unat_slot [OF assms(2), symmetric] unat_slot [OF assms(3), symmetric] assms(1) by (rule refl)
  then show ?thesis by linarith
qed

lemma slot_step: "slot k + of_nat n * PGSIZE = slot (k + n)"
  by (simp add: slot_def distrib_right)

lemma slot_next: "slot k + PGSIZE = slot (Suc k)"
  using slot_step [of k 1] by simp

text \<open>The blocks outside the log area that can be in the log.\<close>

definition home :: "the_log \<Rightarrow> u64 \<Rightarrow> bool" where
  "home s off \<longleftrightarrow> live off \<and> (off < lg_byteoff s \<or> lg_byteoff s + lg_npages s * PGSIZE \<le> off)"

text \<open>The geometry that \<open>log_init\<close> sets up, and a disk whose requests succeed.\<close>

definition log_geom :: "the_log \<Rightarrow> bool" where
  "log_geom s \<longleftrightarrow> lg_byteoff s = LOG_OFFSET * PGSIZE \<and> unat (lg_npages s) \<le> MAX_LOG_PAGES \<and> lg_max_mem s = of_nat LOG_MEMORY \<and> (\<forall>i. lg_io s i)"

lemma log_geom_end:
  assumes "log_geom s"
  shows "lg_byteoff s + lg_npages s * PGSIZE = slot (unat (lg_npages s))" "lg_byteoff s = slot 0"
  using assms by (simp_all add: log_geom_def slot_def)

lemma slot_less: "j < k \<Longrightarrow> k \<le> MAX_LOG_PAGES \<Longrightarrow> slot j < slot k"
  by (simp add: word_less_nat_alt unat_slot)

lemma home_not_slot:
  assumes "log_geom s" "home s off" "k < unat (lg_npages s)"
  shows "off \<noteq> slot k"
proof -
  have n: "unat (lg_npages s) \<le> MAX_LOG_PAGES" using assms(1) by (simp add: log_geom_def)
  have "slot 0 \<le> slot k" using slot_less [of 0 k] assms(3) n by (cases "k = 0") (simp_all add: order.strict_implies_order)
  moreover have "slot k < slot (unat (lg_npages s))" using slot_less assms(3) n by blast
  moreover have "off < slot 0 \<or> slot (unat (lg_npages s)) \<le> off"
    using assms(2) log_geom_end [OF assms(1)] unfolding home_def by metis
  ultimately show ?thesis by auto
qed

subsection \<open>What the log stands for\<close>

definition same_block :: "btree_block \<Rightarrow> btree_block \<Rightarrow> bool" where
  "same_block a b \<longleftrightarrow> blk_offset a = blk_offset b \<and> blk_data a = blk_data b"

lemma same_block_refl [simp]: "same_block b b"
  by (simp add: same_block_def)

lemma same_block_sym: "same_block a b \<Longrightarrow> same_block b a"
  by (simp add: same_block_def)

lemma same_block_trans: "same_block a b \<Longrightarrow> same_block b c \<Longrightarrow> same_block a c"
  by (simp add: same_block_def)

lemma same_block_dirty [simp]: "same_block (b\<lparr> blk_dirty := d \<rparr>) b" "same_block b (b\<lparr> blk_dirty := d \<rparr>)"
  by (simp_all add: same_block_def)

abbreviation node_off :: "the_log \<Rightarrow> ptr \<Rightarrow> u64" where
  "node_off s p \<equiv> blk_offset (lg_node s p)"

definition log_mem :: "the_log \<Rightarrow> u64 \<Rightarrow> ptr option" where
  "log_mem s off = find (\<lambda>p. node_off s p = off) (lg_nodes s)"

text \<open>The block as the B-tree code sees it: in a buffer, in the log area, or at home.\<close>

definition log_view :: "the_log \<Rightarrow> u64 \<Rightarrow> btree_block" where
  "log_view s off = (case log_mem s off of
       Some p \<Rightarrow> lg_node s p
     | None \<Rightarrow> lg_disk s (case ht_lookup (lg_disk_map s) off of Some lo \<Rightarrow> lo | None \<Rightarrow> off))"

text \<open>The entry of the map for a block is its last copy among the first \<open>m\<close> blocks of the log area.\<close>

definition last_copy :: "(u64 \<Rightarrow> btree_block) \<Rightarrow> nat \<Rightarrow> u64 \<Rightarrow> u64 \<Rightarrow> bool" where
  "last_copy d m off lo \<longleftrightarrow> (\<exists>k<m. lo = slot k \<and> blk_offset (d lo) = off \<and> (\<forall>j. k < j \<longrightarrow> j < m \<longrightarrow> blk_offset (d (slot j)) \<noteq> off))"

definition map_ok :: "the_log \<Rightarrow> bool" where
  "map_ok s \<longleftrightarrow> ht_wf (lg_disk_map s) \<and> ht_distinct (lg_disk_map s) \<and> ht_counted (lg_disk_map s) \<and> ht_no_tomb (lg_disk_map s) \<and>
     capacity (lg_disk_map s) = unat (lg_npages s)"

definition nodes_ok :: "the_log \<Rightarrow> bool" where
  "nodes_ok s \<longleftrightarrow> distinct (lg_nodes s @ lg_free_nodes s) \<and> length (lg_nodes s) + length (lg_free_nodes s) = LOG_MEMORY \<and>
     lg_in_mem s = of_nat (length (lg_nodes s)) \<and> distinct (map (node_off s) (lg_nodes s)) \<and>
     (\<forall>p\<in>set (lg_nodes s). home s (node_off s p) \<and> probes_total (lg_disk_map s) (node_off s p))"

definition area_ok :: "the_log \<Rightarrow> nat \<Rightarrow> bool" where
  "area_ok s m \<longleftrightarrow> m \<le> unat (lg_npages s) \<and>
     (\<forall>off lo. ht_lookup (lg_disk_map s) off = Some lo \<longrightarrow> home s off \<and> last_copy (lg_disk s) m off lo) \<and>
     (\<forall>k<m. ht_lookup (lg_disk_map s) (blk_offset (lg_disk s (slot k))) \<noteq> None)"

definition clean_ok :: "the_log \<Rightarrow> bool" where
  "clean_ok s \<longleftrightarrow> (\<forall>p\<in>set (lg_nodes s). \<not> blk_dirty (lg_node s p) \<longrightarrow>
     (\<exists>lo. ht_lookup (lg_disk_map s) (node_off s p) = Some lo \<and> same_block (lg_disk s lo) (lg_node s p)))"

definition log_ok_at :: "the_log \<Rightarrow> nat \<Rightarrow> bool" where
  "log_ok_at s m \<longleftrightarrow> log_geom s \<and> map_ok s \<and> nodes_ok s \<and> area_ok s m \<and> clean_ok s"

definition log_ok :: "the_log \<Rightarrow> bool" where
  "log_ok s \<longleftrightarrow> log_ok_at s (unat (lg_on_disk s))"

subsection \<open>Flushing\<close>

text \<open>What stays when nodes are copied to the log area.\<close>

definition log_frame :: "the_log \<Rightarrow> the_log \<Rightarrow> bool" where
  "log_frame s s' \<longleftrightarrow> lg_byteoff s' = lg_byteoff s \<and> lg_npages s' = lg_npages s \<and> lg_max_mem s' = lg_max_mem s \<and> lg_in_mem s' = lg_in_mem s \<and>
     lg_tailq_inited s' = lg_tailq_inited s \<and> lg_must_apply s' = lg_must_apply s \<and> lg_nodes s' = lg_nodes s \<and> lg_free_nodes s' = lg_free_nodes s \<and>
     lg_on_disk s' = lg_on_disk s \<and> lg_map_back s' = lg_map_back s \<and> lg_io s' = lg_io s \<and> lg_kern s' = lg_kern s \<and>
     (\<forall>p. same_block (lg_node s' p) (lg_node s p)) \<and> (\<forall>off. home s off \<longrightarrow> lg_disk s' off = lg_disk s off) \<and>
     (\<forall>off. home s off \<longrightarrow> same_block (log_view s' off) (log_view s off))"

lemma log_frame_refl: "log_frame s s"
  by (simp add: log_frame_def)

lemma log_frame_home: "log_frame s s' \<Longrightarrow> home s' off = home s off"
  by (simp add: log_frame_def home_def)

lemma log_frame_trans: "log_frame s t \<Longrightarrow> log_frame t u \<Longrightarrow> log_frame s u"
proof -
  assume st: "log_frame s t" and tu: "log_frame t u"
  have h: "home t = home s" using log_frame_home [OF st] by blast
  have "same_block (lg_node u p) (lg_node s p)" for p
    using st tu same_block_trans unfolding log_frame_def by blast
  moreover have "same_block (log_view u off) (log_view s off)" if "home s off" for off
    using st tu same_block_trans that h unfolding log_frame_def by metis
  moreover have "lg_disk u off = lg_disk s off" if "home s off" for off
    using st tu that h unfolding log_frame_def by metis
  ultimately show ?thesis using st tu unfolding log_frame_def by metis
qed

text \<open>The state after the dirty node \<open>p\<close> was copied to block \<open>m\<close> of the log area, and the map was given the entry.\<close>

definition put_log :: "ptr \<Rightarrow> nat \<Rightarrow> hashtable \<Rightarrow> the_log \<Rightarrow> the_log" where
  "put_log p m t s = s\<lparr> lg_disk := (lg_disk s)(slot m := lg_node s p), lg_ios := lg_ios s + 1, lg_disk_map := t,
     lg_node := (lg_node s)(p := (lg_node s p)\<lparr> blk_dirty := False \<rparr>) \<rparr>"

lemma put_log_simps [simp]:
  "lg_byteoff (put_log p m t s) = lg_byteoff s" "lg_npages (put_log p m t s) = lg_npages s" "lg_max_mem (put_log p m t s) = lg_max_mem s"
  "lg_in_mem (put_log p m t s) = lg_in_mem s" "lg_nodes (put_log p m t s) = lg_nodes s" "lg_free_nodes (put_log p m t s) = lg_free_nodes s"
  "lg_disk_map (put_log p m t s) = t" "lg_io (put_log p m t s) = lg_io s" "node_off (put_log p m t s) q = node_off s q"
  "lg_disk (put_log p m t s) = (lg_disk s)(slot m := lg_node s p)" "home (put_log p m t s) = home s"
  "log_mem (put_log p m t s) = log_mem s" "same_block (lg_node (put_log p m t s) q) (lg_node s q)"
  "blk_dirty (lg_node (put_log p m t s) q) = (q \<noteq> p \<and> blk_dirty (lg_node s q))"
proof -
  show "node_off (put_log p m t s) q = node_off s q" for q by (simp add: put_log_def)
  then show "log_mem (put_log p m t s) = log_mem s" by (simp add: fun_eq_iff log_mem_def) (simp add: put_log_def)
qed (auto simp: put_log_def home_def fun_eq_iff)

lemma find_distinct:
  assumes "distinct (map f xs)" "x \<in> set xs"
  shows "find (\<lambda>y. f y = f x) xs = Some x"
  using assms by (induction xs) (auto simp: image_iff)

lemma log_mem_node: "nodes_ok s \<Longrightarrow> p \<in> set (lg_nodes s) \<Longrightarrow> log_mem s (node_off s p) = Some p"
  using find_distinct [of "node_off s" "lg_nodes s" p] by (simp add: log_mem_def nodes_ok_def)

lemma log_mem_Some: "log_mem s off = Some p \<Longrightarrow> p \<in> set (lg_nodes s) \<and> node_off s p = off"
  by (auto simp: log_mem_def find_Some_iff)

lemma last_copy_slot: "last_copy d m off lo \<Longrightarrow> m \<le> MAX_LOG_PAGES \<Longrightarrow> lo \<noteq> slot m"
  by (auto simp: last_copy_def dest: slot_inj)

lemma put_log_area:
  assumes ok: "log_ok_at s m" and p: "p \<in> set (lg_nodes s)" and m: "m < unat (lg_npages s)"
    and t: "ht_lookup t = (ht_lookup (lg_disk_map s))(node_off s p \<mapsto> slot m)"
  shows "area_ok (put_log p m t s) (Suc m)"
proof -
  let ?s = "put_log p m t s" and ?o = "node_off s p" and ?d = "(lg_disk s)(slot m := lg_node s p)"
  have n: "unat (lg_npages s) \<le> MAX_LOG_PAGES" using ok by (simp add: log_ok_at_def log_geom_def)
  have old: "?d (slot k) = lg_disk s (slot k)" if "k < m" for k using slot_inj [of k m] that m n by auto
  have hp: "home s ?o" using ok p by (simp add: log_ok_at_def nodes_ok_def)
  have "home s off \<and> last_copy ?d (Suc m) off lo" if "ht_lookup t off = Some lo" for off lo
  proof (cases "off = ?o")
    case True
    then show ?thesis using that hp t by (auto simp: last_copy_def intro: exI [of _ m])
  next
    case False
    then have lo: "home s off" "last_copy (lg_disk s) m off lo" using that t ok by (auto simp: log_ok_at_def area_ok_def)
    then obtain k where k: "k < m" "lo = slot k" "blk_offset (lg_disk s lo) = off"
      "\<forall>j. k < j \<longrightarrow> j < m \<longrightarrow> blk_offset (lg_disk s (slot j)) \<noteq> off" by (auto simp: last_copy_def)
    have "blk_offset (?d (slot j)) \<noteq> off" if "k < j" "j < Suc m" for j
      using that k(4) False old [of j] by (cases "j = m") auto
    then have "last_copy ?d (Suc m) off lo"
      unfolding last_copy_def using k(1-3) old [OF k(1)] by (intro exI [of _ k] conjI allI impI) (simp_all del: fun_upd_apply)
    then show ?thesis using lo(1) by blast
  qed
  moreover have "ht_lookup t (blk_offset (?d (slot k))) \<noteq> None" if "k < Suc m" for k
    using that old [of k] t ok by (cases "k = m") (auto simp: log_ok_at_def area_ok_def)
  ultimately show ?thesis using m by (simp add: area_ok_def del: fun_upd_apply)
qed

lemma put_log_ok:
  assumes ok: "log_ok_at s m" and p: "p \<in> set (lg_nodes s)" and m: "m < unat (lg_npages s)"
    and put: "hash_put (node_off s p) (slot m) (lg_disk_map s) = (Ret (), t)"
  shows "log_ok_at (put_log p m t s) (Suc m)" "log_frame s (put_log p m t s)"
proof -
  let ?s = "put_log p m t s" and ?t = "lg_disk_map s"
  have g: "log_geom s" and mo: "map_ok s" and no: "nodes_ok s" and ao: "area_ok s m" and co: "clean_ok s"
    using ok by (simp_all add: log_ok_at_def)
  have n: "unat (lg_npages s) \<le> MAX_LOG_PAGES" using g by (simp add: log_geom_def)
  have wf: "ht_wf ?t" "ht_distinct ?t" "ht_counted ?t" "ht_no_tomb ?t" using mo by (simp_all add: map_ok_def)
  have t: "ht_wf t" "ht_lookup t = (ht_lookup ?t)(node_off s p \<mapsto> slot m)" "ht_distinct t" "ht_no_tomb t" "ht_counted t"
    using ht.put_law [OF wf(1) put] hash_put_no_tomb [OF wf(1,2,4) put] hash_put_counted [OF ht_wf_shape [OF wf(1)] wf(3) put] by auto
  have cap: "capacity t = capacity ?t" using put by (rule hash_put_Ret) simp
  have old: "lo \<noteq> slot m" if "ht_lookup ?t off = Some lo" for off lo
    using that ao m n last_copy_slot [of "lg_disk s" m off lo] by (auto simp: area_ok_def)
  have "clean_ok ?s"
    unfolding clean_ok_def
  proof (intro ballI impI)
    fix q assume q: "q \<in> set (lg_nodes ?s)" "\<not> blk_dirty (lg_node ?s q)"
    show "\<exists>lo. ht_lookup (lg_disk_map ?s) (node_off ?s q) = Some lo \<and> same_block (lg_disk ?s lo) (lg_node ?s q)"
    proof (cases "q = p")
      case True
      then show ?thesis by (simp add: t(2)) (simp add: put_log_def)
    next
      case False
      have ne: "node_off s q \<noteq> node_off s p" using False q(1) p no by (auto simp: nodes_ok_def distinct_map dest: inj_onD)
      obtain lo where lo: "ht_lookup ?t (node_off s q) = Some lo" "same_block (lg_disk s lo) (lg_node s q)"
        using co q False by (auto simp: clean_ok_def)
      show ?thesis using lo ne old [OF lo(1)] False by (auto simp: t(2)) (simp add: put_log_def)
    qed
  qed
  moreover have "nodes_ok ?s" using no cap by (simp add: nodes_ok_def probes_total_def)
  moreover have "log_geom ?s" "map_ok ?s" using g mo t cap by (simp_all add: log_geom_def map_ok_def)
  ultimately show "log_ok_at ?s (Suc m)" using put_log_area [OF ok p m t(2)] by (simp add: log_ok_at_def)
  have "same_block (log_view ?s off) (log_view s off)" if h: "home s off" for off
  proof (cases "log_mem s off")
    case None
    then have "off \<noteq> node_off s p" using log_mem_node [OF no p] by auto
    moreover have "off \<noteq> slot m" using home_not_slot [OF g h m] .
    ultimately show ?thesis using None old [of off] by (auto simp: log_view_def t(2) split: option.split)
  qed (simp add: log_view_def)
  moreover have "lg_disk ?s off = lg_disk s off" if "home s off" for off using home_not_slot [OF g that m] by simp
  ultimately show "log_frame s ?s" by (simp add: log_frame_def del: put_log_simps(10)) (simp add: put_log_def)
qed

text \<open>The entry finds a place: there are fewer entries than blocks.\<close>

lemma map_card:
  assumes "map_ok s" "area_ok s m"
  shows "ht_size (lg_disk_map s) \<le> int m"
proof -
  let ?t = "lg_disk_map s" and ?S = "{i. i < capacity (lg_disk_map s) \<and> live (slot_key (lg_disk_map s) i)}"
  have wf: "ht_wf ?t" "ht_distinct ?t" "ht_counted ?t" using assms(1) by (simp_all add: map_ok_def)
  have "slot_key ?t ` ?S \<subseteq> (\<lambda>k. blk_offset (lg_disk s (slot k))) ` {..<m}"
  proof
    fix x assume "x \<in> slot_key ?t ` ?S"
    then have "ht_lookup ?t x \<noteq> None" using ht_lookup_None_iff [OF wf(1), of x] by auto
    then obtain lo where "ht_lookup ?t x = Some lo" by blast
    then have "last_copy (lg_disk s) m x lo" using assms(2) by (simp add: area_ok_def)
    then show "x \<in> (\<lambda>k. blk_offset (lg_disk s (slot k))) ` {..<m}" by (auto simp: last_copy_def)
  qed
  then have "card (slot_key ?t ` ?S) \<le> card ((\<lambda>k. blk_offset (lg_disk s (slot k))) ` {..<m})" by (intro card_mono) simp_all
  also have "\<dots> \<le> m" using card_image_le [of "{..<m}" "\<lambda>k. blk_offset (lg_disk s (slot k))"] by simp
  finally have "card (slot_key ?t ` ?S) \<le> m" .
  moreover have "card (slot_key ?t ` ?S) = card ?S"
    using wf(2) by (intro card_image) (auto simp: inj_on_def ht_distinct_def)
  ultimately show ?thesis using wf(3) by (simp add: ht_counted_def)
qed

lemma hash_put_log:
  assumes "log_ok_at s m" "p \<in> set (lg_nodes s)" "m < unat (lg_npages s)"
  shows "\<exists>t. hash_put (node_off s p) v (lg_disk_map s) = (Ret (), t)"
proof -
  have "m < capacity (lg_disk_map s)" "ht_size (lg_disk_map s) \<le> int m"
    using assms map_card [of s m] by (simp_all add: log_ok_at_def map_ok_def)
  then have "ht_size (lg_disk_map s) < int (capacity (lg_disk_map s))" by linarith
  then show ?thesis
    using assms by (intro hash_put_succeeds) (auto simp: log_ok_at_def map_ok_def nodes_ok_def home_def)
qed

lemma disk_write_run: "\<forall>i. lg_io s i \<Longrightarrow> disk_write p off s = (Ret (), s\<lparr> lg_disk := (lg_disk s)(off := lg_node s p), lg_ios := lg_ios s + 1 \<rparr>)"
  by (simp add: disk_write_def log_io_def kbind_def)

text \<open>One dirty node.\<close>

lemma write_to_log_step:
  assumes ok: "log_ok_at s m" and p: "p \<in> set (lg_nodes s)" and m: "m < unat (lg_npages s)" and d: "blk_dirty (lg_node s p)"
    and off: "off + n * PGSIZE = slot m"
  shows "\<exists>t. hash_put (node_off s p) (slot m) (lg_disk_map s) = (Ret (), t) \<and>
    log_write_nodes (p # ps) off n s = log_write_nodes ps off (n + 1) (put_log p m t s)"
proof -
  have g: "log_geom s" using ok by (simp add: log_ok_at_def)
  have io: "\<forall>i. lg_io s i" using g by (simp add: log_geom_def)
  obtain t where t: "hash_put (node_off s p) (slot m) (lg_disk_map s) = (Ret (), t)" using hash_put_log [OF ok p m] by blast
  have "slot m < slot (unat (lg_npages s))" using slot_less m g by (simp add: log_geom_def)
  then have "slot m < lg_npages s * PGSIZE + lg_byteoff s" using log_geom_end(1) [OF g] by (simp add: add.commute)
  then show ?thesis
    using t d off disk_write_run [OF io, of p "slot m"]
    by (auto simp: kbind_get kthen_case ktry_def log_map_def kret_def put_log_def cong: if_cong)
qed

lemma log_write_nodes_spec:
  assumes "log_ok_at s m" "set ps \<subseteq> set (lg_nodes s)" "distinct ps" "m + length ps < unat (lg_npages s)" "off + n * PGSIZE = slot m"
  shows "\<exists>s' c. log_write_nodes ps off n s = (Ret (n + of_nat c), s') \<and> c \<le> length ps \<and> log_ok_at s' (m + c) \<and> log_frame s s' \<and>
    (\<forall>q. blk_dirty (lg_node s' q) = (q \<notin> set ps \<and> blk_dirty (lg_node s q)))"
  using assms
proof (induction ps arbitrary: s m n)
  case Nil
  then show ?case by (auto simp: kret_def log_frame_refl intro!: exI [of _ 0])
next
  case (Cons p ps)
  show ?case
  proof (cases "blk_dirty (lg_node s p)")
    case False
    then show ?thesis using Cons.IH [of s m n] Cons.prems by (auto simp: kbind_get) (metis le_SucI)
  next
    case True
    have p: "p \<in> set (lg_nodes s)" and m: "m < unat (lg_npages s)" using Cons.prems by auto
    obtain t where t: "hash_put (node_off s p) (slot m) (lg_disk_map s) = (Ret (), t)"
      "log_write_nodes (p # ps) off n s = log_write_nodes ps off (n + 1) (put_log p m t s)"
      using write_to_log_step [OF Cons.prems(1) p m True Cons.prems(5)] by blast
    let ?s = "put_log p m t s"
    note ok = put_log_ok [OF Cons.prems(1) p m t(1)]
    have "off + (n + 1) * PGSIZE = slot (Suc m)"
      using Cons.prems(5) slot_next [of m] by (simp add: distrib_right add.assoc [symmetric])
    then obtain s' c where "log_write_nodes ps off (n + 1) ?s = (Ret (n + 1 + of_nat c), s')" "c \<le> length ps" "log_ok_at s' (Suc m + c)"
      "log_frame ?s s'" "\<forall>q. blk_dirty (lg_node s' q) = (q \<notin> set ps \<and> blk_dirty (lg_node ?s q))"
      using Cons.IH [OF ok(1), of "n + 1"] Cons.prems by auto
    then show ?thesis using t(2) log_frame_trans [OF ok(2)] by (auto intro!: exI [of _ "Suc c"] simp: add.assoc)
  qed
qed

lemma log_view_cong:
  "lg_nodes s = lg_nodes t \<Longrightarrow> lg_node s = lg_node t \<Longrightarrow> lg_disk s = lg_disk t \<Longrightarrow> lg_disk_map s = lg_disk_map t \<Longrightarrow> log_view s = log_view t"
  by (rule ext) (simp add: log_view_def log_mem_def split: option.split)

lemma on_disk_upd [simp]:
  "log_view (s\<lparr> lg_on_disk := x \<rparr>) = log_view s"
  "home (s\<lparr> lg_on_disk := x \<rparr>) = home s" "log_ok_at (s\<lparr> lg_on_disk := x \<rparr>) m = log_ok_at s m"
proof -
  show "log_view (s\<lparr> lg_on_disk := x \<rparr>) = log_view s" by (rule log_view_cong) simp_all
  show h: "home (s\<lparr> lg_on_disk := x \<rparr>) = home s" by (simp add: fun_eq_iff home_def)
  show "log_ok_at (s\<lparr> lg_on_disk := x \<rparr>) m = log_ok_at s m"
  proof -
    let ?s = "s\<lparr> lg_on_disk := x \<rparr>"
    have "log_geom ?s = log_geom s" "map_ok ?s = map_ok s" by (simp_all add: log_geom_def map_ok_def)
    moreover have "nodes_ok ?s = nodes_ok s" by (simp add: nodes_ok_def h)
    moreover have "area_ok ?s m = area_ok s m" by (simp add: area_ok_def h)
    moreover have "clean_ok ?s = clean_ok s" by (simp add: clean_ok_def)
    ultimately show ?thesis by (simp only: log_ok_at_def)
  qed
qed

definition log_room :: "the_log \<Rightarrow> bool" where
  "log_room s \<longleftrightarrow> length (lg_nodes s) + unat (lg_on_disk s) + 1 < unat (lg_npages s)"

lemma unat_small: "k \<le> MAX_LOG_PAGES \<Longrightarrow> unat (of_nat k :: u64) = k"
  by (simp add: unat_of_nat MAX_LOG_PAGES_def)

lemma log_flush_spec:
  assumes "log_ok s" "log_room s"
  shows "\<exists>s'. log_flush s = (Ret (lg_on_disk s'), s') \<and> log_ok s' \<and> (\<forall>p\<in>set (lg_nodes s'). \<not> blk_dirty (lg_node s' p)) \<and>
    log_frame s (s'\<lparr> lg_on_disk := lg_on_disk s \<rparr>)"
proof -
  let ?m = "unat (lg_on_disk s)" and ?off = "lg_byteoff s + lg_on_disk s * PGSIZE" and ?l = "length (lg_nodes s)"
  have ok: "log_ok_at s ?m" using assms(1) by (simp add: log_ok_def)
  have g: "log_geom s" and in_mem: "lg_in_mem s = of_nat ?l" and d: "distinct (lg_nodes s)" and n: "unat (lg_npages s) \<le> MAX_LOG_PAGES"
    using ok by (simp_all add: log_ok_at_def nodes_ok_def log_geom_def)
  have off: "?off + 0 * PGSIZE = slot ?m" using g by (simp add: log_geom_def slot_def)
  have room: "?m + ?l < unat (lg_npages s)" using assms(2) by (simp add: log_room_def)
  obtain s1 c where s1: "log_write_nodes (lg_nodes s) ?off 0 s = (Ret (0 + of_nat c), s1)" "c \<le> ?l" "log_ok_at s1 (?m + c)" "log_frame s s1"
    "\<forall>q. blk_dirty (lg_node s1 q) = (q \<notin> set (lg_nodes s) \<and> blk_dirty (lg_node s q))"
    using log_write_nodes_spec [OF ok order_refl d room off] by blast
  have u: "unat (of_nat c :: u64) = c" "unat (of_nat ?l :: u64) = ?l" using s1(2) room n by (simp_all add: unat_small)
  have sum: "unat (lg_on_disk s + of_nat c) = ?m + c"
    using s1(2) room n u(1) by (subst unat_add_lem [THEN iffD1]) (simp_all add: MAX_LOG_PAGES_def)
  have "unat (of_nat ?l + lg_on_disk s + 1) = ?l + ?m + 1"
    using room n u(2) by (simp add: unat_word_ariths MAX_LOG_PAGES_def)
  then have big: "\<not> lg_npages s \<le> of_nat ?l + lg_on_disk s + 1" using assms(2) by (simp add: word_le_nat_alt log_room_def)
  have "lg_byteoff s \<le> ?off" using g room n off unat_slot [of ?m] unat_slot [of 0] by (simp add: log_geom_def slot_def word_le_nat_alt)
  then have w: "log_write_to_log (lg_nodes s) ?off s = (Ret (0 + of_nat c), s1)"
    using s1(1) by (simp add: log_write_to_log_def kbind_get)
  let ?s = "s1\<lparr> lg_on_disk := lg_on_disk s1 + of_nat c \<rparr>"
  have f: "lg_on_disk s1 = lg_on_disk s" "lg_nodes s1 = lg_nodes s" using s1(4) by (simp_all add: log_frame_def)
  have "log_flush s = (Ret (lg_on_disk ?s), ?s)"
    using w s1(2) big u in_mem by (simp add: log_flush_def kbind_get kbind_def [of "log_write_to_log _ _"] kthen_case word_le_nat_alt cong: if_cong)
  moreover have "log_ok ?s" using s1(3) sum f by (simp add: log_ok_def)
  moreover have "log_frame s (?s\<lparr> lg_on_disk := lg_on_disk s \<rparr>)" using s1(4) f by (simp add: log_frame_def)
  ultimately show ?thesis using s1(5) f by auto
qed

end
