(* ===== verification/Recovery.thy ===== *)
theory Recovery
  imports Logview
begin

text \<open>
  What the log of \<^verbatim>\<open>src/kern/kern/log.c\<close> is for: replaying the log area after a crash gives back the blocks as they were at the last flush, applying the
  log from memory gives the same blocks, and a block that was written is read back. All of this is for logs in which no block of the log
  area was freed since the log was applied last: the invariant \<open>log_ok\<close> demands an entry of the map for every block of the area and a map without deleted slots.
\<close>

subsection \<open>Reading and writing lists of blocks\<close>

definition put_blocks :: "btree_block list \<Rightarrow> (u64 \<Rightarrow> btree_block) \<Rightarrow> (u64 \<Rightarrow> btree_block)" where
  "put_blocks bs d = fold (\<lambda>b d. d(blk_offset b := b)) bs d"

lemma put_blocks_simps [simp]: "put_blocks [] d = d" "put_blocks (b # bs) d = put_blocks bs (d(blk_offset b := b))"
  "put_blocks (xs @ ys) d = put_blocks ys (put_blocks xs d)"
  by (simp_all add: put_blocks_def)

lemma put_blocks_find: "put_blocks bs d off = (case find (\<lambda>b. blk_offset b = off) (rev bs) of Some b \<Rightarrow> b | None \<Rightarrow> d off)"
  by (induction bs rule: rev_induct) (simp_all add: put_blocks_def)

lemma put_blocks_other: "\<forall>b\<in>set bs. blk_offset b \<noteq> off \<Longrightarrow> put_blocks bs d off = d off"
  by (induction bs arbitrary: d) auto

definition area :: "(u64 \<Rightarrow> btree_block) \<Rightarrow> nat \<Rightarrow> nat \<Rightarrow> btree_block list" where
  "area d k n = map (\<lambda>j. d (slot j)) [k..<k + n]"

lemma area_split: "n \<le> m \<Longrightarrow> area d k m = area d k n @ area d (k + n) (m - n)"
  using upt_add_eq_append [of k "k + n" "m - n"] by (simp add: area_def)

text \<open>The last copy of a block in the area wins.\<close>

lemma put_area_last:
  assumes "last_copy d m off lo"
  shows "put_blocks (area d 0 m) d off = d lo"
proof -
  obtain k where k: "k < m" "lo = slot k" "blk_offset (d lo) = off" "\<forall>j. k < j \<longrightarrow> j < m \<longrightarrow> blk_offset (d (slot j)) \<noteq> off"
    using assms by (auto simp: last_copy_def)
  have "[0..<m] = [0..<k] @ k # [Suc k..<m]" 
    using upt_add_eq_append [of 0 k "m - k"] upt_conv_Cons [of k m] k(1) by simp
  then have "area d 0 m = map (\<lambda>j. d (slot j)) [0..<k] @ d lo # map (\<lambda>j. d (slot j)) [Suc k..<m]" by (simp add: area_def k(2))
  then show ?thesis using k(3,4) by (simp add: put_blocks_other)
qed

definition put_homes :: "ptr list \<Rightarrow> the_log \<Rightarrow> (u64 \<Rightarrow> btree_block)" where
  "put_homes ps s = put_blocks (map (lg_node s) ps) (lg_disk s)"

lemma log_write_to_disk_run:
  assumes "log_geom s" "\<forall>p\<in>set ps. home s (node_off s p)"
  shows "log_write_to_disk ps n s = (Ret (n + of_nat (length ps)), s\<lparr> lg_disk := put_homes ps s, lg_ios := lg_ios s + length ps \<rparr>)"
  using assms
proof (induction ps arbitrary: s n)
  case Nil
  then show ?case by (simp add: kret_def put_homes_def)
next
  case (Cons p ps)
  let ?s = "s\<lparr> lg_disk := (lg_disk s)(node_off s p := lg_node s p), lg_ios := lg_ios s + 1 \<rparr>"
  have io: "\<forall>i. lg_io s i" and h: "home s (node_off s p)" using Cons.prems by (simp_all add: log_geom_def)
  have g: "log_geom ?s" "\<forall>p\<in>set ps. home ?s (node_off ?s p)" using Cons.prems by (simp_all add: log_geom_def home_def)
  show ?case
    using h Cons.IH [OF g, of "n + 1"] disk_write_run [OF io, of p "node_off s p"]
    by (auto simp: kbind_get kthen_case home_def put_homes_def)
qed

lemma log_free_list_run:
  "log_free_list ps n s = (Ret (n + of_nat (length ps)), s\<lparr> lg_free_nodes := rev ps @ lg_free_nodes s \<rparr>)"
  by (induction ps arbitrary: n s) (simp_all add: kret_def kthen_case)

lemma log_free_nodes_run:
  "log_free_nodes s = (Ret (of_nat (length (lg_nodes s))), s\<lparr> lg_nodes := [], lg_free_nodes := rev (lg_nodes s) @ lg_free_nodes s \<rparr>)"
  by (simp add: log_free_nodes_def kbind_get kthen_case log_free_list_run)

lemma disk_read_run:
  "\<forall>i. lg_io s i \<Longrightarrow> disk_read p off s = (Ret (), s\<lparr> lg_node := (lg_node s)(p := lg_disk s off), lg_ios := lg_ios s + 1 \<rparr>)"
  by (simp add: disk_read_def log_io_def kbind_def)

lemma log_read_log_run:
  assumes "\<forall>i. lg_io s i" "distinct (fr @ rest)" "lg_free_nodes s = fr @ rest"
  shows "\<exists>nd i. log_read_log (length fr) (slot k) ps s = (Ret (True, ps @ fr), s\<lparr> lg_free_nodes := rest, lg_node := nd, lg_ios := i \<rparr>) \<and>
    (\<forall>j<length fr. nd (fr ! j) = lg_disk s (slot (k + j))) \<and> (\<forall>p. p \<notin> set fr \<longrightarrow> nd p = lg_node s p)"
  using assms
proof (induction fr arbitrary: s k ps)
  case Nil
  then show ?case by (auto simp: kret_def intro!: exI [of _ "lg_node s"] exI [of _ "lg_ios s"])
next
  case (Cons p fr)
  let ?s = "s\<lparr> lg_free_nodes := fr @ rest, lg_node := (lg_node s)(p := lg_disk s (slot k)), lg_ios := lg_ios s + 1 \<rparr>"
  have f: "\<forall>i. lg_io ?s i" "distinct (fr @ rest)" "lg_free_nodes ?s = fr @ rest" "p \<notin> set fr" using Cons.prems by simp_all
  obtain nd i where nd: "log_read_log (length fr) (slot (Suc k)) (ps @ [p]) ?s =
      (Ret (True, (ps @ [p]) @ fr), ?s\<lparr> lg_free_nodes := rest, lg_node := nd, lg_ios := i \<rparr>)"
    "\<forall>j<length fr. nd (fr ! j) = lg_disk ?s (slot (Suc k + j))" "\<forall>q. q \<notin> set fr \<longrightarrow> nd q = lg_node ?s q"
    using Cons.IH [OF f(1-3), of "Suc k" "ps @ [p]"] by blast
  have "log_read_log (length (p # fr)) (slot k) ps s = (Ret (True, ps @ p # fr), s\<lparr> lg_free_nodes := rest, lg_node := nd, lg_ios := i \<rparr>)"
    using nd(1) Cons.prems(3) disk_read_run [of "s\<lparr> lg_free_nodes := fr @ rest \<rparr>" p "slot k"] Cons.prems(1)
    by (simp add: take_free_node_def kbind_get kbind_def kthen_case ktry_def kret_def slot_next)
  moreover have "nd ((p # fr) ! j) = lg_disk s (slot (k + j))" if "j < length (p # fr)" for j
    using that nd(2,3) f(4) by (cases j) simp_all
  ultimately show ?case using nd(3) by (intro exI [of _ nd] exI [of _ i]) auto
qed

subsection \<open>Initialization\<close>

text \<open>A log whose pages were allocated by an earlier \<open>log_init\<close>.\<close>

definition ready :: "the_log \<Rightarrow> bool" where
  "ready s \<longleftrightarrow> lg_tailq_inited s \<and> unat (lg_npages s) \<le> MAX_LOG_PAGES \<and> (\<forall>i\<le>unat (lg_npages s) div 256. lg_map_back s ! i \<noteq> 0)"

definition init_state :: "the_log \<Rightarrow> the_log" where
  "init_state s = s\<lparr> lg_nodes := [], lg_free_nodes := rev (lg_nodes s) @ lg_free_nodes s,
     lg_disk_map := hash_init2 (lg_disk_map s) (replicate (MAX_LOG_PAGES div 256 + 1) (replicate 256 hashentry0)) (unat (lg_npages s)) 4096,
     lg_in_mem := 0, lg_on_disk := 0, lg_byteoff := LOG_OFFSET * PGSIZE, lg_max_mem := of_nat LOG_MEMORY, lg_must_apply := False \<rparr>"

lemma log_init_run:
  assumes "ready s"
  shows "log_init (lg_npages s) s = (Ret (), init_state s)"
proof -
  have "log_init_map i s = (Ret (), s)" if "i < unat (lg_npages s) div 256 + 1" for i
    using that assms div_le_mono [of "unat (lg_npages s)" MAX_LOG_PAGES 256]
    by (auto simp: log_init_map_def ready_def kbind_get kret_def kwhen_def less_Suc_eq_le)
  then have "kfor log_init_map is s = (Ret (), s)" if "set is \<subseteq> {..<unat (lg_npages s) div 256 + 1}" for "is"
    using that by (induction "is") (auto simp: kret_def kthen_case)
  then show ?thesis
    using assms by (simp add: log_init_def ready_def log_free_nodes_run kbind_get kthen_case kbind_def kret_def init_state_def lessThan_atLeast0 del: upt_Suc)
qed

lemma init_state_simps [simp]:
  "lg_disk (init_state s) = lg_disk s" "lg_npages (init_state s) = lg_npages s" "lg_io (init_state s) = lg_io s"
  "lg_byteoff (init_state s) = slot 0" "lg_free_nodes (init_state s) = rev (lg_nodes s) @ lg_free_nodes s" "lg_nodes (init_state s) = []"
  "lg_map_back (init_state s) = lg_map_back s" "lg_max_mem (init_state s) = of_nat LOG_MEMORY" "ready (init_state s) = ready s"
  by (simp_all add: init_state_def slot_def ready_def)

lemma init_state_map:
  assumes "unat (lg_npages s) \<le> MAX_LOG_PAGES"
  shows "map_ok (init_state s)" "ht_lookup (lg_disk_map (init_state s)) = Map.empty" "log_view (init_state s) = lg_disk s"
proof -
  have b: "unat (lg_npages s) \<le> 256 * (MAX_LOG_PAGES div 256 + 1)" "unat (lg_npages s) < 2 ^ 31" using assms by (simp_all add: MAX_LOG_PAGES_def)
  note w = hash_init2_wf [OF b, of "lg_disk_map s"]
  show "map_ok (init_state s)" using w by (simp add: map_ok_def init_state_def)
  show l: "ht_lookup (lg_disk_map (init_state s)) = Map.empty" using w by (simp add: init_state_def)
  show "log_view (init_state s) = lg_disk s" by (rule ext) (simp add: log_view_def log_mem_def l)
qed

subsection \<open>Replaying the log area\<close>

text \<open>What a round of the replay keeps; the list of free buffers is permuted.\<close>

definition replay_frame :: "the_log \<Rightarrow> the_log \<Rightarrow> bool" where
  "replay_frame s s' \<longleftrightarrow> lg_byteoff s' = lg_byteoff s \<and> lg_npages s' = lg_npages s \<and> lg_max_mem s' = lg_max_mem s \<and> lg_in_mem s' = lg_in_mem s \<and>
     lg_nodes s' = lg_nodes s \<and> lg_io s' = lg_io s \<and> ready s' = ready s \<and> distinct (lg_free_nodes s') \<and>
     set (lg_free_nodes s') = set (lg_free_nodes s)"

lemma replay_frame_trans: "replay_frame s t \<Longrightarrow> replay_frame t u \<Longrightarrow> replay_frame s u"
  by (simp add: replay_frame_def)

lemma replay_round:
  assumes g: "log_geom s" and d: "distinct (lg_free_nodes s)" and n: "unat c \<le> length (lg_free_nodes s)"
    and h: "\<forall>b\<in>set (area (lg_disk s) k (unat c)). home s (blk_offset b)"
  shows "\<exists>s'. log_apply_round c (slot k) s = (Ret (), s') \<and> lg_disk s' = put_blocks (area (lg_disk s) k (unat c)) (lg_disk s) \<and> replay_frame s s'"
proof -
  define n where "n = unat c"
  let ?fr = "take n (lg_free_nodes s)" and ?rest = "drop n (lg_free_nodes s)"
  have io: "\<forall>i. lg_io s i" using g by (simp add: log_geom_def)
  have len: "length ?fr = n" using n by (simp add: n_def)
  obtain nd i where nd: "log_read_log n (slot k) [] s = (Ret (True, ?fr), s\<lparr> lg_free_nodes := ?rest, lg_node := nd, lg_ios := i \<rparr>)"
    "\<forall>j<n. nd (?fr ! j) = lg_disk s (slot (k + j))"
    using log_read_log_run [OF io, of ?fr ?rest k "[]"] d len by auto
  let ?s = "s\<lparr> lg_free_nodes := ?rest, lg_node := nd, lg_ios := i \<rparr>"
  have blocks: "map nd ?fr = area (lg_disk s) k n"
    using nd(2) len by (intro nth_equalityI) (simp_all add: area_def)
  have gs: "log_geom ?s" using g by (simp add: log_geom_def)
  have "\<forall>p\<in>set ?fr. home s (blk_offset (nd p))" using h unfolding n_def [symmetric] blocks [symmetric] by simp
  then have "\<forall>p\<in>set ?fr. home ?s (node_off ?s p)" by (simp add: home_def)
  note w = log_write_to_disk_run [OF gs this, of 0]
  have ph: "put_homes ?fr ?s = put_blocks (area (lg_disk s) k n) (lg_disk s)" by (simp add: put_homes_def blocks)
  let ?s' = "?s\<lparr> lg_disk := put_homes ?fr ?s, lg_ios := i + n, lg_free_nodes := rev ?fr @ ?rest \<rparr>"
  have "log_apply_round c (slot k) s = (Ret (), ?s')"
    using nd(1) w len by (simp add: log_apply_round_def n_def kbind_def ktry_def kthen_case log_free_list_run kret_def)
  moreover have "set (rev ?fr @ ?rest) = set (lg_free_nodes s)" "distinct (rev ?fr @ ?rest)"
    using d set_take_disj_set_drop_if_distinct [OF d, of n n] append_take_drop_id [of n "lg_free_nodes s"]
    by (metis set_append set_rev, simp)
  then have "replay_frame s ?s'" by (simp add: replay_frame_def ready_def)
  ultimately show ?thesis using ph by (auto simp: n_def)
qed

lemma area_put_homes:
  assumes "log_geom s" "\<forall>b\<in>set bs. home s (blk_offset b)" "k + n \<le> unat (lg_npages s)"
  shows "area (put_blocks bs d) k n = area d k n"
  using assms home_not_slot [OF assms(1)] by (auto simp: area_def intro!: put_blocks_other)

lemma log_apply_rounds_run:
  assumes "log_geom s" "distinct (lg_free_nodes s)" "length (lg_free_nodes s) = LOG_MEMORY"
    "k + unat n \<le> unat (lg_npages s)" "\<forall>b\<in>set (area (lg_disk s) k (unat n)). home s (blk_offset b)" "unat n \<le> fuel"
  shows "\<exists>s'. log_apply_rounds fuel n (slot k) s = (Ret (), s') \<and> lg_disk s' = put_blocks (area (lg_disk s) k (unat n)) (lg_disk s) \<and> replay_frame s s'"
  using assms
proof (induction fuel arbitrary: s k n)
  case 0
  then have "n = 0" by (simp add: unat_eq_zero)
  then show ?case using 0 by (simp add: log_apply_rounds.simps kret_def area_def replay_frame_def)
next
  case (Suc fuel)
  show ?case
  proof (cases "n = 0")
    case True
    then show ?thesis using Suc.prems by (simp add: log_apply_rounds.simps kret_def area_def replay_frame_def)
  next
    case False
    define c where "c = min n (lg_max_mem s)"
    have max_mem: "lg_max_mem s = of_nat LOG_MEMORY" "unat (of_nat LOG_MEMORY :: u64) = LOG_MEMORY"
      using Suc.prems(1) by (simp_all add: log_geom_def LOG_MEMORY_def)
    have c: "unat c \<le> LOG_MEMORY" "unat c \<le> unat n" "0 < unat c"
      using False max_mem unfolding c_def by (auto simp: min_def word_le_nat_alt unat_gt_0 LOG_MEMORY_def)
    have cn: "unat (n - c) = unat n - unat c" "slot k + c * PGSIZE = slot (k + unat c)"
      using c(2) slot_step [of k "unat c"] by (simp_all add: unat_sub word_le_nat_alt)
    have split: "area (lg_disk s) k (unat n) = area (lg_disk s) k (unat c) @ area (lg_disk s) (k + unat c) (unat n - unat c)"
      by (rule area_split [OF c(2)])
    have h1: "\<forall>b\<in>set (area (lg_disk s) k (unat c)). home s (blk_offset b)" using Suc.prems(5) unfolding split by simp
    obtain s1 where s1: "log_apply_round c (slot k) s = (Ret (), s1)" "lg_disk s1 = put_blocks (area (lg_disk s) k (unat c)) (lg_disk s)"
      "replay_frame s s1"
      using replay_round [OF Suc.prems(1,2) _ h1] Suc.prems(3) c(1) by auto
    have run: "log_apply_rounds (Suc fuel) n (slot k) s = log_apply_rounds fuel (n - c) (slot (k + unat c)) s1"
      using False s1(1) by (subst log_apply_rounds.simps) (simp add: kbind_get c_def [symmetric] kthen_case cn(2))
    have area1: "area (lg_disk s1) (k + unat c) (unat (n - c)) = area (lg_disk s) (k + unat c) (unat n - unat c)"
      unfolding s1(2) cn(1) using Suc.prems(1,4) h1 c(2) by (intro area_put_homes) auto
    have home1: "home s1 = home s" using s1(3) by (simp add: fun_eq_iff home_def replay_frame_def)
    have "length (lg_free_nodes s1) = LOG_MEMORY" using s1(3) Suc.prems(2,3) by (metis distinct_card replay_frame_def)
    moreover have "log_geom s1" "distinct (lg_free_nodes s1)" using s1(3) Suc.prems(1) by (simp_all add: log_geom_def replay_frame_def)
    moreover have "k + unat c + unat (n - c) \<le> unat (lg_npages s1)" "unat (n - c) \<le> fuel"
      using Suc.prems(4,6) c cn(1) s1(3) by (simp_all add: replay_frame_def)
    moreover have "\<forall>b\<in>set (area (lg_disk s1) (k + unat c) (unat (n - c))). home s1 (blk_offset b)"
      using Suc.prems(5) unfolding area1 home1 split by simp
    ultimately obtain s' where s': "log_apply_rounds fuel (n - c) (slot (k + unat c)) s1 = (Ret (), s')"
      "lg_disk s' = put_blocks (area (lg_disk s1) (k + unat c) (unat (n - c))) (lg_disk s1)" "replay_frame s1 s'"
      using Suc.IH [of s1 "k + unat c" "n - c"] by blast
    have "lg_disk s' = put_blocks (area (lg_disk s) k (unat n)) (lg_disk s)" using s'(2) [unfolded area1] unfolding split by (simp add: s1(2))
    then show ?thesis using run s'(1) replay_frame_trans [OF s1(3) s'(3)] by auto
  qed
qed

lemma log_apply_disk_run:
  assumes "ready s" "lg_byteoff s = slot 0" "\<forall>i. lg_io s i" "distinct (lg_nodes s @ lg_free_nodes s)" "length (lg_nodes s @ lg_free_nodes s) = LOG_MEMORY"
    "unat n \<le> unat (lg_npages s)" "\<forall>b\<in>set (area (lg_disk s) 0 (unat n)). home s (blk_offset b)"
  shows "\<exists>s'. log_apply_disk n s = (Ret (), s') \<and> log_view s' = put_blocks (area (lg_disk s) 0 (unat n)) (lg_disk s) \<and>
    lg_disk s' = log_view s' \<and> lg_nodes s' = [] \<and> lg_on_disk s' = 0"
proof -
  let ?s = "init_state s"
  have np: "unat (lg_npages s) \<le> MAX_LOG_PAGES" using assms(1) by (simp add: ready_def)
  have g: "log_geom ?s" using assms(3) np by (simp add: log_geom_def slot_def)
  have home: "home ?s = home s" using assms(2) by (simp add: fun_eq_iff home_def)
  obtain s1 where s1: "log_apply_rounds (unat n) n (slot 0) ?s = (Ret (), s1)" "lg_disk s1 = put_blocks (area (lg_disk s) 0 (unat n)) (lg_disk s)"
    "replay_frame ?s s1"
    using log_apply_rounds_run [OF g, of 0 n "unat n"] assms(4-7) home by auto
  have r: "ready s1" "lg_npages s1 = lg_npages s" using s1(3) assms(1) by (simp_all add: replay_frame_def)
  have "log_apply_disk n s = (Ret (), init_state s1)"
    using log_init_run [OF assms(1)] log_init_run [OF r(1)] s1(1) r(2) assms(2) by (simp add: log_apply_disk_def kbind_get kthen_case)
  then show ?thesis using init_state_map(3) [of s1] np s1(2) r(2) by (simp add: init_state_def)
qed

text \<open>What replaying gives for a flushed log.\<close>

lemma replay_view:
  assumes "log_ok s" "\<forall>p\<in>set (lg_nodes s). \<not> blk_dirty (lg_node s p)"
  shows "same_block (put_blocks (area (lg_disk s) 0 (unat (lg_on_disk s))) (lg_disk s) off) (log_view s off)"
proof -
  let ?m = "unat (lg_on_disk s)" and ?d = "lg_disk s"
  have ao: "area_ok s ?m" and co: "clean_ok s" using assms(1) by (simp_all add: log_ok_def log_ok_at_def)
  have found: "put_blocks (area ?d 0 ?m) ?d off = ?d lo" if "ht_lookup (lg_disk_map s) off = Some lo" for lo
    using ao that by (intro put_area_last) (auto simp: area_ok_def)
  show ?thesis
  proof (cases "log_mem s off")
    case (Some p)
    then show ?thesis
      using co assms(2) log_mem_Some [OF Some] found by (fastforce simp: clean_ok_def log_view_def)
  next
    case None
    show ?thesis
    proof (cases "ht_lookup (lg_disk_map s) off")
      case none: None
      have "blk_offset (?d (slot k)) \<noteq> off" if "k < ?m" for k using ao that none unfolding area_ok_def by metis
      then have "\<forall>b\<in>set (area ?d 0 ?m). blk_offset b \<noteq> off" by (auto simp: area_def)
      then show ?thesis using None none by (simp add: log_view_def put_blocks_other)
    next
      case (Some lo)
      then show ?thesis using None found by (simp add: log_view_def)
    qed
  qed
qed

lemma area_homes:
  assumes "log_ok s"
  shows "\<forall>b\<in>set (area (lg_disk s) 0 (unat (lg_on_disk s))). home s (blk_offset b)"
  using assms by (fastforce simp: log_ok_def log_ok_at_def area_ok_def area_def)

text \<open>C16: The log survives a crash. Flushing a log gives the number of blocks in the log area; if everything in memory is lost afterwards, then replaying
  that many blocks from the disk succeeds and leaves every home block on the disk as it was seen through the log before, and the log empty.
  The buffers and the map of the log after the crash are arbitrary but allocated, the disk requests succeed, and the log area has room. The log satisfies \<open>log_ok\<close>,
  which in particular says that no block of the log area was freed (\<^verbatim>\<open>log_free\<close>) since the log was applied last.\<close>

theorem log_recovery:
  assumes "log_ok s" "log_room s"
  shows "\<exists>s1. log_flush s = (Ret (lg_on_disk s1), s1) \<and>
    (\<forall>c. lg_disk c = lg_disk s1 \<longrightarrow> lg_npages c = lg_npages s \<longrightarrow> lg_byteoff c = LOG_OFFSET * PGSIZE \<longrightarrow> ready c \<longrightarrow> (\<forall>i. lg_io c i) \<longrightarrow>
       distinct (lg_nodes c @ lg_free_nodes c) \<longrightarrow> length (lg_nodes c @ lg_free_nodes c) = LOG_MEMORY \<longrightarrow>
       (\<exists>c'. log_apply_disk (lg_on_disk s1) c = (Ret (), c') \<and> lg_nodes c' = [] \<and> lg_on_disk c' = 0 \<and>
          (\<forall>off. home s off \<longrightarrow> same_block (lg_disk c' off) (log_view s off) \<and> same_block (log_view c' off) (log_view s off))))"
proof -
  obtain s1 where s1: "log_flush s = (Ret (lg_on_disk s1), s1)" "log_ok s1" "\<forall>p\<in>set (lg_nodes s1). \<not> blk_dirty (lg_node s1 p)"
    "log_frame s (s1\<lparr> lg_on_disk := lg_on_disk s \<rparr>)" using log_flush_spec [OF assms] by blast
  have f: "lg_npages s1 = lg_npages s" "lg_byteoff s1 = lg_byteoff s" and v: "\<And>off. home s off \<Longrightarrow> same_block (log_view s1 off) (log_view s off)"
    using s1(4) by (simp_all add: log_frame_def)
  have b: "lg_byteoff s1 = LOG_OFFSET * PGSIZE" "unat (lg_on_disk s1) \<le> unat (lg_npages s1)"
    using s1(2) by (simp_all add: log_ok_def log_ok_at_def log_geom_def area_ok_def)
  have "\<exists>c'. log_apply_disk (lg_on_disk s1) c = (Ret (), c') \<and> lg_nodes c' = [] \<and> lg_on_disk c' = 0 \<and>
        (\<forall>off. home s off \<longrightarrow> same_block (lg_disk c' off) (log_view s off) \<and> same_block (log_view c' off) (log_view s off))"
    if c: "lg_disk c = lg_disk s1" "lg_npages c = lg_npages s" "lg_byteoff c = LOG_OFFSET * PGSIZE" "ready c" "\<forall>i. lg_io c i"
      "distinct (lg_nodes c @ lg_free_nodes c)" "length (lg_nodes c @ lg_free_nodes c) = LOG_MEMORY" for c
  proof -
    have "home c = home s1" using c(2,3) b(1) f(1) by (simp add: fun_eq_iff home_def)
    then obtain c' where "log_apply_disk (lg_on_disk s1) c = (Ret (), c')" "lg_nodes c' = []" "lg_on_disk c' = 0"
      "log_view c' = put_blocks (area (lg_disk s1) 0 (unat (lg_on_disk s1))) (lg_disk s1)" "lg_disk c' = log_view c'"
      using log_apply_disk_run [of c "lg_on_disk s1"] area_homes [OF s1(2)] c b(2) f(1) by (auto simp: slot_def)
    then show ?thesis using replay_view [OF s1(2,3)] v same_block_trans by metis
  qed
  then show ?thesis using s1(1) by blast
qed

subsection \<open>Applying the log from memory\<close>

definition map_wf :: "hashtable \<Rightarrow> bool" where
  "map_wf t \<longleftrightarrow> ht_wf t \<and> ht_distinct t \<and> ht_counted t"

lemma map_wf_del:
  assumes "map_wf t" "hash_del k t = (r, t')"
  shows "map_wf t' \<and> ht_lookup t' = (ht_lookup t)(k := None) \<and> r \<noteq> Panic \<and> r \<noteq> NoFuel"
proof -
  have t: "ht_wf t" "ht_distinct t" "ht_counted t" using assms(1) by (simp_all add: map_wf_def)
  have "r \<noteq> Panic" "r \<noteq> NoFuel" using assms(2) by (cases rule: hash_del_cases; simp)+
  then show ?thesis
    using ht.del_single [OF t(1,2) assms(2)] ht.del_law [OF t(1) assms(2)] hash_del_counted [OF ht_wf_shape [OF t(1)] t(3) assms(2)]
    by (simp add: map_wf_def)
qed

lemma map_wf_size:
  assumes "map_wf t"
  shows "ht_size t = int (card (dom (ht_lookup t)))" "finite (dom (ht_lookup t))"
proof -
  let ?es = "hashiter_all t hashiter_init" and ?L = "filter (\<lambda>s. live (slot_key t s)) [0..<capacity t]"
  have es: "map_of ?es = ht_lookup t" "distinct (map fst ?es)" using hashiter_complete [of t] assms by (simp_all add: map_wf_def)
  have dom: "dom (ht_lookup t) = set (map fst ?es)" unfolding es(1) [symmetric] by (simp add: dom_map_of_conv_image_fst)
  then show "finite (dom (ht_lookup t))" by simp
  have "length ?es = length ?L" by (simp add: hashiter_all_slots hashiter_init_def)
  also have "\<dots> = card {s. s < capacity t \<and> live (slot_key t s)}" 
    unfolding length_filter_conv_card by (rule arg_cong [of _ _ card]) auto
  finally show "ht_size t = int (card (dom (ht_lookup t)))"
    using assms distinct_card [OF es(2)] by (simp add: dom map_wf_def ht_counted_def)
qed

lemma log_del_offsets_run:
  "map_wf (lg_disk_map s) \<Longrightarrow> \<exists>t. log_del_offsets ps s = (Ret (), s\<lparr> lg_disk_map := t \<rparr>) \<and> map_wf t \<and>
     ht_lookup t = ht_lookup (lg_disk_map s) |` (- node_off s ` set ps)"
proof (induction ps arbitrary: s)
  case Nil
  then show ?case by (auto simp: log_del_offsets_def kret_def intro!: exI [of _ "lg_disk_map s"])
next
  case (Cons p ps)
  obtain r t1 where del: "hash_del (node_off s p) (lg_disk_map s) = (r, t1)" by (cases "hash_del (node_off s p) (lg_disk_map s)")
  note t1 = map_wf_del [OF Cons.prems del]
  let ?s = "s\<lparr> lg_disk_map := t1 \<rparr>"
  have m: "map_wf (lg_disk_map ?s)" using t1 by simp
  obtain t where t: "log_del_offsets ps ?s = (Ret (), ?s\<lparr> lg_disk_map := t \<rparr>)" "map_wf t"
    "ht_lookup t = ht_lookup (lg_disk_map ?s) |` (- node_off ?s ` set ps)"
    using Cons.IH [OF m] by blast
  have "log_del_offsets (p # ps) s = log_del_offsets ps ?s"
    using t1 del by (cases r) (simp_all add: log_del_offsets_def kthen_case kbind_get ktry_def log_map_def kret_def)
  moreover have "ht_lookup t = ht_lookup (lg_disk_map s) |` (- node_off s ` set (p # ps))"
    using t(3) t1 by (auto simp: fun_eq_iff restrict_map_def)
  ultimately show ?case using t(1,2) by auto
qed

lemma unat_inc:
  fixes c m :: u64
  assumes "unat c < unat m"
  shows "unat (c + 1) = unat c + 1"
proof -
  have "unat m < 2 ^ 64" using unsigned_less [of m] by simp
  then have "unat c + 1 < 2 ^ 64" using assms by linarith
  then show ?thesis by (simp add: unat_word_ariths)
qed

lemma neq_Nil_surj:
  assumes "es \<noteq> []"
  obtains key off es' where "es = (key, off) # es'"
  using assms by (metis neq_Nil_conv surj_pair)

lemma length_pos_nil: "length (p # fr) \<le> length es \<Longrightarrow> es \<noteq> []"
  by auto

text \<open>The entries that a call of \<open>log_read_map\<close> reads, and the blocks it gets.\<close>

lemma log_read_map_run:
  assumes "\<forall>i. lg_io s i" "distinct (lg_free_nodes s)" "\<forall>(key, off)\<in>set es. blk_offset (lg_disk s off) = key"
    "unat count + length fr = unat mx \<or> unat count + length fr < unat mx \<and> length fr = length es"
    "length fr \<le> length es" "lg_free_nodes s = fr @ rest" "unat count < unat mx"
  shows "\<exists>nd i. log_read_map es mx count ns s = (Ret (count + of_nat (length fr), rev fr @ ns), s\<lparr> lg_free_nodes := rest, lg_node := nd, lg_ios := i \<rparr>) \<and>
    map nd fr = map (\<lambda>e. lg_disk s (snd e)) (take (length fr) es) \<and> (\<forall>p. p \<notin> set fr \<longrightarrow> nd p = lg_node s p)"
  using assms
proof (induction fr arbitrary: s es count ns)
  case Nil
  have es: "es = []" using Nil.prems(4,7) by simp
  show ?case using Nil.prems(6) by (intro exI [of _ "lg_node s"] exI [of _ "lg_ios s"]) (simp add: es kret_def)
next
  case (Cons p fr)
  obtain key off es' where es: "es = (key, off) # es'"
    by (rule neq_Nil_surj [OF length_pos_nil [OF Cons.prems(5)]])
  let ?s = "s\<lparr> lg_free_nodes := fr @ rest, lg_node := (lg_node s)(p := lg_disk s off), lg_ios := lg_ios s + 1 \<rparr>"
  have u: "unat (count + 1) = unat count + 1" by (rule unat_inc [OF Cons.prems(7)])
  have read: "log_read_map es mx count ns s =
     (if count + 1 \<ge> mx then (Ret (count + 1, p # ns), ?s) else log_read_map es' mx (count + 1) (p # ns) ?s)"
    using Cons.prems(1,3,6) disk_read_run [of "s\<lparr> lg_free_nodes := fr @ rest \<rparr>" p off]
    by (simp add: es take_free_node_def kbind_get kbind_def kthen_case kret_def)
  have p: "p \<notin> set fr" using Cons.prems(2,6) by simp
  show ?case
  proof (cases "count + 1 \<ge> mx")
    case True
    then have "unat mx \<le> unat count + 1" using u by (simp add: word_le_nat_alt)
    then have "length fr = 0" using Cons.prems(4) unfolding list.size by presburger
    then have "fr = []" by simp
    then show ?thesis using True read Cons.prems(6) by (intro exI [of _ "(lg_node s)(p := lg_disk s off)"] exI [of _ "lg_ios s + 1"]) (simp add: es fun_upd_def)
  next
    case False
    then have lt: "unat (count + 1) < unat mx" by (simp add: word_le_nat_alt)
    obtain nd i where nd: "log_read_map es' mx (count + 1) (p # ns) ?s =
        (Ret (count + 1 + of_nat (length fr), rev fr @ p # ns), ?s\<lparr> lg_free_nodes := rest, lg_node := nd, lg_ios := i \<rparr>)"
      "map nd fr = map (\<lambda>e. lg_disk ?s (snd e)) (take (length fr) es')" "\<forall>q. q \<notin> set fr \<longrightarrow> nd q = lg_node ?s q"
      using Cons.IH [of ?s es' "count + 1" "p # ns"] Cons.prems u lt by (auto simp: es)
    show ?thesis using False read nd p by (intro exI [of _ nd] exI [of _ i]) (auto simp: es add.assoc)
  qed
qed

text \<open>What holds between the rounds, and the blocks that the map stands for.\<close>

definition drain_ok :: "the_log \<Rightarrow> bool" where
  "drain_ok s \<longleftrightarrow> log_geom s \<and> ready s \<and> map_wf (lg_disk_map s) \<and> lg_nodes s = [] \<and> distinct (lg_free_nodes s) \<and> length (lg_free_nodes s) = LOG_MEMORY \<and>
     (\<forall>off lo. ht_lookup (lg_disk_map s) off = Some lo \<longrightarrow>
        home s off \<and> blk_offset (lg_disk s lo) = off \<and> (\<exists>k<unat (lg_npages s). lo = slot k))"

definition drained :: "the_log \<Rightarrow> u64 \<Rightarrow> btree_block" where
  "drained s off = lg_disk s (case ht_lookup (lg_disk_map s) off of Some lo \<Rightarrow> lo | None \<Rightarrow> off)"

lemma put_blocks_distinct:
  assumes "distinct (map blk_offset bs)" "b \<in> set bs"
  shows "put_blocks bs d (blk_offset b) = b"
proof -
  obtain xs ys where "bs = xs @ b # ys" using assms(2) by (meson split_list)
  moreover from this have "\<forall>c\<in>set ys. blk_offset c \<noteq> blk_offset b" using assms(1) by (auto simp: image_iff)
  ultimately show ?thesis by (simp add: put_blocks_other)
qed

text \<open>The state after a round that took the entries \<open>ks\<close>.\<close>

lemma drain_round_state:
  assumes ok: "drain_ok s" and ne: "ht_size (lg_disk_map s) \<noteq> 0"
  shows "\<exists>ks bs s1. log_drain_round s = (Ret (), s1) \<and> ks \<noteq> {} \<and> ks \<subseteq> dom (ht_lookup (lg_disk_map s)) \<and>
    lg_disk s1 = put_blocks bs (lg_disk s) \<and> distinct (map blk_offset bs) \<and> blk_offset ` set bs = ks \<and>
    (\<forall>b\<in>set bs. \<exists>lo. ht_lookup (lg_disk_map s) (blk_offset b) = Some lo \<and> b = lg_disk s lo) \<and>
    map_wf (lg_disk_map s1) \<and> ht_lookup (lg_disk_map s1) = ht_lookup (lg_disk_map s) |` (- ks) \<and> replay_frame s s1"
proof -
  let ?es = "hashiter_all (lg_disk_map s) hashiter_init" and ?mx = "of_nat LOG_MEMORY :: u64"
  define k where "k = min (length ?es) LOG_MEMORY"
  let ?fr = "take k (lg_free_nodes s)" and ?rest = "drop k (lg_free_nodes s)"
  have g: "log_geom s" and wf: "map_wf (lg_disk_map s)" and fl: "distinct (lg_free_nodes s)" "length (lg_free_nodes s) = LOG_MEMORY"
    using ok by (simp_all add: drain_ok_def)
  have mx: "lg_max_mem s = ?mx" "unat ?mx = LOG_MEMORY" and io: "\<forall>i. lg_io s i" using g by (simp_all add: log_geom_def LOG_MEMORY_def)
  have es: "map_of ?es = ht_lookup (lg_disk_map s)" "distinct (map fst ?es)" using hashiter_complete [of "lg_disk_map s"] wf by (simp_all add: map_wf_def)
  have ent: "ht_lookup (lg_disk_map s) key = Some lo" if "(key, lo) \<in> set ?es" for key lo using that es by (metis map_of_is_SomeI)
  have off: "\<forall>(key, lo)\<in>set ?es. blk_offset (lg_disk s lo) = key" using ok ent by (auto simp: drain_ok_def)
  have "dom (ht_lookup (lg_disk_map s)) \<noteq> {}" using ne map_wf_size [OF wf] by auto
  then have kpos: "0 < k" "length ?fr = k" "k \<le> length ?es" "k \<le> LOG_MEMORY"
    using es(1) fl(2) by (auto simp: k_def LOG_MEMORY_def)
  have c4: "unat (0 :: u64) + length ?fr = unat ?mx \<or> unat (0 :: u64) + length ?fr < unat ?mx \<and> length ?fr = length ?es"
    unfolding kpos(2) mx(2) by (auto simp: k_def min_def)
  have c5: "length ?fr \<le> length ?es" and c6: "lg_free_nodes s = ?fr @ ?rest" and c7: "unat (0 :: u64) < unat ?mx"
    using kpos unfolding mx(2) by (simp_all add: LOG_MEMORY_def)
  obtain nd i where nd: "log_read_map ?es ?mx 0 [] s = (Ret (of_nat k, rev ?fr), s\<lparr> lg_free_nodes := ?rest, lg_node := nd, lg_ios := i \<rparr>)"
    "map nd ?fr = map (\<lambda>e. lg_disk s (snd e)) (take k ?es)"
    using log_read_map_run [OF io fl(1) off c4 c5 c6 c7, of "[]"] unfolding kpos(2) by auto
  let ?s = "s\<lparr> lg_free_nodes := ?rest, lg_node := nd, lg_ios := i \<rparr>" and ?bs = "rev (map nd ?fr)" and ?ks = "fst ` set (take k ?es)"
  have tk: "ht_lookup (lg_disk_map s) key = Some lo \<and> blk_offset (lg_disk s lo) = key" if "(key, lo) \<in> set (take k ?es)" for key lo
    using in_set_takeD [OF that] off ent by auto
  have keys: "map blk_offset (map nd ?fr) = map fst (take k ?es)"
    unfolding nd(2) using tk by auto
  have bs: "blk_offset ` set ?bs = ?ks" "distinct (map blk_offset ?bs)"
    using keys es(2) by (metis image_set list.map_comp set_map set_rev, metis distinct_rev distinct_take keys rev_map take_map)
  have blk: "\<exists>lo. ht_lookup (lg_disk_map s) (blk_offset b) = Some lo \<and> b = lg_disk s lo" if "b \<in> set ?bs" for b
  proof -
    obtain key lo where "(key, lo) \<in> set (take k ?es)" "b = lg_disk s lo" using \<open>b \<in> set ?bs\<close> unfolding nd(2) by auto
    then show ?thesis using tk [of key lo] by auto
  qed
  have "home s (blk_offset b)" if "b \<in> set ?bs" for b using blk [OF that] ok unfolding drain_ok_def by blast
  then have homes: "\<forall>p\<in>set (rev ?fr). home ?s (node_off ?s p)" by (simp add: home_def)
  have gs: "log_geom ?s" using g by (simp add: log_geom_def)
  note w = log_write_to_disk_run [OF gs homes, of 0]
  let ?s2 = "?s\<lparr> lg_disk := put_homes (rev ?fr) ?s, lg_ios := i + k \<rparr>"
  obtain t where t: "log_del_offsets (rev ?fr) ?s2 = (Ret (), ?s2\<lparr> lg_disk_map := t \<rparr>)" "map_wf t"
    "ht_lookup t = ht_lookup (lg_disk_map s) |` (- node_off ?s2 ` set (rev ?fr))"
    using log_del_offsets_run [of ?s2 "rev ?fr"] wf by auto
  have ks: "node_off ?s2 ` set (rev ?fr) = ?ks" using bs(1) by (simp add: image_image)
  let ?s3 = "?s2\<lparr> lg_disk_map := t, lg_free_nodes := ?fr @ ?rest \<rparr>"
  have k0: "(of_nat k :: u64) \<noteq> 0" using unat_small [of k] kpos by (auto simp: LOG_MEMORY_def MAX_LOG_PAGES_def)
  have "log_drain_round s = (Ret (), ?s3)"
    using nd(1) w t(1) kpos mx(1) k0 by (simp add: log_drain_round_def kbind_get kbind_def kthen_case log_free_list_run kret_def LOG_MEMORY_def)
  moreover have "put_homes (rev ?fr) ?s = put_blocks ?bs (lg_disk s)" by (simp add: put_homes_def rev_map)
  moreover have "?ks \<noteq> {}" "?ks \<subseteq> dom (ht_lookup (lg_disk_map s))" using kpos tk by auto
  moreover have "replay_frame s ?s3" using fl(1) by (simp add: replay_frame_def ready_def)
  ultimately show ?thesis using bs blk t(2,3) ks by (intro exI [of _ ?ks] exI [of _ ?bs] exI [of _ ?s3]) simp
qed

lemma drain_round:
  assumes ok: "drain_ok s" and ne: "ht_size (lg_disk_map s) \<noteq> 0"
  shows "\<exists>s1. log_drain_round s = (Ret (), s1) \<and> drain_ok s1 \<and> ht_size (lg_disk_map s1) < ht_size (lg_disk_map s) \<and> replay_frame s s1 \<and>
    (\<forall>off. home s off \<longrightarrow> drained s1 off = drained s off)"
proof -
  let ?lk = "ht_lookup (lg_disk_map s)"
  obtain ks bs s1 where s1: "log_drain_round s = (Ret (), s1)" "ks \<noteq> {}" "ks \<subseteq> dom ?lk" "lg_disk s1 = put_blocks bs (lg_disk s)"
    "distinct (map blk_offset bs)" "blk_offset ` set bs = ks" "\<forall>b\<in>set bs. \<exists>lo. ?lk (blk_offset b) = Some lo \<and> b = lg_disk s lo"
    "map_wf (lg_disk_map s1)" "ht_lookup (lg_disk_map s1) = ?lk |` (- ks)" "replay_frame s s1"
    using drain_round_state [OF assms] by (elim exE conjE) (rule that)
  have g: "log_geom s" and wf: "map_wf (lg_disk_map s)" using ok by (simp_all add: drain_ok_def)
  have ent: "home s off \<and> blk_offset (lg_disk s lo) = off \<and> (\<exists>k<unat (lg_npages s). lo = slot k)" if "?lk off = Some lo" for off lo
    using ok that by (simp add: drain_ok_def)
  have home: "home s1 = home s" using s1(10) by (simp add: fun_eq_iff home_def replay_frame_def)
  have other: "lg_disk s1 off = lg_disk s off" if "off \<notin> ks" for off using that s1(6) by (auto simp: s1(4) intro!: put_blocks_other)
  have slots: "lg_disk s1 (slot k) = lg_disk s (slot k)" if "k < unat (lg_npages s)" for k
  proof (rule other)
    have "home s off" if "off \<in> ks" for off using ent that s1(3) by (auto simp: subset_iff dom_def)
    then show "slot k \<notin> ks" using home_not_slot [OF g _ that] by auto
  qed
  have "length (lg_free_nodes s1) = LOG_MEMORY"
    using s1(10) ok distinct_card [of "lg_free_nodes s1"] distinct_card [of "lg_free_nodes s"] by (simp add: drain_ok_def replay_frame_def)
  moreover have "log_geom s1" "ready s1" "lg_nodes s1 = []" "distinct (lg_free_nodes s1)" "lg_npages s1 = lg_npages s"
    using s1(10) ok by (simp_all add: drain_ok_def replay_frame_def log_geom_def)
  moreover have "home s off \<and> blk_offset (lg_disk s1 lo) = off \<and> (\<exists>k<unat (lg_npages s). lo = slot k)"
    if "ht_lookup (lg_disk_map s1) off = Some lo" for off lo
  proof -
    have "?lk off = Some lo" using that s1(9) by (simp add: restrict_map_def split: if_splits)
    from ent [OF this] show ?thesis using slots by auto
  qed
  ultimately have "drain_ok s1" using s1(8) home by (simp add: drain_ok_def)
  moreover have "drained s1 off = drained s off" if h: "home s off" for off
  proof (cases "off \<in> ks")
    case True
    then obtain b where b: "b \<in> set bs" "blk_offset b = off" using s1(6) by auto
    then show ?thesis using s1(7,9) True put_blocks_distinct [OF s1(5) b(1), of "lg_disk s"] by (auto simp: drained_def s1(4))
  next
    case False
    then have "ht_lookup (lg_disk_map s1) off = ?lk off" using s1(9) by simp
    then show ?thesis using other [OF False] slots ent [of off] by (auto simp: drained_def split: option.split)
  qed
  moreover have "card (dom (?lk |` (- ks))) < card (dom ?lk)"
    using s1(2,3) map_wf_size(2) [OF wf] by (intro psubset_card_mono) auto
  then have "ht_size (lg_disk_map s1) < ht_size (lg_disk_map s)" using map_wf_size(1) [OF wf] map_wf_size(1) [OF s1(8)] s1(9) by simp
  ultimately show ?thesis using s1(1,10) by blast
qed

lemma log_drain_run:
  assumes "drain_ok s" "nat (ht_size (lg_disk_map s)) \<le> fuel"
  shows "\<exists>s'. log_drain fuel s = (Ret (), s') \<and> drain_ok s' \<and> ht_size (lg_disk_map s') = 0 \<and> replay_frame s s' \<and>
    (\<forall>off. home s off \<longrightarrow> drained s' off = drained s off)"
  using assms
proof (induction fuel arbitrary: s)
  case 0
  then have "ht_size (lg_disk_map s) = 0" using map_wf_size(1) [of "lg_disk_map s"] by (simp add: drain_ok_def)
  then show ?case using 0 by (subst log_drain.simps) (simp add: kbind_get kret_def replay_frame_def drain_ok_def)
next
  case (Suc fuel)
  show ?case
  proof (cases "ht_size (lg_disk_map s) = 0")
    case True
    then show ?thesis using Suc by (subst log_drain.simps) (simp add: kbind_get kret_def replay_frame_def drain_ok_def)
  next
    case False
    obtain s1 where s1: "log_drain_round s = (Ret (), s1)" "drain_ok s1" "ht_size (lg_disk_map s1) < ht_size (lg_disk_map s)" "replay_frame s s1"
      "\<forall>off. home s off \<longrightarrow> drained s1 off = drained s off" using drain_round [OF Suc.prems(1) False] by blast
    have home: "home s1 = home s" using s1(4) by (simp add: fun_eq_iff home_def replay_frame_def)
    have "log_drain (Suc fuel) s = log_drain fuel s1" using False s1(1) by (subst log_drain.simps) (simp add: kbind_get kthen_case)
    moreover have "nat (ht_size (lg_disk_map s1)) \<le> fuel" using s1(3) Suc.prems(2) by linarith
    ultimately show ?thesis using Suc.IH [OF s1(2)] s1(4,5) home by (metis replay_frame_trans)
  qed
qed

text \<open>The first part of \<open>log_apply_mem\<close> writes the buffers home and takes their entries off the map.\<close>

definition mem_applied :: "the_log \<Rightarrow> hashtable \<Rightarrow> the_log" where
  "mem_applied s t = s\<lparr> lg_disk := put_homes (lg_nodes s) s, lg_ios := lg_ios s + length (lg_nodes s), lg_disk_map := t,
     lg_nodes := [], lg_free_nodes := rev (lg_nodes s) @ lg_free_nodes s, lg_in_mem := 0 \<rparr>"

lemma mem_applied_drain:
  assumes "log_ok_at s m" "ready s" "map_wf t" "ht_lookup t = ht_lookup (lg_disk_map s) |` (- node_off s ` set (lg_nodes s))"
  shows "drain_ok (mem_applied s t)" "home s off \<Longrightarrow> drained (mem_applied s t) off = log_view s off"
proof -
  let ?s = "mem_applied s t" and ?ns = "lg_nodes s" and ?bs = "map (lg_node s) (lg_nodes s)"
  have g: "log_geom s" and no: "nodes_ok s" and ao: "area_ok s m" using assms(1) by (simp_all add: log_ok_at_def)
  have disk: "lg_disk ?s = put_blocks ?bs (lg_disk s)" by (simp add: mem_applied_def put_homes_def)
  have off: "distinct (map blk_offset ?bs)" "\<forall>p\<in>set ?ns. home s (node_off s p)" using no by (simp_all add: nodes_ok_def comp_def)
  have home: "home ?s = home s" by (simp add: mem_applied_def fun_eq_iff home_def)
  have other: "lg_disk ?s q = lg_disk s q" if "q \<notin> node_off s ` set ?ns" for q using that by (auto simp: disk intro!: put_blocks_other)
  have slots: "lg_disk ?s (slot k) = lg_disk s (slot k)" if "k < unat (lg_npages s)" for k
  proof (rule other)
    have "home s q" if "q \<in> node_off s ` set ?ns" for q using off(2) that by auto
    then show "slot k \<notin> node_off s ` set ?ns" using home_not_slot [OF g _ that] by auto
  qed
  have ent: "home s q \<and> blk_offset (lg_disk s lo) = q \<and> (\<exists>k<unat (lg_npages s). lo = slot k)" if "ht_lookup (lg_disk_map s) q = Some lo" for q lo
  proof -
    have "home s q" "last_copy (lg_disk s) m q lo" "m \<le> unat (lg_npages s)" using ao that by (simp_all add: area_ok_def)
    then show ?thesis by (auto simp: last_copy_def intro: order.strict_trans2)
  qed
  have "home s q \<and> blk_offset (lg_disk ?s lo) = q \<and> (\<exists>k<unat (lg_npages s). lo = slot k)" if "ht_lookup t q = Some lo" for q lo
  proof -
    have "ht_lookup (lg_disk_map s) q = Some lo" using that assms(4) by (simp add: restrict_map_def split: if_splits)
    from ent [OF this] show ?thesis using slots by auto
  qed
  then show "drain_ok ?s"
    using g no assms(2,3) home by (simp add: drain_ok_def) (simp add: mem_applied_def log_geom_def ready_def nodes_ok_def Int_commute)
  assume h: "home s off"
  show "drained ?s off = log_view s off"
  proof (cases "log_mem s off")
    case (Some p)
    then have p: "p \<in> set ?ns" "node_off s p = off" using log_mem_Some by auto
    then have "ht_lookup t off = None" "put_blocks ?bs (lg_disk s) off = lg_node s p"
      using assms(4) put_blocks_distinct [OF off(1), of "lg_node s p" "lg_disk s"] by auto
    then show ?thesis using Some disk by (simp add: drained_def log_view_def) (simp add: mem_applied_def)
  next
    case None
    then have n: "off \<notin> node_off s ` set ?ns" by (auto simp: log_mem_def find_None_iff)
    then have "ht_lookup t off = ht_lookup (lg_disk_map s) off" using assms(4) by simp
    moreover have "lg_disk_map ?s = t" by (simp add: mem_applied_def)
    ultimately show ?thesis using None other [OF n] slots ent [of off] by (auto simp: drained_def log_view_def split: option.split)
  qed
qed

lemma log_apply_mem_run:
  assumes "log_ok s" "ready s"
  shows "\<exists>s'. log_apply_mem s = (Ret (), s') \<and> lg_nodes s' = [] \<and> lg_on_disk s' = 0 \<and> log_view s' = lg_disk s' \<and>
    (\<forall>off. home s off \<longrightarrow> lg_disk s' off = log_view s off)"
proof -
  let ?ns = "lg_nodes s" and ?s1 = "s\<lparr> lg_disk := put_homes (lg_nodes s) s, lg_ios := lg_ios s + length (lg_nodes s) \<rparr>"
  have ok: "log_ok_at s (unat (lg_on_disk s))" using assms(1) by (simp add: log_ok_def)
  have g: "log_geom s" and no: "nodes_ok s" and mw: "map_wf (lg_disk_map s)" using ok by (simp_all add: log_ok_at_def map_ok_def map_wf_def)
  have h: "\<forall>p\<in>set ?ns. home s (node_off s p)" and im: "lg_in_mem s = of_nat (length ?ns)" using no by (simp_all add: nodes_ok_def)
  note w = log_write_to_disk_run [OF g h, of 0]
  obtain t where t: "log_del_offsets ?ns ?s1 = (Ret (), ?s1\<lparr> lg_disk_map := t \<rparr>)" "map_wf t"
    "ht_lookup t = ht_lookup (lg_disk_map s) |` (- node_off s ` set ?ns)"
    using log_del_offsets_run [of ?s1 ?ns] mw by auto
  note dr = mem_applied_drain [OF ok assms(2) t(2,3)]
  obtain s2 where s2: "log_drain (nat (ht_size t)) (mem_applied s t) = (Ret (), s2)" "drain_ok s2" "ht_size (lg_disk_map s2) = 0" "replay_frame (mem_applied s t) s2"
    "\<forall>off. home (mem_applied s t) off \<longrightarrow> drained s2 off = drained (mem_applied s t) off"
    using log_drain_run [OF dr(1), of "nat (ht_size t)"] by (auto simp: mem_applied_def)
  have r: "ready s2" "unat (lg_npages s2) \<le> MAX_LOG_PAGES" "map_wf (lg_disk_map s2)" using s2(2) by (simp_all add: drain_ok_def log_geom_def)
  have "log_apply_mem s = (Ret (), init_state s2)"
    using w t(1) s2(1) log_init_run [OF r(1)] im
    by (simp add: log_apply_mem_def kbind_get kbind_def kthen_case log_free_nodes_run mem_applied_def kret_apply)
  moreover have "home (mem_applied s t) = home s" by (simp add: mem_applied_def fun_eq_iff home_def)
  moreover have "ht_lookup (lg_disk_map s2) = Map.empty"
    using map_wf_size [OF r(3)] s2(3) by simp
  then have "drained s2 off = lg_disk s2 off" for off by (simp add: drained_def)
  ultimately show ?thesis using s2(5) dr(2) init_state_map(3) [OF r(2)] by (auto simp: init_state_def)
qed

text \<open>C17: Applying a flushed log from memory and replaying it from the log area have the same effect: both succeed and leave
  the same contents, data and offset, in every home block. As for the recovery, the log satisfies \<open>log_ok\<close>, so that no block of the log area
  was freed since the log was applied last; the disk requests succeed, the log area has room, and the pages of the map are allocated.\<close>

theorem log_apply_mem_disk:
  assumes "log_ok s" "log_room s" "ready s"
  shows "\<exists>s1 r1 r2. log_flush s = (Ret (lg_on_disk s1), s1) \<and> log_apply_mem s1 = (Ret (), r1) \<and> log_apply_disk (lg_on_disk s1) s1 = (Ret (), r2) \<and>
    (\<forall>off. home s off \<longrightarrow> same_block (lg_disk r1 off) (lg_disk r2 off))"
proof -
  obtain s1 where s1: "log_flush s = (Ret (lg_on_disk s1), s1)" "log_ok s1" "\<forall>p\<in>set (lg_nodes s1). \<not> blk_dirty (lg_node s1 p)"
    "log_frame s (s1\<lparr> lg_on_disk := lg_on_disk s \<rparr>)" using log_flush_spec [OF assms(1,2)] by blast
  have f: "home s1 = home s" "ready s1" using s1(4) assms(3) by (simp_all add: log_frame_def fun_eq_iff home_def ready_def)
  obtain r1 where r1: "log_apply_mem s1 = (Ret (), r1)" "\<forall>off. home s1 off \<longrightarrow> lg_disk r1 off = log_view s1 off"
    using log_apply_mem_run [OF s1(2) f(2)] by blast
  have p: "lg_byteoff s1 = slot 0" "\<forall>i. lg_io s1 i" "distinct (lg_nodes s1 @ lg_free_nodes s1)" "length (lg_nodes s1 @ lg_free_nodes s1) = LOG_MEMORY"
    "unat (lg_on_disk s1) \<le> unat (lg_npages s1)"
    using s1(2) by (simp_all add: log_ok_def log_ok_at_def log_geom_def nodes_ok_def area_ok_def slot_def)
  obtain r2 where r2: "log_apply_disk (lg_on_disk s1) s1 = (Ret (), r2)"
    "log_view r2 = put_blocks (area (lg_disk s1) 0 (unat (lg_on_disk s1))) (lg_disk s1)" "lg_disk r2 = log_view r2"
    using log_apply_disk_run [OF f(2) p area_homes [OF s1(2)]] by blast
  have "same_block (lg_disk r1 off) (lg_disk r2 off)" if "home s off" for off
    using replay_view [OF s1(2,3), of off] r1(2) r2(2,3) that f(1) by (auto intro: same_block_sym)
  then show ?thesis using s1(1) r1(1) r2(1) by blast
qed

subsection \<open>Writing and reading a block\<close>

text \<open>A log between taking a buffer off its lists and putting it at the end of the list of nodes.\<close>

definition log_open :: "the_log \<Rightarrow> ptr \<Rightarrow> bool" where
  "log_open s p \<longleftrightarrow> log_geom s \<and> map_ok s \<and> area_ok s (unat (lg_on_disk s)) \<and> clean_ok s \<and> distinct (p # lg_nodes s @ lg_free_nodes s) \<and>
     Suc (length (lg_nodes s) + length (lg_free_nodes s)) = LOG_MEMORY \<and> lg_in_mem s = of_nat (Suc (length (lg_nodes s))) \<and>
     distinct (map (node_off s) (lg_nodes s)) \<and> (\<forall>q\<in>set (lg_nodes s). home s (node_off s q) \<and> probes_total (lg_disk_map s) (node_off s q))"

lemma log_same_area:
  assumes "lg_byteoff t = lg_byteoff s" "lg_npages t = lg_npages s" "lg_max_mem t = lg_max_mem s" "lg_io t = lg_io s"
    "lg_disk_map t = lg_disk_map s" "lg_disk t = lg_disk s"
  shows "home t = home s" "log_geom t = log_geom s" "map_ok t = map_ok s" "area_ok t m = area_ok s m"
proof -
  show h: "home t = home s" using assms by (simp add: fun_eq_iff home_def)
  show "log_geom t = log_geom s" "map_ok t = map_ok s" "area_ok t m = area_ok s m"
    using assms by (simp_all add: log_geom_def map_ok_def area_ok_def h)
qed

definition log_add :: "ptr \<Rightarrow> btree_block \<Rightarrow> the_log \<Rightarrow> the_log" where
  "log_add p b s = s\<lparr> lg_node := (lg_node s)(p := b), lg_nodes := lg_nodes s @ [p] \<rparr>"

lemma log_mem_None: "log_mem s off = None \<longleftrightarrow> off \<notin> node_off s ` set (lg_nodes s)"
  by (auto simp: log_mem_def find_None_iff)

lemma find_cong_set: "(\<And>x. x \<in> set xs \<Longrightarrow> P x = Q x) \<Longrightarrow> find P xs = find Q xs"
  by (induction xs) auto

lemma find_snoc: "find P (xs @ [x]) = (case find P xs of Some y \<Rightarrow> Some y | None \<Rightarrow> if P x then Some x else None)"
  by (induction xs) auto

lemma log_add_ok:
  assumes o: "log_open s p" and n: "log_mem s (blk_offset b) = None" and b: "blk_dirty b" "home s (blk_offset b)" "probes_total (lg_disk_map s) (blk_offset b)"
  shows "log_ok (log_add p b s)" "log_view (log_add p b s) (blk_offset b) = b" "log_mem (log_add p b s) (blk_offset b) = Some p"
    "off \<noteq> blk_offset b \<Longrightarrow> log_view (log_add p b s) off = log_view s off"
proof -
  let ?s = "log_add p b s"
  have f: "lg_byteoff ?s = lg_byteoff s" "lg_npages ?s = lg_npages s" "lg_max_mem ?s = lg_max_mem s" "lg_io ?s = lg_io s" "lg_disk_map ?s = lg_disk_map s"
    "lg_disk ?s = lg_disk s" "lg_on_disk ?s = lg_on_disk s" "lg_free_nodes ?s = lg_free_nodes s" "lg_nodes ?s = lg_nodes s @ [p]" "lg_in_mem ?s = lg_in_mem s"
    by (simp_all add: log_add_def)
  note a = log_same_area [of ?s s, OF f(1-6)]
  have home: "home ?s = home s" by (rule a)
  have p: "p \<notin> set (lg_nodes s)" using o by (simp add: log_open_def)
  have nd: "lg_node ?s q = lg_node s q" if "q \<in> set (lg_nodes s)" for q using that p by (auto simp: log_add_def)
  have np: "lg_node ?s p = b" by (simp add: log_add_def)
  have offs: "map (node_off ?s) (lg_nodes s) = map (node_off s) (lg_nodes s)" using nd by simp
  have "log_geom ?s" "map_ok ?s" "area_ok ?s (unat (lg_on_disk ?s))"
    using o by (simp_all add: log_open_def a f)
  moreover have "clean_ok s" using o by (simp add: log_open_def)
  then have "clean_ok ?s" using nd np b(1) unfolding clean_ok_def f by (metis Un_iff empty_iff empty_set insert_iff list.simps(15) set_append)
  moreover have "nodes_ok ?s"
  proof -
    have "distinct (lg_nodes ?s @ lg_free_nodes ?s)" "length (lg_nodes ?s) + length (lg_free_nodes ?s) = LOG_MEMORY" "lg_in_mem ?s = of_nat (length (lg_nodes ?s))"
      using o by (auto simp: log_open_def f)
    moreover have "distinct (map (node_off ?s) (lg_nodes ?s))"
      using o n unfolding f map_append offs log_mem_None by (simp add: np log_open_def)
    moreover have "\<forall>q\<in>set (lg_nodes ?s). home ?s (node_off ?s q) \<and> probes_total (lg_disk_map ?s) (node_off ?s q)"
      using o b(2,3) nd by (simp add: f np home log_open_def)
    ultimately show ?thesis by (simp only: nodes_ok_def)
  qed
  ultimately show "log_ok ?s" by (simp add: log_ok_def log_ok_at_def)
  have mem: "log_mem ?s q = (case log_mem s q of Some x \<Rightarrow> Some x | None \<Rightarrow> if blk_offset b = q then Some p else None)" for q
  proof -
    have "find (\<lambda>x. node_off ?s x = q) (lg_nodes s) = log_mem s q" using nd unfolding log_mem_def by (intro find_cong_set) simp
    then show ?thesis by (auto simp: log_mem_def f np find_snoc split: option.split)
  qed
  show "log_mem ?s (blk_offset b) = Some p" using n by (simp add: mem)
  then show "log_view ?s (blk_offset b) = b" by (simp add: log_view_def np)
  assume "off \<noteq> blk_offset b"
  then show "log_view ?s off = log_view s off"
    using log_mem_Some [of s off] nd by (auto simp: log_view_def mem f split: option.split)
qed

text \<open>The three ways to get a buffer.\<close>

lemma log_open_found:
  assumes "log_ok s" "log_mem s off = Some p"
  defines "t \<equiv> s\<lparr> lg_nodes := remove1 p (lg_nodes s) \<rparr>"
  shows "log_open t p" "log_mem t off = None" "q \<noteq> off \<Longrightarrow> log_view t q = log_view s q"
proof -
  have ok: "log_ok_at s (unat (lg_on_disk s))" using assms(1) by (simp add: log_ok_def)
  have p: "p \<in> set (lg_nodes s)" "node_off s p = off" using log_mem_Some [OF assms(2)] by auto
  have no: "nodes_ok s" using ok by (simp add: log_ok_at_def)
  have d: "distinct (lg_nodes s)" "distinct (map (node_off s) (lg_nodes s))" using no by (simp_all add: nodes_ok_def)
  obtain xs ys where xy: "lg_nodes s = xs @ p # ys" "p \<notin> set xs" using p(1) by (meson split_list_first)
  have rm: "remove1 p (xs @ p # ys) = xs @ ys" using xy(2) by (simp add: remove1_append)
  note a = log_same_area [of t s]
  have home: "home t = home s" by (rule a) (simp_all add: t_def)
  have "log_geom t" "map_ok t" "area_ok t (unat (lg_on_disk t))"
    using ok a(2-4) by (simp_all add: log_ok_at_def t_def)
  moreover have "clean_ok t" using ok by (simp add: log_ok_at_def clean_ok_def t_def rm xy)
  moreover have "distinct (p # lg_nodes t @ lg_free_nodes t)" "Suc (length (lg_nodes t) + length (lg_free_nodes t)) = LOG_MEMORY"
    "lg_in_mem t = of_nat (Suc (length (lg_nodes t)))" "distinct (map (node_off t) (lg_nodes t))"
    using no by (auto simp: nodes_ok_def t_def rm xy)
  moreover have "\<forall>q\<in>set (lg_nodes t). home t (node_off t q) \<and> probes_total (lg_disk_map t) (node_off t q)"
    unfolding home using no by (simp add: nodes_ok_def t_def rm xy)
  ultimately show "log_open t p" by (simp only: log_open_def simp_thms)
  show "log_mem t off = None" using d(2) p(2) unfolding log_mem_None by (auto simp: t_def rm xy)
  assume "q \<noteq> off"
  then have "find (\<lambda>x. node_off s x = q) (xs @ ys) = find (\<lambda>x. node_off s x = q) (xs @ p # ys)"
    using p(2) by (induction xs) auto
  then have "log_mem t q = log_mem s q" by (simp add: log_mem_def t_def rm xy)
  then show "log_view t q = log_view s q" by (simp add: log_view_def t_def split: option.split)
qed

lemma log_open_new:
  assumes "log_ok s" "lg_free_nodes s = p # fr"
  defines "t \<equiv> s\<lparr> lg_free_nodes := fr, lg_node := (lg_node s)(p := block0), lg_in_mem := lg_in_mem s + 1 \<rparr>"
  shows "log_open t p" "log_mem t = log_mem s" "log_view t = log_view s"
proof -
  have ok: "log_ok_at s (unat (lg_on_disk s))" using assms(1) by (simp add: log_ok_def)
  have no: "nodes_ok s" using ok by (simp add: log_ok_at_def)
  have p: "p \<notin> set (lg_nodes s)" using no assms(2) by (simp add: nodes_ok_def)
  have nd: "lg_node t q = lg_node s q" if "q \<in> set (lg_nodes s)" for q using that p by (auto simp: t_def)
  note a = log_same_area [of t s]
  have home: "home t = home s" by (rule a) (simp_all add: t_def)
  have ns: "lg_nodes t = lg_nodes s" by (simp add: t_def)
  have offs: "map (node_off t) (lg_nodes s) = map (node_off s) (lg_nodes s)" using nd by simp
  have "log_geom t" "map_ok t" "area_ok t (unat (lg_on_disk t))"
    using ok a(2-4) by (simp_all add: log_ok_at_def t_def)
  moreover have "clean_ok s" using ok by (simp add: log_ok_at_def)
  then have "clean_ok t" using nd unfolding clean_ok_def ns by (simp add: t_def)
  moreover have "distinct (p # lg_nodes t @ lg_free_nodes t)" "Suc (length (lg_nodes t) + length (lg_free_nodes t)) = LOG_MEMORY"
    "lg_in_mem t = of_nat (Suc (length (lg_nodes t)))"
    using no assms(2) by (auto simp: nodes_ok_def t_def)
  moreover have "distinct (map (node_off t) (lg_nodes t))" using no unfolding ns offs by (simp add: nodes_ok_def)
  moreover have "\<forall>q\<in>set (lg_nodes t). home t (node_off t q) \<and> probes_total (lg_disk_map t) (node_off t q)"
    using no nd unfolding home ns by (simp add: nodes_ok_def) (simp add: t_def)
  ultimately show "log_open t p" by (simp only: log_open_def simp_thms)
  show mem: "log_mem t = log_mem s" using nd unfolding fun_eq_iff log_mem_def ns by (auto intro!: find_cong_set)
  have "lg_disk t = lg_disk s" "lg_disk_map t = lg_disk_map s" by (simp_all add: t_def)
  then show "log_view t = log_view s"
    using log_mem_Some [of s] nd by (auto simp: fun_eq_iff log_view_def mem split: option.split)
qed

lemma log_free_all:
  assumes "log_ok s" "\<forall>p\<in>set (lg_nodes s). \<not> blk_dirty (lg_node s p)"
  defines "t \<equiv> s\<lparr> lg_nodes := [], lg_free_nodes := rev (lg_nodes s) @ lg_free_nodes s, lg_in_mem := 0 \<rparr>"
  shows "log_ok t" "same_block (log_view t q) (log_view s q)"
proof -
  have ok: "log_ok_at s (unat (lg_on_disk s))" using assms(1) by (simp add: log_ok_def)
  have "log_geom t" "map_ok t" "area_ok t (unat (lg_on_disk t))" "clean_ok t" "nodes_ok t"
    using ok log_same_area(2-4) [of t s] by (simp_all add: log_ok_at_def clean_ok_def nodes_ok_def t_def Int_commute)
  then show "log_ok t" by (simp add: log_ok_def log_ok_at_def)
  have co: "clean_ok s" using ok by (simp add: log_ok_at_def)
  show "same_block (log_view t q) (log_view s q)"
  proof (cases "log_mem s q")
    case (Some p)
    then obtain lo where "ht_lookup (lg_disk_map s) q = Some lo" "same_block (lg_disk s lo) (lg_node s p)"
      using co assms(2) log_mem_Some [OF Some] by (auto simp: clean_ok_def)
    then show ?thesis using Some by (simp add: log_view_def t_def log_mem_def)
  qed (simp add: log_view_def t_def log_mem_def split: option.split)
qed

lemma log_fresh_node_run:
  assumes "log_ok s" "length (lg_nodes s) < LOG_MEMORY"
  shows "\<exists>p t. log_fresh_node s =
    (Ret p, t) \<and> log_open t p \<and> log_mem t = log_mem s \<and> log_view t = log_view s \<and> home t = home s \<and> capacity (lg_disk_map t) = capacity (lg_disk_map s)"
proof -
  obtain p fr where fr: "lg_free_nodes s = p # fr"
    using assms by (cases "lg_free_nodes s") (auto simp: log_ok_def log_ok_at_def nodes_ok_def)
  let ?t = "s\<lparr> lg_free_nodes := fr, lg_node := (lg_node s)(p := block0), lg_in_mem := lg_in_mem s + 1 \<rparr>"
  have "log_fresh_node s = (Ret p, ?t)"
    by (simp add: log_fresh_node_def take_free_node_def kbind_get kbind_def kthen_case kret_def fr)
  moreover have "home ?t = home s" by (simp add: fun_eq_iff home_def)
  ultimately show ?thesis using log_open_new [OF assms(1) fr] by (intro exI [of _ p] exI [of _ ?t]) simp
qed

lemma log_new_node_run:
  assumes ok: "log_ok s" and room: "length (lg_nodes s) = LOG_MEMORY \<longrightarrow> log_room s" and n: "log_mem s off = None"
  shows "\<exists>p t. log_new_node s = (Ret p, t) \<and> log_open t p \<and> log_mem t off = None \<and> home t = home s \<and> capacity (lg_disk_map t) = capacity (lg_disk_map s) \<and>
    (\<forall>q. home s q \<longrightarrow> same_block (log_view t q) (log_view s q))"
proof (cases "length (lg_nodes s) = LOG_MEMORY")
  case False
  have b: "length (lg_nodes s) < LOG_MEMORY" "lg_in_mem s = of_nat (length (lg_nodes s))" "lg_max_mem s = of_nat LOG_MEMORY"
    using ok False by (auto simp: log_ok_def log_ok_at_def nodes_ok_def log_geom_def)
  have "unat (of_nat (length (lg_nodes s)) :: u64) = length (lg_nodes s)" "unat (of_nat LOG_MEMORY :: u64) = LOG_MEMORY"
    using b(1) unat_small by (simp_all add: LOG_MEMORY_def MAX_LOG_PAGES_def)
  then have "lg_in_mem s \<noteq> lg_max_mem s" using b False by metis
  then show ?thesis using log_fresh_node_run [OF ok b(1)] n by (auto simp: log_new_node_def kbind_get)
next
  case True
  obtain s1 where s1: "log_flush s = (Ret (lg_on_disk s1), s1)" "log_ok s1" "\<forall>p\<in>set (lg_nodes s1). \<not> blk_dirty (lg_node s1 p)"
    "log_frame s (s1\<lparr> lg_on_disk := lg_on_disk s \<rparr>)" using log_flush_spec [OF ok] room True by blast
  let ?t = "s1\<lparr> lg_nodes := [], lg_free_nodes := rev (lg_nodes s1) @ lg_free_nodes s1, lg_in_mem := 0 \<rparr>"
  note t = log_free_all [OF s1(2,3)]
  have f: "lg_nodes s1 = lg_nodes s" "home s1 = home s" and v: "\<And>q. home s q \<Longrightarrow> same_block (log_view s1 q) (log_view s q)"
    using s1(4) by (auto simp: log_frame_def fun_eq_iff home_def)
  have in_mem: "lg_in_mem s = lg_max_mem s" "lg_in_mem s1 = of_nat (length (lg_nodes s1))" using ok s1(2) True by (simp_all add: log_ok_def log_ok_at_def nodes_ok_def log_geom_def)
  have cap: "capacity (lg_disk_map ?t) = capacity (lg_disk_map s)" using ok s1(2,4) by (simp add: log_ok_def log_ok_at_def map_ok_def log_frame_def)
  obtain p u where u: "log_fresh_node ?t =
      (Ret p, u)" "log_open u p" "log_mem u = log_mem ?t" "log_view u = log_view ?t" "home u = home ?t" "capacity (lg_disk_map u) = capacity (lg_disk_map ?t)"
    using log_fresh_node_run [OF t(1)] by (auto simp: LOG_MEMORY_def)
  have "log_new_node s = (Ret p, u)"
    using in_mem s1(1) u(1) by (simp add: log_new_node_def kbind_get kthen_case kbind_def [of log_free_nodes] log_free_nodes_run kret_apply)
  moreover have "home ?t = home s" using f(2) by (simp add: fun_eq_iff home_def)
  moreover have "same_block (log_view u q) (log_view s q)" if "home s q" for q using t(2) v [OF that] same_block_trans unfolding u(4) by blast
  ultimately show ?thesis using u cap by (intro exI [of _ p] exI [of _ u]) (simp add: log_mem_def)
qed

lemma log_try_read_mem:
  assumes "log_mem s off = Some p"
  shows "log_try_read off s = (Ret (lg_node s p), s)"
proof -
  have "find (\<lambda>b. off = blk_offset b) (map (lg_node s) ps) = map_option (lg_node s) (find (\<lambda>p. node_off s p = off) ps)" for ps
    by (induction ps) auto
  then show ?thesis using assms by (simp add: log_try_read_def kbind_get log_mem_def kret_def)
qed

text \<open>C24: A block that is written to the log is what is read from it afterwards, also when the buffers were full and
  had to be flushed: the write succeeds, keeps the invariant of the log and the view of every other home block, and \<open>log_try_read\<close> returns
  a block of that offset whose first \<open>nwords\<close> words are those of the node.\<close>

theorem log_write_read:
  assumes "log_ok s" "length (lg_nodes s) = LOG_MEMORY \<longrightarrow> log_room s" "home s (blk_offset b)" "probes_total (lg_disk_map s) (blk_offset b)"
    "nwords \<le> length (blk_data b)"
  shows "\<exists>s' b'. log_write b nwords s = (Ret (), s') \<and> log_ok s' \<and> log_try_read (blk_offset b) s' = (Ret b', s') \<and>
    blk_offset b' = blk_offset b \<and> take nwords (blk_data b') = take nwords (blk_data b) \<and>
    (\<forall>off. home s off \<longrightarrow> off \<noteq> blk_offset b \<longrightarrow> same_block (log_view s' off) (log_view s off))"
proof -
  let ?o = "blk_offset b" and ?get = "case log_mem s (blk_offset b) of
      Some store \<Rightarrow> kthen (kmod (\<lambda>s. s\<lparr> lg_nodes := remove1 store (lg_nodes s) \<rparr>)) (kret store) | None \<Rightarrow> log_new_node"
  obtain p t where t: "?get s = (Ret p, t)" "log_open t p" "log_mem t ?o = None" "home t = home s" "capacity (lg_disk_map t) = capacity (lg_disk_map s)"
    "\<forall>q. home s q \<longrightarrow> q \<noteq> ?o \<longrightarrow> same_block (log_view t q) (log_view s q)"
  proof (cases "log_mem s ?o")
    case None
    then show ?thesis using that log_new_node_run [OF assms(1,2) None] by auto
  next
    case (Some p)
    let ?t = "s\<lparr> lg_nodes := remove1 p (lg_nodes s) \<rparr>"
    have "home ?t = home s" by (simp add: fun_eq_iff home_def)
    then show ?thesis using that [of p ?t] Some log_open_found [OF assms(1) Some] by (simp add: kthen_case kret_apply)
  qed
  let ?b = "block_copy b nwords (lg_node t p)"
  have b: "blk_offset ?b = ?o" "blk_dirty ?b" "take nwords (blk_data ?b) = take nwords (blk_data b)" using assms(5) by (simp_all add: block_copy_def)
  have pr: "probes_total (lg_disk_map t) ?o" using assms(4) t(5) by (simp add: probes_total_def)
  note add = log_add_ok [OF t(2), of ?b, unfolded b(1), OF t(3) b(2) _ pr, unfolded t(4), OF assms(3)]
  have "log_write b nwords s = (Ret (), log_add p ?b t)"
    using t(1) by (simp add: log_write_def kbind_get log_mem_def kbind_def log_add_def)
  moreover have "lg_node (log_add p ?b t) p = ?b" by (simp add: log_add_def)
  ultimately show ?thesis
    using add log_try_read_mem [OF add(3)] b t(6) by (intro exI [of _ "log_add p ?b t"] exI [of _ ?b]) simp
qed

subsection \<open>A log of 16 blocks\<close>

definition log16 :: the_log where
  "log16 = \<lparr> lg_byteoff = 4096, lg_npages = 16, lg_max_mem = 1024, lg_in_mem = 0, lg_tailq_inited = True, lg_must_apply = False, lg_nodes = [],
     lg_free_nodes = [1..<1025], lg_on_disk = 0, lg_disk_map = hash_init2 ht_none (replicate 513 (replicate 256 hashentry0)) 16 4096,
     lg_map_back = replicate 513 7, lg_node = (\<lambda>_. block0), lg_disk = (\<lambda>off. block0\<lparr> blk_offset := off \<rparr>), lg_io = (\<lambda>_. True), lg_ios = 0,
     lg_kern = kstate0 \<rparr>"

lemma log16_map:
  "ht_wf (lg_disk_map log16)" "ht_distinct (lg_disk_map log16)" "ht_counted (lg_disk_map log16)" "ht_no_tomb (lg_disk_map log16)"
  "ht_lookup (lg_disk_map log16) = Map.empty" "capacity (lg_disk_map log16) = 16"
  using hash_init2_wf [of 16 513 ht_none] by (simp_all add: log16_def)

lemma log16_ok: "log_ok log16" "log_room log16" "ready log16"
proof -
  have "log_geom log16" by (simp add: log_geom_def log16_def LOG_OFFSET_def PGSIZE_def MAX_LOG_PAGES_def LOG_MEMORY_def)
  moreover have "map_ok log16" using log16_map by (simp add: map_ok_def) (simp add: log16_def)
  moreover have "nodes_ok log16" by (simp add: nodes_ok_def log16_def LOG_MEMORY_def)
  moreover have "area_ok log16 0" using log16_map by (simp add: area_ok_def)
  moreover have "clean_ok log16" by (simp add: clean_ok_def log16_def)
  moreover have "lg_on_disk log16 = 0" by (simp add: log16_def)
  ultimately show "log_ok log16" by (simp add: log_ok_def log_ok_at_def)
  show "log_room log16" by (simp add: log_room_def log16_def)
  show "ready log16" by (simp add: ready_def log16_def MAX_LOG_PAGES_def)
qed

theorem log_write_read_witness:
  "\<exists>s' b'. log_write \<lparr> blk_offset = 0x200000, blk_dirty = False, blk_data = [3, 5] \<rparr> 2 log16 = (Ret (), s') \<and> log_try_read 0x200000 s' = (Ret b', s') \<and>
    take 2 (blk_data b') = [3, 5]"
proof -
  let ?b = "\<lparr> blk_offset = 0x200000, blk_dirty = False, blk_data = [3, 5] \<rparr>"
  have "home log16 (blk_offset ?b)" by (simp add: home_def live_def TOMB_def log16_def PGSIZE_def)
  moreover have "probes_total (lg_disk_map log16) (blk_offset ?b)" by (simp add: probes_total_def log16_map)
  ultimately show ?thesis using log_write_read [OF log16_ok(1), of ?b 2] log16_ok(2) by auto
qed

text \<open>The same log with a block that is not on the disk yet.\<close>

definition log16_dirty :: the_log where
  "log16_dirty = log16\<lparr> lg_nodes := [1], lg_free_nodes := [2..<1025], lg_in_mem := 1,
     lg_node := (\<lambda>_. block0)(1 := \<lparr> blk_offset = 0x200000, blk_dirty = True, blk_data = [3, 5] \<rparr>) \<rparr>"

lemma log16_dirty_home: "home log16_dirty 0x200000"
  by (simp add: home_def live_def TOMB_def log16_dirty_def log16_def PGSIZE_def)

lemma log16_dirty_view: "log_view log16_dirty 0x200000 = \<lparr> blk_offset = 0x200000, blk_dirty = True, blk_data = [3, 5] \<rparr>"
  by (simp add: log_view_def log_mem_def log16_dirty_def)

lemma log16_dirty_ok: "log_ok log16_dirty" "log_room log16_dirty" "ready log16_dirty"
proof -
  have m: "lg_disk_map log16_dirty = lg_disk_map log16" by (simp add: log16_dirty_def)
  have "log_geom log16_dirty" by (simp add: log_geom_def log16_dirty_def log16_def LOG_OFFSET_def PGSIZE_def MAX_LOG_PAGES_def LOG_MEMORY_def)
  moreover have "map_ok log16_dirty" using log16_map by (simp add: map_ok_def m) (simp add: log16_dirty_def log16_def)
  moreover have "probes_total (lg_disk_map log16_dirty) 0x200000" by (simp add: probes_total_def m log16_map)
  moreover have "lg_nodes log16_dirty = [1]" "lg_free_nodes log16_dirty = [2..<1025]" "lg_in_mem log16_dirty = 1" "node_off log16_dirty 1 = 0x200000"
    by (simp_all add: log16_dirty_def del: upt_rec_numeral)
  ultimately have "log_geom log16_dirty" "map_ok log16_dirty" "nodes_ok log16_dirty"
    using log16_dirty_home by (simp_all add: nodes_ok_def LOG_MEMORY_def del: upt_rec_numeral)
  moreover have "area_ok log16_dirty 0" using log16_map by (simp add: area_ok_def m)
  moreover have "clean_ok log16_dirty" by (simp add: clean_ok_def log16_dirty_def)
  moreover have "lg_on_disk log16_dirty = 0" by (simp add: log16_dirty_def log16_def)
  ultimately show "log_ok log16_dirty" by (simp add: log_ok_def log_ok_at_def)
  show "log_room log16_dirty" by (simp add: log_room_def log16_dirty_def log16_def del: upt_rec_numeral)
  show "ready log16_dirty" by (simp add: ready_def log16_dirty_def log16_def MAX_LOG_PAGES_def del: upt_rec_numeral)
qed

theorem log_recovery_witness:
  "\<exists>s1 c'. log_flush log16_dirty = (Ret (lg_on_disk s1), s1) \<and>
     log_apply_disk (lg_on_disk s1) (log16\<lparr> lg_disk := lg_disk s1 \<rparr>) = (Ret (), c') \<and> blk_data (lg_disk c' 0x200000) = [3, 5]"
proof -
  obtain s1 where s1: "log_flush log16_dirty = (Ret (lg_on_disk s1), s1)" and
    rec: "\<forall>c. lg_disk c = lg_disk s1 \<longrightarrow> lg_npages c = lg_npages log16_dirty \<longrightarrow> lg_byteoff c = LOG_OFFSET * PGSIZE \<longrightarrow> ready c \<longrightarrow> (\<forall>i. lg_io c i) \<longrightarrow>
       distinct (lg_nodes c @ lg_free_nodes c) \<longrightarrow> length (lg_nodes c @ lg_free_nodes c) = LOG_MEMORY \<longrightarrow>
       (\<exists>c'. log_apply_disk (lg_on_disk s1) c = (Ret (), c') \<and> lg_nodes c' = [] \<and> lg_on_disk c' = 0 \<and>
          (\<forall>off. home log16_dirty off \<longrightarrow> same_block (lg_disk c' off) (log_view log16_dirty off) \<and> same_block (log_view c' off) (log_view log16_dirty off)))"
    using log_recovery [OF log16_dirty_ok(1,2)] by blast
  let ?c = "log16\<lparr> lg_disk := lg_disk s1 \<rparr>"
  have "ready ?c" using log16_ok(3) by (simp add: ready_def)
  then have "\<exists>c'. log_apply_disk (lg_on_disk s1) ?c = (Ret (), c') \<and> same_block (lg_disk c' 0x200000) (log_view log16_dirty 0x200000)"
    using rec [rule_format, of ?c] log16_dirty_home by (auto simp: log16_dirty_def log16_def LOG_OFFSET_def PGSIZE_def LOG_MEMORY_def)
  then show ?thesis using s1 by (auto simp: log16_dirty_view same_block_def)
qed

theorem log_apply_mem_disk_witness:
  "\<exists>s1 r1 r2. log_flush log16_dirty = (Ret (lg_on_disk s1), s1) \<and> log_apply_mem s1 = (Ret (), r1) \<and> log_apply_disk (lg_on_disk s1) s1 = (Ret (), r2) \<and>
     blk_data (lg_disk r1 0x200000) = blk_data (lg_disk r2 0x200000)"
  using log_apply_mem_disk [OF log16_dirty_ok] log16_dirty_home unfolding same_block_def by blast

end
