(* ===== verification/Aspace.thy ===== *)
theory Aspace
  imports Container
begin

unbundle bit_operations_syntax

text \<open>
  Address spaces (\<^verbatim>\<open>src/kern/kern/as.c\<close>) and segments (\<^verbatim>\<open>src/kern/kern/segment.c\<close>). The pages of an address space hold the
  user's segment mappings; for each there is a \<open>segment_mapping\<close> in the pages of \<^verbatim>\<open>as_segmap_pt\<close> that says which object is
  mapped at present. A page fault looks for a mapping of the address, checks that the thread may read or write the object, and
  enters the page and a few around it into the hardware page table.

  Results: the page of the segment for an address in a mapping is the first page of the mapping plus an index below its number of pages (modulo \<open>2 ^ 64\<close>), and different pages of the address
  space get different pages of the segment; a mapping is entered writable only after a check for writing.
\<close>

subsection \<open>Segment mappings\<close>

definition as_nents :: "ptr \<Rightarrow> u64 kernel" where
  "as_nents as = kget (\<lambda>s. kobject_npages (hdr (ks_obj s as)) * of_nat N_USEGMAP_PER_PAGE)"

definition as_get_usegmap :: "ptr \<Rightarrow> u64 \<Rightarrow> page_sharing_mode \<Rightarrow> usmloc kernel" where
  "as_get_usegmap as smi rw =
     kbind (kobject_get_page as (smi div of_nat N_USEGMAP_PER_PAGE) rw) (\<lambda>p.
     kret (p, unat (smi mod of_nat N_USEGMAP_PER_PAGE)))"

definition as_get_segmap :: "ptr \<Rightarrow> u64 \<Rightarrow> smloc kernel" where
  "as_get_segmap as smi =
     (let npage = smi div of_nat N_SEGMAP_PER_PAGE; pagei = unat (smi mod of_nat N_SEGMAP_PER_PAGE)
      in kbind (pagetree_get_page (PtSegmap as) npage page_excl_dirty) (\<lambda>(p, _).
         if p \<noteq> 0 then kret (p, pagei)
         else kbind page_alloc (\<lambda>p.
              kthen (page_zero p)
             (ktry (pagetree_put_page (PtSegmap as) npage p) (\<lambda>r.
              case r of
                Inl e \<Rightarrow> kthen (page_free p) (kerr e)
              | Inr _ \<Rightarrow> kret (p, pagei))))))"

definition as_resize :: "ptr \<Rightarrow> u64 \<Rightarrow> unit kernel" where
  "as_resize as nent =
     (let npages = (nent + of_nat N_USEGMAP_PER_PAGE - 1) div of_nat N_USEGMAP_PER_PAGE;
          (nbytes, ov) = safe_mul64 npages PGSIZE
      in if ov then kerr E_INVAL else kobject_set_nbytes as nbytes)"

text \<open>Taking a mapping off the list of its object, as several operations do.\<close>

definition sm_detach :: "smloc \<Rightarrow> unit kernel" where
  "sm_detach sm =
     kbind (sm_of sm) (\<lambda>m.
     kwhen (sm_ko m \<noteq> 0) (kthen (segmap_list_remove (sm_ko m) sm) (kobject_unpin_page (sm_ko m))))"

subsection \<open>Life of an address space\<close>

definition as_swapin :: "ptr \<Rightarrow> unit kernel" where
  "as_swapin as = kthen (upd_as as (\<lambda>a. a\<lparr> as_pgmap := 0 \<rparr>)) (pagetree_init (PtSegmap as) ParNull)"

definition as_alloc :: "ptr \<Rightarrow> ptr kernel" where
  "as_alloc l = kbind (kobject_alloc kobj_address_space l 0) (\<lambda>as. kthen (as_swapin as) (kret as))"

definition as_copy :: "ptr \<Rightarrow> ptr \<Rightarrow> ptr kernel" where
  "as_copy as l =
     kbind (as_alloc l) (\<lambda>nas.
     kthen (kobject_copy_pages as nas)
    (kbind (kget (\<lambda>s. aspace (ks_obj s as))) (\<lambda>a.
     kthen (upd_as nas (\<lambda>x. x\<lparr> as_utrap_entry := as_utrap_entry a, as_utrap_stack_base := as_utrap_stack_base a,
                               as_utrap_stack_top := as_utrap_stack_top a \<rparr>))
       (kret nas))))"

text \<open>\<^verbatim>\<open>as_switch(0)\<close>, which is all that \<^verbatim>\<open>as_swapout\<close> needs of \<^verbatim>\<open>as_switch\<close>.\<close>

definition as_switch_none :: "unit kernel" where
  "as_switch_none = kthen (kmod (\<lambda>s. s\<lparr> cur_as := 0 \<rparr>)) (pmap_set_current 0)"

definition as_swapout :: "ptr \<Rightarrow> unit kernel" where
  "as_swapout as =
     kbind (kget (\<lambda>s. (cur_pgmap s, as_pgmap (aspace (ks_obj s as))))) (\<lambda>(cur, pgmap).
     kthen (kwhen (cur = pgmap) as_switch_none)
    (kthen (kwhen (pgmap \<noteq> 0)
       (kthen (kmust (page_map_traverse pgmap 0 ULIM False (\<lambda>ptep va _. as_arch_page_invalidate_cb pgmap ptep va) ()))
          (page_map_free pgmap)))
    (kbind (as_nents as) (\<lambda>n.
     kthen (kfor (\<lambda>i. ktry (as_get_segmap as (of_nat i)) (\<lambda>r. case r of Inl _ \<Rightarrow> kret () | Inr sm \<Rightarrow> sm_detach sm)) [0..<unat n])
       (pagetree_free (PtSegmap as) False)))))"

definition as_gc :: "ptr \<Rightarrow> unit kernel" where
  "as_gc as = as_swapout as"

definition as_invalidate :: "ptr \<Rightarrow> unit kernel" where
  "as_invalidate as = kthen (kobject_dirty as) (kthen (as_swapout as) (as_swapin as))"

subsection \<open>Page faults\<close>

definition PGOFF :: "u64 \<Rightarrow> u64" where
  "PGOFF va = va AND (PGSIZE - 1)"

definition as_courtesy_pages :: u64 where
  "as_courtesy_pages = 8"

definition as_va_to_segment_page :: "u_segment_mapping \<Rightarrow> u64 \<Rightarrow> u64 kernel" where
  "as_va_to_segment_page usm va =
     (let first = ROUNDDOWN (usm_va usm) PGSIZE; mapping_page = (va - first) div PGSIZE
      in kthen (kassert (va \<ge> first \<and> va < first + usm_num_pages usm * PGSIZE))
          (kret (usm_start_page usm +
             (if usm_flags usm AND SEGMAP_REVERSE_PAGES \<noteq> 0 then usm_num_pages usm - mapping_page - 1 else mapping_page))))"

text \<open>Whether a page around the faulting one is left for later: it would have to be copied first, or is not there.\<close>

definition courtesy_skip :: "ptr \<Rightarrow> u64 \<Rightarrow> unit option kernel" where
  "courtesy_skip ko segpage =
     kbind (hd_of ko) (\<lambda>h.
     if segpage \<ge> kobject_npages h then kret (Some ())
     else ktry (pagetree_get_page (PtActive ko) segpage page_shared_ro) (\<lambda>r.
       case r of
         Inl _ \<Rightarrow> kret (Some ())
       | Inr (pp, _) \<Rightarrow>
           if pp = 0 then kret (Some ())
           else kbind (pi_of pp) (\<lambda>ptp.
             kret (if pi_ref ptp > 1 + pi_write_shared_ref ptp then Some () else None))))"

text \<open>
  The page of the object that is to be mapped. A frame buffer is named by the index in the device object, which nothing here compares
  with the length of the array \<^verbatim>\<open>fbdevs\<close>; an access outside the array is a panic of the model.
\<close>

definition device_fb :: u8 where "device_fb = 1"

definition mapped_page :: "ptr \<Rightarrow> u64 \<Rightarrow> u32 \<Rightarrow> ptr kernel" where
  "mapped_page ko segpage usmflags =
     kbind (obj ko) (\<lambda>k.
     case ko_type (hdr k) of
       kobj_segment \<Rightarrow>
         kobject_get_page ko segpage (if usmflags AND SEGMAP_WRITE \<noteq> 0 then page_excl_dirty_later else page_shared_ro)
     | kobj_device \<Rightarrow>
         if dv_type (dv k) \<noteq> device_fb then kerr E_INVAL
         else kbind (kget fbdevs) (\<lambda>devs.
           if length devs \<le> unat (dv_idx (dv k)) then kpanic
           else case devs ! unat (dv_idx (dv k)) of
             None \<Rightarrow> kerr E_INVAL
           | Some fbdev \<Rightarrow>
               if segpage \<ge> fb_npages fbdev then kerr E_INVAL
               else kret (pa2kva (fb_base fbdev + segpage * PGSIZE)))
     | _ \<Rightarrow> kerr E_INVAL)"

text \<open>One round of the loop: only a failure for the faulting page itself is an error.\<close>

definition fill_page :: "ptr \<Rightarrow> ptr \<Rightarrow> u_segment_mapping \<Rightarrow> u64 \<Rightarrow> u32 \<Rightarrow> u64 \<Rightarrow> unit kernel" where
  "fill_page as ko usm need_va usmflags va =
     kbind (as_va_to_segment_page usm va) (\<lambda>segpage.
     kbind (hd_of ko) (\<lambda>h.
     kbind (if va \<noteq> need_va \<and> usmflags AND SEGMAP_WRITE \<noteq> 0 \<and> ko_type h = kobj_segment
            then courtesy_skip ko segpage else kret None) (\<lambda>skip.
     if skip \<noteq> None then kret ()
     else
       ktry (kbind (mapped_page ko segpage usmflags) (\<lambda>pp.
             kbind (kget (\<lambda>s. as_pgmap (aspace (ks_obj s as)))) (\<lambda>pgmap.
             kthen (as_arch_putpage pgmap va pp usmflags) (kret pp)))) (\<lambda>r.
       case r of
         Inl e \<Rightarrow> if va \<noteq> need_va then kret () else kerr e
       | Inr pp \<Rightarrow>
           kbind (kget (\<lambda>s. has_pageinfo s pp)) (\<lambda>has.
           kwhen has (upd_pi pp (\<lambda>pi. pi\<lparr> pi_seg := ko_id h, pi_segpg := segpage \<rparr>)))))))"

text \<open>The pages the loop goes through: the mapped range, cut to \<^verbatim>\<open>as_courtesy_pages\<close> on both sides of the faulting page.\<close>

definition fill_vas :: "u64 \<Rightarrow> u64 \<Rightarrow> u64 \<Rightarrow> u64 list" where
  "fill_vas usm_first usm_last need_va =
     (let map_first = (if need_va - usm_first > as_courtesy_pages * PGSIZE then need_va - as_courtesy_pages * PGSIZE else usm_first);
          map_last = (if usm_last - need_va > as_courtesy_pages * PGSIZE then need_va + as_courtesy_pages * PGSIZE else usm_last)
      in map (\<lambda>i. map_first + of_nat i * PGSIZE) [0..<Suc (unat ((map_last - map_first) div PGSIZE))])"

definition sm_attach :: "ptr \<Rightarrow> ptr \<Rightarrow> smloc \<Rightarrow> u32 \<Rightarrow> unit kernel" where
  "sm_attach as ko sm usmflags =
     kthen (upd_sm sm (\<lambda>m. m\<lparr> sm_as := as, sm_ko := ko,
              sm_rw_mappings := (if usmflags AND SEGMAP_WRITE \<noteq> 0 then True else sm_rw_mappings m) \<rparr>))
    (kbind (hd_of ko) (\<lambda>h.
     kthen (case ko_type h of
         kobj_segment \<Rightarrow> kthen (kobject_dirty ko) (upd_obj ko (\<lambda>k. k\<lparr> sg_segmap_list := sm # sg_segmap_list k \<rparr>))
       | kobj_device \<Rightarrow> kthen (kobject_dirty ko)
           (upd_obj ko (\<lambda>k. k\<lparr> dv := (dv k)\<lparr> dv_segmap_list := sm # dv_segmap_list (dv k) \<rparr> \<rparr>))
       | _ \<Rightarrow> kpanic)
       (kobject_pin_page ko)))"

definition as_pmap_fill_kobj :: "ptr \<Rightarrow> ptr \<Rightarrow> smloc \<Rightarrow> usmloc \<Rightarrow> u64 \<Rightarrow> u32 \<Rightarrow> unit kernel" where
  "as_pmap_fill_kobj as ko sm usml need_va usmflags =
     kbind (usm_read usml) (\<lambda>usm.
     if usm_num_pages usm = 0 then kerr E_INVAL
     else let need_va = ROUNDDOWN need_va PGSIZE; usm_first = ROUNDDOWN (usm_va usm) PGSIZE;
              (off, ov1) = safe_mul64 (usm_num_pages usm - 1) PGSIZE; (usm_last, ov2) = safe_add64 usm_first off
          in if ov1 \<or> ov2 \<or> PGOFF (usm_va usm) \<noteq> 0 then kerr E_INVAL
             else
               kthen (kassert (need_va \<ge> usm_first \<and> need_va \<le> usm_last))
              (kthen (sm_detach sm)
              (kthen (upd_sm sm (\<lambda>m. m\<lparr> sm_ko := 0 \<rparr>))
              (ktry (kfor (fill_page as ko usm need_va usmflags) (fill_vas usm_first usm_last need_va)) (\<lambda>r.
               case r of
                 Inr _ \<Rightarrow> sm_attach as ko sm usmflags
               | Inl e \<Rightarrow>
                   kbind (kget (\<lambda>s. as_pgmap (aspace (ks_obj s as)))) (\<lambda>pgmap.
                   kthen (kmust (page_map_traverse pgmap usm_first usm_last False
                            (\<lambda>ptep va _. as_arch_page_invalidate_cb pgmap ptep va) ()))
                     (kerr e)))))))"

text \<open>
  The checks on the object of a mapping: a mapping that is writable for the user but not for the thread is
  used for reading if the fault is not a write. The result is the object and the flags that are left.
\<close>

definition mapping_object :: "u_segment_mapping \<Rightarrow> u32 \<Rightarrow> (ptr \<times> u32) kernel" where
  "mapping_object usm reqflags =
     (let flags = usm_flags usm; ref = usm_segment usm; rw = flags AND SEGMAP_WRITE \<noteq> 0
      in ktry (cobj_get ref kobj_any (if rw then iflow_rw else iflow_read)) (\<lambda>r.
         case r of
           Inr ko \<Rightarrow> kret (ko, flags)
         | Inl e \<Rightarrow>
             if e = E_LABEL \<and> rw \<and> reqflags AND SEGMAP_WRITE = 0
             then kbind (cobj_get ref kobj_any iflow_read) (\<lambda>ko. kret (ko, flags AND NOT SEGMAP_WRITE))
             else kerr e))"

text \<open>Whether a mapping is considered for a fault at \<open>va\<close>.\<close>

definition usm_covers :: "u_segment_mapping \<Rightarrow> u64 \<Rightarrow> u32 \<Rightarrow> bool" where
  "usm_covers usm va reqflags \<longleftrightarrow>
     usm_flags usm AND SEGMAP_READ \<noteq> 0 \<and> usm_flags usm AND reqflags = reqflags \<and>
     (let va_start = ROUNDDOWN (usm_va usm) PGSIZE;
          (len, ov1) = safe_mul64 (usm_num_pages usm) PGSIZE; (va_end, ov2) = safe_add64 va_start len
      in \<not> (ov1 \<or> ov2 \<or> va < va_start \<or> va \<ge> va_end))"

definition as_pmap_fill :: "ptr \<Rightarrow> u64 \<Rightarrow> u32 \<Rightarrow> unit kernel" where
  "as_pmap_fill as va reqflags =
     kbind (as_nents as) (\<lambda>n.
     kbind (kfind (\<lambda>i.
       kbind (as_get_usegmap as (of_nat i) page_shared_ro) (\<lambda>usml.
       kbind (usm_read usml) (\<lambda>usm.
       if \<not> usm_covers usm va reqflags then kret None
       else
         kbind (mapping_object usm reqflags) (\<lambda>(ko, flags).
         kbind (hd_of ko) (\<lambda>h.
         if ko_type h \<noteq> kobj_segment \<and> ko_type h \<noteq> kobj_device then kerr E_INVAL
         else
           kbind (as_get_segmap as (of_nat i)) (\<lambda>sm.
           kthen (upd_sm sm (\<lambda>m. m\<lparr> sm_as_slot := of_nat i, sm_ct_id := cobj_container (usm_segment usm) \<rparr>))
          (kthen (as_pmap_fill_kobj as ko sm usml va flags) (kret (Some ())))))))))
       [0..<unat n]) (\<lambda>r.
     case r of Some _ \<Rightarrow> kret () | None \<Rightarrow> kerr E_NOT_FOUND))"

definition as_pagefault :: "ptr \<Rightarrow> u64 \<Rightarrow> u32 \<Rightarrow> unit kernel" where
  "as_pagefault as va reqflags =
     kbind (kget (\<lambda>s. as_pgmap (aspace (ks_obj s as)))) (\<lambda>pgmap.
     kthen (kwhen (pgmap = 0)
       (kthen (kobject_dirty as)
       (kbind page_map_alloc (\<lambda>pm.
        kbind (kget (\<lambda>s. ks_obj s (cur_thread s))) (\<lambda>t.
        upd_as as (\<lambda>a. a\<lparr> as_pgmap := pm, as_pgmap_tls_id := th_sg (th t),
                          as_pgmap_label_id := ko_label (hdr t) kolabel_tracking \<rparr>))))))
       (as_pmap_fill as va reqflags))"

subsection \<open>Switching address spaces\<close>

definition as_switch_check :: "ptr \<Rightarrow> bool \<Rightarrow> bool \<Rightarrow> nat \<Rightarrow> unit kernel" where
  "as_switch_check as invalidate_tls check_label i =
     kbind (as_get_segmap as (of_nat i)) (\<lambda>sm.
     kbind (sm_of sm) (\<lambda>m.
     kwhen (sm_ko m \<noteq> 0)
       (kbind (as_get_usegmap as (of_nat i) page_shared_ro) (\<lambda>usml.
        kbind (usm_read usml) (\<lambda>usm.
        let tls = (invalidate_tls \<and> cobj_object (usm_segment usm) = kobject_id_thread_sg)
        in kbind (if check_label \<and> \<not> tls
                  then ktry (cobj_get (usm_segment usm) kobj_segment
                         (if usm_flags usm AND SEGMAP_WRITE \<noteq> 0 then iflow_rw else iflow_read)) (\<lambda>r.
                       case r of Inl _ \<Rightarrow> kret True | Inr _ \<Rightarrow> kret False)
                  else kret tls) (\<lambda>do_invalidate.
           kwhen do_invalidate
             (kbind (sm_of sm) (\<lambda>m. kthen (kassert (sm_as m = as)) (as_invalidate_sm sm)))))))))"

definition as_switch_invalidate :: "ptr \<Rightarrow> bool \<Rightarrow> bool \<Rightarrow> unit kernel" where
  "as_switch_invalidate as invalidate_tls check_label =
     kwhen (invalidate_tls \<or> check_label)
       (kbind (as_nents as) (\<lambda>n.
        ktry (kfor (as_switch_check as invalidate_tls check_label) [0..<unat n]) (\<lambda>r.
        case r of Inl _ \<Rightarrow> as_invalidate as | Inr _ \<Rightarrow> kret ())))"

definition as_switch :: "ptr \<Rightarrow> unit kernel" where
  "as_switch as =
     kbind (kget (\<lambda>s. (cur_thread s, ks_obj s (cur_thread s)))) (\<lambda>(cur, t).
     let cur_tls = th_sg (th t); cur_lbl = ko_label (hdr t) kolabel_tracking
     in kthen (kwhen (as \<noteq> 0 \<and> cur \<noteq> 0)
          (kbind (kget (\<lambda>s. aspace (ks_obj s as))) (\<lambda>a.
           kthen (as_switch_invalidate as (as_pgmap_tls_id a \<noteq> cur_tls) (as_pgmap_label_id a \<noteq> cur_lbl))
          (kthen (kobject_dirty as)
             (upd_as as (\<lambda>a. a\<lparr> as_pgmap_tls_id := cur_tls, as_pgmap_label_id := cur_lbl \<rparr>))))))
       (kbind (kget (\<lambda>s. if as \<noteq> 0 then as_pgmap (aspace (ks_obj s as)) else 0)) (\<lambda>new_pgmap.
        kthen (kmod (\<lambda>s. s\<lparr> cur_as := as \<rparr>)) (pmap_set_current new_pgmap))))"

definition as_collect_dirty_sm :: "smloc \<Rightarrow> unit kernel" where
  "as_collect_dirty_sm sm =
     kbind (sm_of sm) (\<lambda>m.
     kwhen (sm_rw_mappings m)
       (kbind (kmust (as_get_usegmap (sm_as m) (sm_as_slot m) page_shared_ro)) (\<lambda>usml.
        kbind (usm_read usml) (\<lambda>usm.
        kbind (kget (\<lambda>s. as_pgmap (aspace (ks_obj s (sm_as m))))) (\<lambda>pgmap.
        kmust (page_map_traverse pgmap (usm_va usm) (usm_last_va usm) False
                 (\<lambda>ptep va _. as_arch_collect_dirty_bits pgmap ptep va) ()))))))"

definition as_map_ro_sm :: "smloc \<Rightarrow> unit kernel" where
  "as_map_ro_sm sm =
     kbind (sm_of sm) (\<lambda>m.
     kwhen (sm_rw_mappings m)
       (kbind (kmust (as_get_usegmap (sm_as m) (sm_as_slot m) page_shared_ro)) (\<lambda>usml.
        kbind (usm_read usml) (\<lambda>usm.
        kbind (kget (\<lambda>s. as_pgmap (aspace (ks_obj s (sm_as m))))) (\<lambda>pgmap.
        kthen (kmust (page_map_traverse pgmap (usm_va usm) (usm_last_va usm) False
                 (\<lambda>ptep va _. as_arch_page_map_ro_cb pgmap ptep va) ()))
          (upd_sm sm (\<lambda>m. m\<lparr> sm_rw_mappings := False \<rparr>)))))))"

text \<open>
  From an address back to a segment and an offset: by the hardware page table if the page is mapped writable, otherwise by
  the mappings, if just one has the address. \<^verbatim>\<open>pgdir_walk\<close> gives no entry for an address without a page, and the source looks at the
  entry all the same.
\<close>

definition invert_pte :: "ptr \<Rightarrow> u64 \<Rightarrow> (u64 \<times> u64) option kernel" where
  "invert_pte pgmap addr =
     ktry (pgdir_walk pgmap addr False) (\<lambda>r.
     case r of
       Inl _ \<Rightarrow> kret None
     | Inr None \<Rightarrow> kpanic
     | Inr (Some ptep) \<Rightarrow>
         kbind (pte_read ptep) (\<lambda>pte.
         kbind (kget (\<lambda>s. (has_pageinfo s (pa2kva (PTE_ADDR pte)), ks_pi s (pa2kva (PTE_ADDR pte))))) (\<lambda>(has, pi).
         kret (if pte \<noteq> 0 \<and> has \<and> pi_hw_write_pin pi \<noteq> 0 then Some (pi_seg pi, pi_segpg pi * PGSIZE + PGOFF addr) else None))))"

definition invert_slot :: "ptr \<Rightarrow> u64 \<Rightarrow> nat \<Rightarrow> (u64 \<times> u64) list \<Rightarrow> (u64 \<times> u64) list kernel" where
  "invert_slot as addr i found =
     kbind (as_get_segmap as (of_nat i)) (\<lambda>sm.
     kbind (sm_of sm) (\<lambda>m.
     if sm_ko m = 0 then kret found
     else
       kbind (as_get_usegmap as (of_nat i) page_shared_ro) (\<lambda>usml.
       kbind (usm_read usml) (\<lambda>usm.
       let va_start = ROUNDDOWN (usm_va usm) PGSIZE; va_end = va_start + usm_num_pages usm * PGSIZE
       in if addr < va_start \<or> addr \<ge> va_end then kret found
          else kbind (as_va_to_segment_page usm addr) (\<lambda>npage.
            kret ((cobj_object (usm_segment usm), npage * PGSIZE + PGOFF addr) # found))))))"

definition as_invert_mapped :: "ptr \<Rightarrow> u64 \<Rightarrow> (u64 \<times> u64) kernel" where
  "as_invert_mapped as addr =
     kbind (kget (\<lambda>s. as_pgmap (aspace (ks_obj s as)))) (\<lambda>pgmap.
     kbind (if pgmap \<noteq> 0 then invert_pte pgmap addr else kret None) (\<lambda>hit.
     case hit of
       Some x \<Rightarrow> kret x
     | None \<Rightarrow>
         kbind (as_nents as) (\<lambda>n.
         kbind (kfold (invert_slot as addr) [0..<unat n] []) (\<lambda>found.
         case found of [x] \<Rightarrow> kret x | _ \<Rightarrow> kerr E_NOT_FOUND))))"

subsection \<open>Segments\<close>

definition segment_swapin :: "ptr \<Rightarrow> unit kernel" where
  "segment_swapin sg = upd_obj sg (\<lambda>k. k\<lparr> sg_segmap_list := [] \<rparr>)"

definition segment_alloc :: "ptr \<Rightarrow> ptr kernel" where
  "segment_alloc l = kbind (kobject_alloc kobj_segment l 0) (\<lambda>sg. kthen (segment_swapin sg) (kret sg))"

definition segment_copy :: "ptr \<Rightarrow> ptr \<Rightarrow> ptr kernel" where
  "segment_copy src newl =
     kbind (segment_alloc newl) (\<lambda>dst.
     kthen (segment_invalidate src 0)
    (kthen (kobject_copy_pages src dst) (kret dst)))"

definition segment_set_nbytes :: "ptr \<Rightarrow> u64 \<Rightarrow> unit kernel" where
  "segment_set_nbytes sg num_bytes =
     kbind (hd_of sg) (\<lambda>h.
     kthen (kwhen (ko_nbytes h > num_bytes)
       (kthen (segment_invalidate sg 0)
       (kbind (hd_of sg) (\<lambda>h. if ko_pin_pg h \<noteq> 0 then kerr E_BUSY else kret ()))))
    (kbind (hd_of sg) (\<lambda>h. kwhen (ko_nbytes h \<noteq> num_bytes) (kobject_set_nbytes sg num_bytes))))"

definition segment_map_ro :: "ptr \<Rightarrow> unit kernel" where
  "segment_map_ro sg = kbind (kget (\<lambda>s. sg_segmap_list (ks_obj s sg))) (kfor as_map_ro_sm)"

definition segment_collect_dirty :: "ptr \<Rightarrow> unit kernel" where
  "segment_collect_dirty sg = kbind (kget (\<lambda>s. sg_segmap_list (ks_obj s sg))) (kfor as_collect_dirty_sm)"

subsection \<open>The page of a segment behind an address\<close>

lemma unat_ROUNDDOWN_PGSIZE: "unat (ROUNDDOWN a PGSIZE) = unat a - unat a mod 4096"
proof -
  have "unat (a mod PGSIZE) = unat a mod 4096" by (simp add: unat_mod PGSIZE_def)
  moreover have "a mod PGSIZE \<le> a" by (simp add: word_le_nat_alt unat_mod)
  ultimately show ?thesis by (simp add: ROUNDDOWN_def unat_sub)
qed

lemma page_of_offset:
  fixes f v :: nat
  assumes "f mod 4096 = 0" "f \<le> v"
  shows "(v - f) div 4096 = v div 4096 - f div 4096"
proof -
  obtain k where f: "f = 4096 * k" using assms(1) by (auto simp: mod_eq_0_iff_dvd)
  obtain d where "v = f + d" using assms(2) le_Suc_ex by blast
  then show ?thesis by (simp add: f)
qed

text \<open>The mapping page of an address, as a number: how many pages it is into the mapping.\<close>

definition mapping_page :: "u_segment_mapping \<Rightarrow> u64 \<Rightarrow> nat" where
  "mapping_page usm va = unat va div 4096 - unat (usm_va usm) div 4096"

lemma usm_covers_range:
  assumes "usm_covers usm va flags"
  shows "unat (ROUNDDOWN (usm_va usm) PGSIZE) + unat (usm_num_pages usm) * 4096 < 2 ^ 64"
    "unat (ROUNDDOWN (usm_va usm) PGSIZE) \<le> unat va"
    "unat va < unat (ROUNDDOWN (usm_va usm) PGSIZE) + unat (usm_num_pages usm) * 4096"
proof -
  obtain len ov1 where len: "safe_mul64 (usm_num_pages usm) PGSIZE = (len, ov1)" by fastforce
  obtain e ov2 where e: "safe_add64 (ROUNDDOWN (usm_va usm) PGSIZE) len = (e, ov2)" by fastforce
  have c: "\<not> ov1" "\<not> ov2" "ROUNDDOWN (usm_va usm) PGSIZE \<le> va" "va < e"
    using assms by (auto simp: usm_covers_def Let_def len e)
  have "unat len = unat (usm_num_pages usm) * 4096"
    using safe_mul64_exact [OF len] c(1) by (simp add: PGSIZE_def)
  moreover have "unat e = unat (ROUNDDOWN (usm_va usm) PGSIZE) + unat len" "unat (ROUNDDOWN (usm_va usm) PGSIZE) + unat len < 2 ^ 64"
    using safe_add64_exact [OF e] c(2) by auto
  ultimately show "unat (ROUNDDOWN (usm_va usm) PGSIZE) + unat (usm_num_pages usm) * 4096 < 2 ^ 64"
    "unat (ROUNDDOWN (usm_va usm) PGSIZE) \<le> unat va"
    "unat va < unat (ROUNDDOWN (usm_va usm) PGSIZE) + unat (usm_num_pages usm) * 4096"
    using c(3,4) by (simp_all add: word_le_nat_alt word_less_nat_alt)
qed

text \<open>The page of the segment, counted from the first page of the mapping.\<close>

definition segment_index :: "u_segment_mapping \<Rightarrow> u64 \<Rightarrow> nat" where
  "segment_index usm va = (if usm_flags usm AND SEGMAP_REVERSE_PAGES \<noteq> 0 then unat (usm_num_pages usm) - mapping_page usm va - 1 else mapping_page usm va)"

lemma as_va_to_segment_page_run:
  assumes "usm_covers usm va flags"
  shows "mapping_page usm va < unat (usm_num_pages usm)" "unat (usm_va usm) div 4096 \<le> unat va div 4096"
    "as_va_to_segment_page usm va s = (Ret (usm_start_page usm + of_nat (segment_index usm va)), s)"
proof -
  let ?f = "ROUNDDOWN (usm_va usm) PGSIZE" and ?n = "usm_num_pages usm" and ?m = "mapping_page usm va"
  note r = usm_covers_range [OF assms(1)]
  have f: "unat ?f mod 4096 = 0" "unat ?f div 4096 = unat (usm_va usm) div 4096"
    by (simp_all add: unat_ROUNDDOWN_PGSIZE minus_mod_eq_mult_div)
  have m: "(unat va - unat ?f) div 4096 = ?m" using page_of_offset [OF f(1) r(2)] by (simp add: f(2) mapping_page_def)
  show lt: "?m < unat ?n" using r(2,3) by (simp add: m [symmetric] div_less_iff_less_mult)
  show "unat (usm_va usm) div 4096 \<le> unat va div 4096" using div_le_mono [OF r(2), of 4096] by (simp add: f(2))
  have page: "unat ((va - ?f) div PGSIZE) = ?m"
    using r(2) m by (simp add: unat_div unat_sub word_le_nat_alt PGSIZE_def)
  have "unat (?n * PGSIZE) = unat ?n * 4096" using r(1) by (subst unat_mult_lem [THEN iffD1]) (simp_all add: PGSIZE_def)
  then have "unat (?f + ?n * PGSIZE) = unat ?f + unat ?n * 4096" using r(1) by (subst unat_add_lem [THEN iffD1]) simp_all
  then have in_range: "?f \<le> va" "va < ?f + ?n * PGSIZE" using r(2,3) by (simp_all add: word_le_nat_alt word_less_nat_alt)
  have w: "(va - ?f) div PGSIZE = of_nat ?m" unfolding page [symmetric] by simp
  have "?n - of_nat ?m - 1 = of_nat (unat ?n - ?m - 1)" using lt by (simp add: of_nat_diff)
  then show "as_va_to_segment_page usm va s = (Ret (usm_start_page usm + of_nat (segment_index usm va)), s)"
    using in_range by (simp add: as_va_to_segment_page_def Let_def kret_def kthen_case kassert_def segment_index_def w)
qed

text \<open>C21: Translating an address that a mapping covers to a page of the segment. The translation succeeds and gives the first page of the mapping plus an index (a 64-bit
  sum, which may wrap around) below the number of pages of the mapping: the index of the address's page in the mapping, counted from the end if the mapping runs backwards.
  Two addresses get the same page exactly if they are on the same page of the address space. If the range of pages of the mapping does not wrap
  around, which the kernel does not check, the page is in that range.\<close>

theorem as_va_to_segment_page_bounds:
  assumes "usm_covers usm va flags" "usm_covers usm va' flags"
  shows "as_va_to_segment_page usm va s = (Ret (usm_start_page usm + of_nat (segment_index usm va)), s) \<and>
    segment_index usm va < unat (usm_num_pages usm) \<and>
    (as_va_to_segment_page usm va s = as_va_to_segment_page usm va' s \<longleftrightarrow> unat va div 4096 = unat va' div 4096) \<and>
    (unat (usm_start_page usm) + unat (usm_num_pages usm) \<le> 2 ^ 64 \<longrightarrow>
       unat (usm_start_page usm + of_nat (segment_index usm va) :: u64) = unat (usm_start_page usm) + segment_index usm va)"
proof -
  note a = as_va_to_segment_page_run [OF assms(1)] and b = as_va_to_segment_page_run [OF assms(2)]
  have lt: "segment_index usm va < unat (usm_num_pages usm)" "segment_index usm va' < unat (usm_num_pages usm)"
    using a(1) b(1) by (auto simp: segment_index_def)
  then have u: "unat (of_nat (segment_index usm va) :: u64) = segment_index usm va" "unat (of_nat (segment_index usm va') :: u64) = segment_index usm va'"
    using unat_less_exp [of "usm_num_pages usm"] by (simp_all add: unat_of_nat take_bit_nat_eq_self)
  have "as_va_to_segment_page usm va s = as_va_to_segment_page usm va' s \<longleftrightarrow> segment_index usm va = segment_index usm va'"
    using a(3) b(3) u by (auto simp: word_unat_eq_iff [where v = "of_nat _"])
  also have "\<dots> \<longleftrightarrow> mapping_page usm va = mapping_page usm va'" using a(1) b(1) by (auto simp: segment_index_def)
  also have "\<dots> \<longleftrightarrow> unat va div 4096 = unat va' div 4096" using a(2) b(2) by (simp add: mapping_page_def eq_diff_iff)
  finally have inj: "as_va_to_segment_page usm va s = as_va_to_segment_page usm va' s \<longleftrightarrow> unat va div 4096 = unat va' div 4096" .
  have "unat (usm_start_page usm + of_nat (segment_index usm va) :: u64) = unat (usm_start_page usm) + segment_index usm va"
    if "unat (usm_start_page usm) + unat (usm_num_pages usm) \<le> 2 ^ 64"
    using that lt(1) u(1) by (subst unat_add_lem [THEN iffD1]) simp_all
  then show ?thesis using a(3) lt(1) inj by blast
qed

theorem as_va_to_segment_page_bounds_witness:
  "as_va_to_segment_page \<lparr> usm_segment = COBJ 1 2, usm_start_page = 10, usm_num_pages = 3, usm_kslot = 0, usm_flags = 0xc, usm_va = 0x5000 \<rparr> 0x5010 kstate0 \<noteq>
    as_va_to_segment_page \<lparr> usm_segment = COBJ 1 2, usm_start_page = 10, usm_num_pages = 3, usm_kslot = 0, usm_flags = 0xc, usm_va = 0x5000 \<rparr> 0x7ff8 kstate0"
proof -
  let ?u = "\<lparr> usm_segment = COBJ 1 2, usm_start_page = 10, usm_num_pages = 3, usm_kslot = 0, usm_flags = 0xc, usm_va = 0x5000 \<rparr>"
  have "usm_covers ?u 0x5010 0" "usm_covers ?u 0x7ff8 0"
    by (simp_all add: usm_covers_def safe_mul64_def safe_add64_def ROUNDDOWN_def PGSIZE_def SEGMAP_READ_def)
  then show ?thesis using as_va_to_segment_page_bounds [of ?u "0x5010" 0 "0x7ff8" kstate0] by auto
qed

subsection \<open>Who may map an object\<close>

lemma iflow_ready_after:
  assumes "iflow_ready s ko" "checks n s s'" "cache_sound s'" "unat (compare_cache_next s) + n + 3 < 2 ^ 31"
  shows "iflow_ready s' ko"
proof -
  have "has_label s' = has_label s"
    by (simp add: fun_eq_iff has_label_def checks_frame [OF assms(2)] flow_ok_frame(2) [OF assms(2)])
  moreover have "unat (compare_cache_next s') + 3 < 2 ^ 31" using assms(2,4) by (simp add: checks_def)
  ultimately show ?thesis using assms(1,3) by (simp add: iflow_ready_def checks_frame [OF assms(2)])
qed

lemma kobject_get_in_core:
  assumes "kobject_get kid ty iflow s = (r, s')" "kid \<noteq> kobject_id_thread_sg" "ko_find s kid = Some ko"
    "ko_type (hdr (ks_obj s ko)) \<noteq> kobj_label" "iflow_ready s ko"
  shows "checks 3 s s'" "cache_sound s'"
proof -
  obtain r1 s1 where c: "kobject_iflow_check ko iflow s = (r1, s1)" by fastforce
  have "checks 3 s s1 \<and> cache_sound s1" "checks 3 s s \<and> cache_sound s"
    using iflow_check_decides [OF assms(5), of iflow] c assms(5)
    by (auto simp: decides_def checks_def iflow_ready_def split: if_splits)
  moreover have "s' = s1 \<or> s' = s"
    using assms(1-4) c
    by (auto simp: kobject_get_def kobject_get_via_def kobject_translate_id_def kbind_def kret_def kerr_def kthen_case hd_of_def
        split: if_splits outcome.splits prod.splits)
  ultimately show "checks 3 s s'" "cache_sound s'" by blast+
qed

lemma cobj_get_label_steps:
  assumes "cobj_get ref ty iflow s = (Err E_LABEL, s')"
  obtains r0 where "kobject_get (cobj_object ref) ty iflow s = (r0, s')"
  | r0 s1 c where "kobject_get (cobj_object ref) ty iflow s = (r0, s1)" "container_find (cobj_container ref) iflow_read s1 = (Ret c, s')"
  | r0 s1 c s2 r where "kobject_get (cobj_object ref) ty iflow s = (r0, s1)" "container_find (cobj_container ref) iflow_read s1 = (Ret c, s2)"
      "container_slot_find c (cobj_object ref) page_shared_ro s2 = (r, s')"
  using assms
  by (auto simp: cobj_get_def kbind_get Let_def hd_of_def kret_def kerr_def ktry_def kthen_case split: if_splits outcome.splits prod.splits)

text \<open>A reference to an object and a container that are both in memory, with everything the checks need.\<close>

definition ref_ready :: "kstate \<Rightarrow> cobj_ref \<Rightarrow> ptr \<Rightarrow> ptr \<Rightarrow> bool" where
  "ref_ready s ref ko c \<longleftrightarrow> cobj_object ref \<noteq> kobject_id_thread_sg \<and> cobj_container ref \<noteq> kobject_id_thread_sg \<and>
     ko_find s (cobj_object ref) = Some ko \<and> ko_type (hdr (ks_obj s ko)) \<noteq> kobj_label \<and> iflow_ready s ko \<and>
     ko_find s (cobj_container ref) = Some c \<and> ko_type (hdr (ks_obj s c)) \<noteq> kobj_label \<and> iflow_ready s c \<and> container_backed s c"

lemma cobj_get_refused:
  assumes "cobj_get ref ty iflow s = (Err E_LABEL, s')" "ref_ready s ref ko c" "unat (compare_cache_next s) + 6 < 2 ^ 31"
  shows "checks 6 s s'" "cache_sound s'"
proof -
  note rr = assms(2) [unfolded ref_ready_def]
  have obj: "checks 3 s s1" "cache_sound s1" if "kobject_get (cobj_object ref) ty iflow s = (r0, s1)" for r0 s1
    using kobject_get_in_core [OF that] rr by blast+
  have ct: "checks 6 s s2" "cache_sound s2" "c' = c"
    if "kobject_get (cobj_object ref) ty iflow s = (r0, s1)" "container_find (cobj_container ref) iflow_read s1 = (Ret c', s2)" for r0 s1 c' s2
  proof -
    note o = obj [OF that(1)]
    have r: "iflow_ready s1 c" by (rule iflow_ready_after [OF _ o]) (use rr assms(3) in auto)
    have k: "kobject_get (cobj_container ref) kobj_container iflow_read s1 = (Ret c', s2)" using that(2) by (simp add: container_find_def)
    show "c' = c" using kobject_get_found [OF k] rr by (simp add: checks_frame [OF o(1)])
    have "checks 3 s1 s2" "cache_sound s2" using kobject_get_in_core [OF k _ _ _ r] rr by (simp_all add: checks_frame [OF o(1)])
    then show "checks 6 s s2" "cache_sound s2" using checks_trans [OF o(1), of 3 s2] by simp_all
  qed
  have "checks 6 s s' \<and> cache_sound s'"
    using assms(1)
  proof (cases rule: cobj_get_label_steps)
    case (1 r0)
    then show ?thesis using obj checks_mono [of 3 s s' 6] by auto
  next
    case (2 r0 s1 c')
    then show ?thesis using ct by blast
  next
    case (3 r0 s1 c' s2 r)
    note f = ct [OF 3(1,2)]
    have "container_backed s2 c" using rr checks_container(2) [OF f(1)] by blast
    then have "reads s2 s'" using container_slot_find_returns [of s2 c "cobj_object ref"] 3(3) f(3) by (auto simp: returns_def)
    then show ?thesis using checks_trans [OF f(1) reads_checks] reads_cache_sound f(2) by auto
  qed
  then show "checks 6 s s'" "cache_sound s'" by blast+
qed

lemma and_not_disjoint: "a AND w = 0 \<Longrightarrow> a AND NOT w = (a :: 'a :: len word)"
  by (simp add: bit_eq_iff bit_simps) blast

lemma cobj_get_flow:
  assumes "cobj_get ref ty iflow s = (Ret ko', s')" "ref_ready s ref ko c"
  shows "ko' = ko \<and> flow_ok s (cur_thread s) ko iflow \<and> (iflow = iflow_rw \<longrightarrow> \<not> has_flag (ko_flags (hdr (ks_obj s ko))) KOBJ_READONLY)"
proof -
  obtain s1 where k: "kobject_get (cobj_object ref) ty iflow s = (Ret ko', s1)" using assms(1) by (rule cobj_get_steps) blast+
  have "ko' = ko" using kobject_get_found [OF k] assms(2) by (simp add: ref_ready_def)
  then show ?thesis using kobject_get_checked(3,4) [OF k] assms(2) by (simp add: ref_ready_def)
qed

text \<open>C13: A mapping is used for an object only as the labels allow: with write access only if the thread may write the object and the
  object is not read-only, otherwise if it may read it. Dropping write access is the only change to the flags of the mapping, and
  the access that was asked for is always among those that are left.\<close>

theorem mapping_object_authorized:
  assumes "mapping_object usm reqflags s = (Ret (ko', fl), t)" "usm_covers usm va reqflags" "ref_ready s (usm_segment usm) ko c"
    "unat (compare_cache_next s) + 9 < 2 ^ 31"
  shows "ko' = ko \<and> fl AND reqflags = reqflags \<and> (fl = usm_flags usm \<or> fl = usm_flags usm AND NOT SEGMAP_WRITE) \<and>
    (if fl AND SEGMAP_WRITE \<noteq> 0
     then flow_ok s (cur_thread s) ko iflow_rw \<and> \<not> has_flag (ko_flags (hdr (ks_obj s ko))) KOBJ_READONLY
     else flow_ok s (cur_thread s) ko iflow_read)"
proof -
  let ?ref = "usm_segment usm" and ?rw = "usm_flags usm AND SEGMAP_WRITE \<noteq> 0"
  have fr: "usm_flags usm AND reqflags = reqflags" using assms(2) by (simp add: usm_covers_def)
  consider (direct) "cobj_get ?ref kobj_any (if ?rw then iflow_rw else iflow_read) s = (Ret ko', t)" "fl = usm_flags usm"
    | (retry) s1 where "cobj_get ?ref kobj_any iflow_rw s = (Err E_LABEL, s1)" "cobj_get ?ref kobj_any iflow_read s1 = (Ret ko', t)"
      "fl = usm_flags usm AND NOT SEGMAP_WRITE" "reqflags AND SEGMAP_WRITE = 0"
    using assms(1) by (auto simp: mapping_object_def Let_def kret_def kerr_def ktry_def kbind_def split: if_splits outcome.splits prod.splits)
  then show ?thesis
  proof cases
    case direct
    then show ?thesis using cobj_get_flow [OF direct(1) assms(3)] fr by (auto split: if_splits)
  next
    case retry
    note f = cobj_get_refused [OF retry(1) assms(3)]
    have ch: "checks 6 s s1" "cache_sound s1" using f assms(4) by simp_all
    have "iflow_ready s1 x" if "iflow_ready s x" for x by (rule iflow_ready_after [OF that ch]) (use assms(4) in simp)
    then have "ref_ready s1 ?ref ko c" using assms(3) by (simp add: ref_ready_def checks_frame [OF ch(1)] checks_container [OF ch(1)])
    then have "ko' = ko \<and> flow_ok s (cur_thread s) ko iflow_read"
      using cobj_get_flow [OF retry(2)] by (simp add: flow_ok_frame [OF ch(1)] checks_frame [OF ch(1)])
    moreover have "fl AND SEGMAP_WRITE = 0" by (simp add: retry(3) and.assoc)
    moreover have "fl AND reqflags = reqflags"
      using fr and_not_disjoint [OF retry(4)] unfolding retry(3) by (metis and.assoc and.commute)
    ultimately show ?thesis using retry(3) by simp
  qed
qed

lemma kobject_get_any:
  assumes "kobject_get kid (ko_type (hdr (ks_obj s ko))) iflow s = (Ret ko, s')" "kid \<noteq> kobject_id_thread_sg"
  shows "kobject_get kid kobj_any iflow s = (Ret ko, s')"
  using kobject_get_found [OF assms] assms
  by (auto simp: kobject_get_def kobject_get_via_def kobject_translate_id_def kbind_def kret_def kthen_case hd_of_def split: if_splits outcome.splits prod.splits)

lemma cobj_get_holder:
  assumes "kobject_get (cobj_object ref) ty iflow s = (Ret ko, s1)" "checks 3 s s1" "cache_sound s1"
    "container_find (cobj_container ref) iflow_read s1 = (Ret c, s2)" "checks 3 s1 s2" "container_backed s c" "container_holds s c (cobj_object ref)"
  shows "\<exists>s'. cobj_get ref ty iflow s = (Ret ko, s')"
proof -
  have "container_backed s2 c" "container_holds s2 c (cobj_object ref)"
    using assms(6,7) checks_container [OF assms(2)] checks_container [OF assms(5)] by simp_all
  then obtain l s3 where "container_slot_find c (cobj_object ref) page_shared_ro s2 = (Ret l, s3)"
    using container_slot_find_returns [of s2 c "cobj_object ref"]
    by (auto simp: returns_def container_holds_def find_None_iff split: option.splits)
  then show ?thesis using assms(1,4) by (simp add: cobj_get_def Let_def kbind_get ktry_def hd_of_def kthen_case kret_def)
qed

definition read_mapping :: u_segment_mapping where
  "read_mapping = \<lparr> usm_segment = COBJ 23 22, usm_start_page = 0, usm_num_pages = 2, usm_kslot = 0, usm_flags = SEGMAP_READ, usm_va = 0x5000 \<rparr>"

theorem mapping_object_authorized_witness:
  "\<exists>t. mapping_object read_mapping 0 flow_state = (Ret (8, SEGMAP_READ), t) \<and> flow_ok flow_state 3 8 iflow_read"
proof -
  let ?s = flow_state
  have sg: "(22 :: u64) \<noteq> kobject_id_thread_sg" "(23 :: u64) \<noteq> kobject_id_thread_sg"
    by (simp_all add: kobject_id_thread_sg_def)
  have nw: "SEGMAP_READ AND SEGMAP_WRITE = (0 :: u32)" by (simp add: SEGMAP_READ_def SEGMAP_WRITE_def)
  obtain s1 where s1: "kobject_get 22 kobj_segment iflow_read ?s = (Ret 8, s1)" "checks 3 ?s s1" "cache_sound s1"
    using kobject_get_grants [of ?s 22 8 kobj_segment iflow_read] flow_state_ready
    by (auto simp: flow_state_find flow_state_hdr flow_state_ok sg has_flag_def)
  have any: "kobject_get 22 kobj_any iflow_read ?s = (Ret 8, s1)"
    using kobject_get_any [of 22 ?s 8 iflow_read s1] s1(1) sg by (simp add: flow_state_hdr)
  note f1 = checks_frame [OF s1(2)] flow_ok_frame [OF s1(2)] checks_container [OF s1(2)]
  have r1: "iflow_ready s1 9" by (rule iflow_ready_later [OF flow_state_ready(3) s1(2,3)]) (simp add: flow_state_hdr)
  have fl: "ko_flags (hdr (ks_obj s1 9)) = 0 \<or> ko_flags (hdr (ks_obj s1 9)) = KOBJ_SHARED_MAPPINGS"
    using checks_flags [OF s1(2), of 9] by (auto simp: shared_bit_def flow_state_hdr)
  obtain s2 where s2: "container_find 23 iflow_read s1 = (Ret 9, s2)" "checks 3 s1 s2"
    using kobject_get_grants [of s1 23 9 kobj_container iflow_read] r1 fl
    by (auto simp: container_find_def f1 flow_state_find flow_state_hdr flow_state_ok sg has_flag_def KOBJ_READONLY_def KOBJ_SHARED_MAPPINGS_def)
  obtain t where t: "cobj_get (COBJ 23 22) kobj_any iflow_read ?s = (Ret 8, t)"
    using cobj_get_holder [of "COBJ 23 22" kobj_any iflow_read ?s 8 s1 9 s2] any s1(2,3) s2 flow_state_container by auto
  have run: "mapping_object read_mapping 0 ?s = (Ret (8, SEGMAP_READ), t)"
    using t nw by (simp add: mapping_object_def read_mapping_def ktry_def kret_def)
  have cov: "usm_covers read_mapping 0x5010 0"
    by (simp add: usm_covers_def read_mapping_def safe_mul64_def safe_add64_def ROUNDDOWN_def PGSIZE_def SEGMAP_READ_def)
  have rdy: "ref_ready ?s (usm_segment read_mapping) 8 9"
    using flow_state_ready flow_state_container by (simp add: ref_ready_def read_mapping_def sg flow_state_find flow_state_hdr)
  have "unat (compare_cache_next ?s) + 9 < 2 ^ 31" "cur_thread ?s = 3" by (simp_all add: flow_state_hdr)
  then have "flow_ok ?s 3 8 iflow_read" using mapping_object_authorized [OF run cov rdy] nw by simp
  then show ?thesis using run by blast
qed

end
