(* ===== verification/Uaccess.thy ===== *)
theory Uaccess
  imports Aspace Labelset
begin

unbundle bit_operations_syntax

text \<open>
  Access to the memory of user programs. The kernel runs on the page table of the current address space and follows the
  user's pointers itself, after \<^verbatim>\<open>check_user_access2\<close> (\<^verbatim>\<open>src/kern/arch/amd64/pmap-x86.c\<close>) has made sure that every page of the
  range is mapped. With it the operations that read and write structures of the user: mappings of an address space
  (\<^verbatim>\<open>as.c\<close>), labels (\<^verbatim>\<open>label.c\<close>) and the words that threads wait on (\<^verbatim>\<open>sync.c\<close>).

  Results: a range that passes the check does not wrap around and lies below \<^verbatim>\<open>ULIM\<close>, where user memory ends; bytes
  split off a word join to that word again, and a segment mapping written as words is read back unchanged.
\<close>

subsection \<open>The current address space\<close>

definition thread_load_as :: "ptr \<Rightarrow> unit kernel" where
  "thread_load_as t =
     kbind (obj t) (\<lambda>ko.
     if th_as (th ko) \<noteq> 0 then kret ()
     else kbind (cobj_get (th_asref (th ko)) kobj_address_space iflow_read) (\<lambda>as.
       kthen (upd_th t (\<lambda>x. x\<lparr> th_as := as \<rparr>)) (kobject_pin_hdr as)))"

definition cur_th_as :: "ptr kernel" where
  "cur_th_as = kget (\<lambda>s. th_as (th (ks_obj s (cur_thread s))))"

text \<open>Whether the page table of the current address space has the page with all of \<open>pte_flags\<close>.\<close>

definition user_page_ok :: "u64 \<Rightarrow> u64 \<Rightarrow> bool kernel" where
  "user_page_ok va pte_flags =
     kbind (kget (\<lambda>s. as_pgmap (aspace (ks_obj s (cur_as s))))) (\<lambda>pgmap.
     if pgmap = 0 then kret False
     else kbind (page_lookup pgmap va) (\<lambda>(p, ptep).
       if p = 0 then kret False
       else kbind (pte_read (the ptep)) (\<lambda>pte. kret (pte AND pte_flags = pte_flags))))"

definition access_page :: "u32 \<Rightarrow> u64 \<Rightarrow> bool \<Rightarrow> bool kernel" where
  "access_page reqflags va aspf =
     (if va \<ge> ULIM then kerr E_INVAL
      else kbind (user_page_ok va (if reqflags AND SEGMAP_WRITE \<noteq> 0 then PTE_P OR PTE_U OR PTE_W else PTE_P OR PTE_U)) (\<lambda>ok.
        if ok then kret aspf
        else kbind (kget cur_as) (\<lambda>as. kthen (as_pagefault as va reqflags) (kret True))))"

definition check_user_access2 :: "u64 \<Rightarrow> u64 \<Rightarrow> u32 \<Rightarrow> unit kernel" where
  "check_user_access2 ptr nbytes reqflags =
     kbind (kget (\<lambda>s. (cur_thread s, cur_as s))) (\<lambda>(cur, as).
     kthen (kassert (cur \<noteq> 0))
    (kthen (kwhen (as = 0)
       (kthen (thread_load_as cur)
       (kthen (kbind cur_th_as as_switch)
          (kbind (kget cur_as) (\<lambda>as. kassert (as \<noteq> 0))))))
    (kbind (if nbytes = 0 then kret False
       else let start = ROUNDDOWN ptr PGSIZE; (e, ov) = safe_add64 ptr nbytes; stop = ROUNDUP e PGSIZE
            in if stop \<le> start \<or> ov then kerr E_INVAL
               else kfold (\<lambda>i. access_page reqflags (start + of_nat i * PGSIZE)) [0..<unat ((stop - start) div PGSIZE)] False) (\<lambda>aspf.
     kwhen aspf (kbind (kget cur_as) as_switch)))))"

subsection \<open>Loads and stores\<close>

text \<open>
  The memory management unit: an access without a page, or a write to a read-only page (write protection is on in the
  kernel), is a page fault in the kernel, which panics. A write marks the page table entry dirty.
\<close>

definition user_pte :: "u64 \<Rightarrow> (pteloc \<times> u64) kernel" where
  "user_pte va =
     kbind (kget cur_pgmap) (\<lambda>pgmap.
     if pgmap = 0 \<or> va \<ge> ULIM then kpanic
     else kbind (pgdir_walk pgmap va False) (\<lambda>r.
       case r of
         None \<Rightarrow> kpanic
       | Some ptep \<Rightarrow> kbind (pte_read ptep) (\<lambda>pte. if pte_has pte PTE_P then kret (ptep, pte) else kpanic)))"

text \<open>Words are stored with the low byte first.\<close>

definition get_byte :: "u64 list \<Rightarrow> nat \<Rightarrow> u8" where
  "get_byte ws i = ucast (drop_bit (8 * (i mod 8)) (ws ! (i div 8)))"

definition put_byte :: "u64 list \<Rightarrow> nat \<Rightarrow> u8 \<Rightarrow> u64 list" where
  "put_byte ws i b =
     ws[i div 8 := (ws ! (i div 8) AND NOT (push_bit (8 * (i mod 8)) 255)) OR push_bit (8 * (i mod 8)) (ucast b)]"

fun join_bytes :: "u8 list \<Rightarrow> u64" where
  "join_bytes [] = 0"
| "join_bytes (b # bs) = ucast b OR push_bit 8 (join_bytes bs)"

definition split_bytes :: "nat \<Rightarrow> u64 \<Rightarrow> u8 list" where
  "split_bytes n w = map (\<lambda>i. ucast (drop_bit (8 * i) w)) [0..<n]"

definition user_load8 :: "u64 \<Rightarrow> u8 kernel" where
  "user_load8 va =
     kbind (user_pte va) (\<lambda>(_, pte).
     kget (\<lambda>s. get_byte (pg_words (ks_page s (pa2kva (PTE_ADDR pte)))) (unat (PGOFF va))))"

definition user_store8 :: "u64 \<Rightarrow> u8 \<Rightarrow> unit kernel" where
  "user_store8 va b =
     kbind (user_pte va) (\<lambda>(ptep, pte).
     if \<not> pte_has pte PTE_W then kpanic
     else kthen (pte_write ptep (pte OR PTE_D))
         (upd_page (pa2kva (PTE_ADDR pte)) (\<lambda>pg. pg\<lparr> pg_words := put_byte (pg_words pg) (unat (PGOFF va)) b \<rparr>)))"

definition user_load :: "u64 \<Rightarrow> nat \<Rightarrow> u8 list kernel" where
  "user_load va n = kfold (\<lambda>i bs. kbind (user_load8 (va + of_nat i)) (\<lambda>b. kret (bs @ [b]))) [0..<n] []"

definition user_store :: "u64 \<Rightarrow> u8 list \<Rightarrow> unit kernel" where
  "user_store va bs = kfor (\<lambda>i. user_store8 (va + of_nat i) (bs ! i)) [0..<length bs]"

definition user_load64 :: "u64 \<Rightarrow> u64 kernel" where
  "user_load64 va = kbind (user_load va 8) (\<lambda>bs. kret (join_bytes bs))"

definition user_load32 :: "u64 \<Rightarrow> u32 kernel" where
  "user_load32 va = kbind (user_load va 4) (\<lambda>bs. kret (ucast (join_bytes bs)))"

definition user_store64 :: "u64 \<Rightarrow> u64 \<Rightarrow> unit kernel" where
  "user_store64 va w = user_store va (split_bytes 8 w)"

definition user_store32 :: "u64 \<Rightarrow> u32 \<Rightarrow> unit kernel" where
  "user_store32 va w = user_store va (split_bytes 4 (ucast w))"

definition user_loads64 :: "u64 \<Rightarrow> nat \<Rightarrow> u64 list kernel" where
  "user_loads64 va n = kfold (\<lambda>i ws. kbind (user_load64 (va + 8 * of_nat i)) (\<lambda>w. kret (ws @ [w]))) [0..<n] []"

definition user_stores64 :: "u64 \<Rightarrow> u64 list \<Rightarrow> unit kernel" where
  "user_stores64 va ws = kfor (\<lambda>i. user_store64 (va + 8 * of_nat i) (ws ! i)) [0..<length ws]"

subsection \<open>Mappings of the user\<close>

definition USM_SIZE :: u64 where "USM_SIZE = 48"
definition UAS_SIZE :: u64 where "UAS_SIZE = 48"

definition user_load_usm :: "u64 \<Rightarrow> u_segment_mapping kernel" where
  "user_load_usm va = kbind (user_loads64 va 6) (\<lambda>ws. kret (usm_decode ws))"

definition user_store_usm :: "u64 \<Rightarrow> u_segment_mapping \<Rightarrow> unit kernel" where
  "user_store_usm va usm = user_stores64 va (usm_encode usm)"

definition as_to_user_slot :: "ptr \<Rightarrow> u64 \<Rightarrow> u64 \<Rightarrow> nat \<Rightarrow> u64 \<Rightarrow> u64 kernel" where
  "as_to_user_slot as ents sz i nent =
     kbind (as_get_usegmap as (of_nat i) page_shared_ro) (\<lambda>usml.
     kbind (usm_read usml) (\<lambda>usm.
     if usm_flags usm = 0 then kret nent
     else if nent \<ge> sz then kerr E_NO_SPACE
     else kthen (user_store_usm (ents + nent * USM_SIZE) usm) (kret (nent + 1))))"

text \<open>The fields of \<^verbatim>\<open>u_address_space\<close>: size, nent, ents, trap_handler, trap_stack_base and trap_stack_top, eight bytes each.\<close>

definition as_to_user :: "ptr \<Rightarrow> u64 \<Rightarrow> unit kernel" where
  "as_to_user as uas =
     kthen (check_user_access2 uas UAS_SIZE SEGMAP_WRITE)
    (kbind (user_load64 uas) (\<lambda>sz.
     kbind (user_load64 (uas + 16)) (\<lambda>ents.
     let (len, ov) = safe_mul64 USM_SIZE sz
     in kthen (check_user_access2 ents len SEGMAP_WRITE)
       (if ov then kerr E_INVAL
        else kbind (as_nents as) (\<lambda>n.
          kbind (kfold (as_to_user_slot as ents sz) [0..<unat n] 0) (\<lambda>nent.
          kbind (kget (\<lambda>s. aspace (ks_obj s as))) (\<lambda>a.
          kthen (user_store64 (uas + 8) nent)
         (kthen (user_store64 (uas + 24) (as_utrap_entry a))
         (kthen (user_store64 (uas + 32) (as_utrap_stack_base a))
            (user_store64 (uas + 40) (as_utrap_stack_top a)))))))))))"

definition as_from_user_slot :: "ptr \<Rightarrow> u64 \<Rightarrow> u64 \<Rightarrow> nat \<Rightarrow> unit kernel" where
  "as_from_user_slot as ents nent i =
     kbind (as_get_usegmap as (of_nat i) page_excl_dirty) (\<lambda>usml.
     kbind (as_get_segmap as (of_nat i)) (\<lambda>sm.
     kthen (sm_detach sm)
    (kthen (upd_sm sm (\<lambda>_. sm0))
    (kthen (usm_write usml (usm_decode (replicate 6 0)))
       (kwhen (of_nat i < nent)
          (kthen (user_store32 (ents + of_nat i * USM_SIZE + 32) (of_nat i))
          (kbind (user_load_usm (ents + of_nat i * USM_SIZE)) (usm_write usml))))))))"

definition as_from_user :: "ptr \<Rightarrow> u64 \<Rightarrow> unit kernel" where
  "as_from_user as uas =
     kthen (check_user_access2 uas UAS_SIZE 0)
    (kbind (user_load64 (uas + 8)) (\<lambda>nent.
     kbind (user_load64 (uas + 16)) (\<lambda>ents.
     let (len, ov) = safe_mul64 USM_SIZE nent
     in kthen (check_user_access2 ents len SEGMAP_WRITE)
       (if ov then kerr E_INVAL
        else
          kbind (as_nents as) (\<lambda>have_ents.
          kthen (kwhen (nent > have_ents) (as_resize as nent))
         (kbind (as_nents as) (\<lambda>n.
          ktry (kthen (kfor (as_from_user_slot as ents nent) [0..<unat n])
               (kbind (user_load64 (uas + 24)) (\<lambda>handler.
                kbind (user_load64 (uas + 32)) (\<lambda>stack_base.
                kbind (user_load64 (uas + 40)) (\<lambda>stack_top.
                upd_as as (\<lambda>a. a\<lparr> as_utrap_entry := handler, as_utrap_stack_base := stack_base,
                                  as_utrap_stack_top := stack_top \<rparr>)))))) (\<lambda>r.
          kthen (as_invalidate as) (case r of Inl e \<Rightarrow> kerr e | Inr _ \<Rightarrow> kret ())))))))))"

definition as_get_uslot :: "ptr \<Rightarrow> u64 \<Rightarrow> unit kernel" where
  "as_get_uslot as usm =
     kthen (check_user_access2 usm USM_SIZE SEGMAP_WRITE)
    (kbind (user_load_usm usm) (\<lambda>u.
     kbind (as_get_usegmap as (ucast (usm_kslot u)) page_shared_ro) (\<lambda>usml.
     kbind (usm_read usml) (user_store_usm usm))))"

text \<open>Whether a mapping only grows, so that what is mapped stays right.\<close>

definition usm_grows :: "u_segment_mapping \<Rightarrow> u_segment_mapping \<Rightarrow> bool" where
  "usm_grows usm new \<longleftrightarrow>
     cobj_object (usm_segment usm) = cobj_object (usm_segment new) \<and>
     cobj_container (usm_segment usm) = cobj_container (usm_segment new) \<and>
     usm_start_page usm = usm_start_page new \<and> usm_kslot usm = usm_kslot new \<and> usm_flags usm = usm_flags new \<and>
     usm_va usm = usm_va new \<and> usm_num_pages usm \<le> usm_num_pages new \<and> usm_flags usm AND SEGMAP_REVERSE_PAGES = 0"

definition as_set_uslot :: "ptr \<Rightarrow> u64 \<Rightarrow> unit kernel" where
  "as_set_uslot as usm_new =
     kthen (check_user_access2 usm_new USM_SIZE 0)
    (kbind (user_load_usm usm_new) (\<lambda>usm_copy.
     let slot = ucast (usm_kslot usm_copy)
     in kbind (as_get_usegmap as slot page_excl_dirty) (\<lambda>usml.
        kbind (as_get_segmap as slot) (\<lambda>sm.
        kbind (usm_read usml) (\<lambda>usm.
        kthen (if usm_grows usm usm_copy then kret ()
               else kbind (sm_of sm) (\<lambda>m.
                 kthen (kassert (sm_ko m = 0 \<or> as = sm_as m)) (as_invalidate_sm sm)))
          (usm_write usml usm_copy))))))"

subsection \<open>Labels of the user\<close>

text \<open>The fields of \<^verbatim>\<open>struct ulabel\<close> are at 0 (size), 4 (nent), 8 (default), 12 (needed) and 16 (ent).\<close>

definition UL_SIZE :: u64 where "UL_SIZE = 24"

definition label_to_ulabel_ent :: "ptr \<Rightarrow> u64 \<Rightarrow> u32 \<Rightarrow> nat \<Rightarrow> u32 \<times> u32 \<Rightarrow> (u32 \<times> u32) kernel" where
  "label_to_ulabel_ent l ul_ent ul_size i = (\<lambda>(slot, overflow).
     kbind (label_read l i) (\<lambda>ent.
     if ent = 0 then kret (slot, overflow)
     else if slot < ul_size
     then kthen (user_store64 (ul_ent + 8 * ucast slot) ent) (kret (slot + 1, overflow))
     else kret (slot, overflow + 1)))"

definition label_to_ulabel :: "ptr \<Rightarrow> u64 \<Rightarrow> unit kernel" where
  "label_to_ulabel l ul =
     kthen (check_user_access2 ul UL_SIZE SEGMAP_WRITE)
    (kbind (kget (\<lambda>s. lb_def_level (lb (ks_obj s l)))) (\<lambda>def_level.
     kthen (user_store8 (ul + 8) def_level)
    (kthen (user_store32 (ul + 4) 0)
    (kbind (user_load32 ul) (\<lambda>ul_size.
     kbind (user_load64 (ul + 16)) (\<lambda>ul_ent.
     let (len, ov) = safe_mul64 (ucast ul_size) 8
     in kthen (check_user_access2 ul_ent len SEGMAP_WRITE)
       (if ov then kerr E_INVAL
        else
          kbind (label_nents l) (\<lambda>is.
          kbind (kfold (label_to_ulabel_ent l ul_ent ul_size) is (0, 0)) (\<lambda>(slot, overflow).
          kthen (user_store32 (ul + 4) slot)
         (kthen (user_store32 (ul + 12) overflow)
            (if overflow \<noteq> 0 then kerr E_NO_SPACE else kret ())))))))))))"

definition ulabel_to_label :: "u64 \<Rightarrow> ptr kernel" where
  "ulabel_to_label ul =
     kthen (check_user_access2 ul UL_SIZE 0)
    (kbind (user_load8 (ul + 8)) (\<lambda>def_level.
     if def_level > LB_LEVEL_STAR then kerr E_INVAL
     else
       kbind (label_alloc def_level) (\<lambda>l.
       kbind (user_load32 (ul + 4)) (\<lambda>ul_nent.
       kbind (user_load64 (ul + 16)) (\<lambda>ul_ent.
       let (len, ov) = safe_mul64 (ucast ul_nent) 8
       in kthen (check_user_access2 ul_ent len 0)
         (if ov then kerr E_INVAL
          else
            kthen (kfor (\<lambda>i. kbind (user_load64 (ul_ent + 8 * of_nat i)) (\<lambda>ul_val. label_set_entries l [ul_val])) [0..<unat ul_nent])
              (kret l)))))))"

subsection \<open>Waiting for a word to change\<close>

definition upd_sw :: "swloc \<Rightarrow> (sync_wait_slot \<Rightarrow> sync_wait_slot) \<Rightarrow> unit kernel" where
  "upd_sw l f = kmod (\<lambda>s. s\<lparr> ks_sw := (ks_sw s)(l := f (ks_sw s l)) \<rparr>)"

text \<open>
  The result says whether the word still has the value, so that the thread has to wait. The source lets \<^verbatim>\<open>as_invert_mapped\<close> write to the slot directly, so that a slot
  keeps a candidate when several mappings match and the call fails; such a slot is on no list and is filled in anew before its next use. Here it is then left as it was.
\<close>

definition sync_waitslot_init :: "u64 \<Rightarrow> u64 \<Rightarrow> u64 \<Rightarrow> swloc \<Rightarrow> ptr \<Rightarrow> bool kernel" where
  "sync_waitslot_init addr val refct slot t =
     kthen (check_user_access2 addr 8 0)
    (kbind (user_load64 addr) (\<lambda>v.
     if v \<noteq> val then kret False
     else
       kbind cur_th_as (\<lambda>as.
       kbind (as_invert_mapped as addr) (\<lambda>(seg, off).
       kthen (upd_sw slot (\<lambda>w. w\<lparr> sw_seg := seg, sw_offset := off, sw_cobj := if refct \<noteq> 0 then COBJ refct seg else COBJ 0 0 \<rparr>))
      (kthen (if refct \<noteq> 0 then kthen (cobj_get (COBJ refct seg) kobj_segment iflow_none) (kret ()) else kret ())
      (kthen (upd_obj t (\<lambda>k. k\<lparr> ko_th_e := (ko_th_e k)\<lparr> te_wait_slots := slot # te_wait_slots (ko_th_e k) \<rparr> \<rparr>))
      (kthen (upd_sw slot (\<lambda>w. w\<lparr> sw_t := t \<rparr>))
         (kret True))))))))"

definition slots_per_page :: u64 where "slots_per_page = 46"

definition sync_link_slot :: "swloc \<Rightarrow> unit kernel" where
  "sync_link_slot sw =
     kmod (\<lambda>s. let w = ks_sw s sw; h = sync_addr_head (sw_seg w) (sw_offset w); c = sync_cobj_head (sw_cobj w)
       in s\<lparr> sync_addr_waiting := (sync_addr_waiting s)(h := sw # sync_addr_waiting s h),
             sync_cobj_waiting := (if cobj_object (sw_cobj w) \<noteq> 0 then (sync_cobj_waiting s)(c := sw # sync_cobj_waiting s c)
                                   else sync_cobj_waiting s) \<rparr>)"

text \<open>
  \<open>args i\<close> gives the address, the value and the container of the \<open>i\<close>-th word: the source passes three arrays,
  of the user or of one element in the kernel. The result says whether the thread was put to sleep.
\<close>

definition sync_wait :: "(u64 \<Rightarrow> (u64 \<times> u64 \<times> u64) kernel) \<Rightarrow> u64 \<Rightarrow> u64 \<Rightarrow> bool kernel" where
  "sync_wait args num wakeup_nsec =
     kbind timer_user_nsec (\<lambda>now_nsec.
     kbind (kget (\<lambda>s. (cur_thread s, th_multi_slots (th (ks_obj s (cur_thread s)))))) (\<lambda>(t, multi).
     if num = 0 then kret False
     else if num > multi + 1 then kerr E_NO_SPACE
     else if wakeup_nsec \<le> now_nsec then kret False
     else
       kthen (thread_load_as t)
      (kthen (kbind cur_th_as as_switch)
      (kthen (upd_obj t (\<lambda>k. k\<lparr> ko_th_e := (ko_th_e k)\<lparr> te_wait_slots := [] \<rparr> \<rparr>))
      (kbind (kbind (args 0) (\<lambda>(addr, val, refct). sync_waitslot_init addr val refct (SwInline t) t)) (\<lambda>waits.
       if \<not> waits then kret False
       else
         kbind (kfind (\<lambda>i.
             let pg_num = (of_nat i - 1) div slots_per_page + 1; pg_idx = unat ((of_nat i - 1) mod slots_per_page)
             in kbind (kobject_get_page t pg_num page_excl_dirty) (\<lambda>p.
                kbind (args (of_nat i)) (\<lambda>(addr, val, refct).
                kbind (sync_waitslot_init addr val refct (SwPage p pg_idx) t) (\<lambda>waits.
                kret (if waits then None else Some ()))))) [1..<unat num]) (\<lambda>r.
         if r \<noteq> None then kret False
         else
           kbind (kget (\<lambda>s. te_wait_slots (ko_th_e (ks_obj s t)))) (\<lambda>sws.
           kthen (kfor sync_link_slot sws)
          (kthen (upd_obj t (\<lambda>k. k\<lparr> ko_th_e := (ko_th_e k)\<lparr> te_wakeup_nsec := wakeup_nsec \<rparr> \<rparr>))
          (kthen (thread_suspend t sync_time_waiting)
          (kthen (upd_th t (\<lambda>x. x\<lparr> th_sync_waiting := True \<rparr>))
             (kret True))))))))))))"

definition sync_wakeup_addr :: "u64 \<Rightarrow> unit kernel" where
  "sync_wakeup_addr addr =
     kbind (kget cur_thread) (\<lambda>t.
     kthen (thread_load_as t)
    (kthen (kbind cur_th_as as_switch)
    (kbind cur_th_as (\<lambda>as.
     kbind (as_invert_mapped as addr) (\<lambda>(seg_id, offset). sync_wakeup_at seg_id offset)))))"

subsection \<open>The range of user memory\<close>

lemma kfold_RetD:
  assumes "kfold f xs a s = (Ret b, t)" "x \<in> set xs"
  shows "\<exists>a' s1 b' s2. f x a' s1 = (Ret b', s2)"
  using assms
proof (induction xs arbitrary: a s)
  case (Cons y ys)
  then obtain a1 s1 where "f y a s = (Ret a1, s1)" "kfold f ys a1 s1 = (Ret b, t)" by (auto elim: kbind_RetE)
  then show ?case using Cons by auto
qed simp

lemma access_page_below: "access_page flags va b s = (Ret b', s') \<Longrightarrow> va < ULIM"
  by (auto simp: access_page_def kerr_def not_le split: if_splits)

lemma unat_ROUNDUP_PGSIZE:
  assumes "ROUNDUP e PGSIZE \<noteq> 0"
  shows "unat e \<le> unat (ROUNDUP e PGSIZE)" "unat (ROUNDUP e PGSIZE) mod 4096 = 0"
proof -
  have r: "unat (ROUNDUP e PGSIZE) = unat (e + 4095) - unat (e + 4095) mod 4096"
  proof -
    have "e + PGSIZE - 1 = e + 4095" by (simp add: PGSIZE_def)
    then show ?thesis by (simp only: ROUNDUP_def unat_ROUNDDOWN_PGSIZE)
  qed
  show "unat (ROUNDUP e PGSIZE) mod 4096 = 0" by (simp add: r minus_mod_eq_mult_div)
  have "\<not> unat (e + 4095) < 4095"
  proof
    assume "unat (e + 4095) < 4095"
    then have "unat (ROUNDUP e PGSIZE) = 0" by (simp add: r)
    then show False using assms by (simp add: unat_eq_zero)
  qed
  then have "unat (e + 4095) = unat e + 4095"
    using unat_less_exp [of e] by (simp add: unat_add_carry split: if_splits)
  then show "unat e \<le> unat (ROUNDUP e PGSIZE)" using mod_less_divisor [of 4096 "unat (e + 4095)"] by (simp add: r)
qed

lemma page_count:
  fixes a b :: nat
  assumes "a mod 4096 = 0" "b mod 4096 = 0" "a < b"
  shows "0 < (b - a) div 4096" "a + (b - a) div 4096 * 4096 = b"
proof -
  obtain i j where ij: "a = 4096 * i" "b = 4096 * j" using assms(1,2) by (auto simp: mod_eq_0_iff_dvd elim!: dvdE)
  then have "(b - a) div 4096 = j - i" by (simp add: diff_mult_distrib2 [symmetric])
  then show "0 < (b - a) div 4096" "a + (b - a) div 4096 * 4096 = b" using ij assms(3) by (simp_all add: algebra_simps)
qed

lemma page_below:
  fixes x u :: nat
  assumes "x mod 4096 = 0" "u mod 4096 = 0" "x < u"
  shows "x + 4096 \<le> u"
  using page_count [OF assms] by (metis Suc_leI add_le_cancel_left mult_1 mult_le_mono1 One_nat_def)

text \<open>C15: A range of memory that the kernel accepts from the user does not wrap around at the end of the address space and ends at or below
  \<^verbatim>\<open>ULIM\<close>, so that the kernel never follows a pointer of the user into its own half of the address space.\<close>

theorem check_user_access_below:
  assumes "check_user_access2 ptr nbytes reqflags s = (Ret (), t)" "nbytes \<noteq> 0"
  shows "unat ptr + unat nbytes \<le> unat ULIM"
proof -
  let ?start = "ROUNDDOWN ptr PGSIZE"
  obtain e ov where e: "safe_add64 ptr nbytes = (e, ov)" by fastforce
  let ?stop = "ROUNDUP e PGSIZE" and ?n = "unat ((ROUNDUP e PGSIZE - ROUNDDOWN ptr PGSIZE) div PGSIZE)"
  obtain s1 s2 b where f: "\<not> ov" "?start < ?stop" "kfold (\<lambda>i. access_page reqflags (?start + of_nat i * PGSIZE)) [0..<?n] False s1 = (Ret b, s2)"
    using assms by (auto simp: check_user_access2_def kbind_get Let_def e kerr_def not_le elim!: kthen_RetE kbind_RetE split: if_splits)
  have stop: "?stop \<noteq> 0" using f(2) by (auto simp: word_less_nat_alt)
  note up = unat_ROUNDUP_PGSIZE [OF stop]
  have le: "unat ?start < unat ?stop" using f(2) by (simp add: word_less_nat_alt)
  have n: "?n = (unat ?stop - unat ?start) div 4096" using f(2) by (simp add: unat_div unat_sub PGSIZE_def)
  have sm: "unat ?start mod 4096 = 0" by (simp add: unat_ROUNDDOWN_PGSIZE minus_mod_eq_mult_div)
  note pc = page_count [OF sm up(2) le]
  have n0: "0 < ?n" and total_pages: "unat ?start + ?n * 4096 = unat ?stop" using pc unfolding n by simp_all
  obtain k where k: "?n = Suc k" using n0 gr0_implies_Suc by blast
  have lt: "?start + of_nat k * PGSIZE < ULIM" using kfold_RetD [OF f(3), of k] k access_page_below by fastforce
  have "unat ?stop < 2 ^ 64" using unat_less_exp [of ?stop] by simp
  then have b: "unat ?start + k * 4096 < 2 ^ 64" using total_pages k by simp
  have "of_nat k * PGSIZE = (of_nat (k * 4096) :: u64)" by (simp add: PGSIZE_def)
  then have "unat (of_nat k * PGSIZE :: u64) = k * 4096" using b by (simp only: unat_of_nat) simp
  then have v: "unat (?start + of_nat k * PGSIZE) = unat ?start + k * 4096" using b by (subst unat_add_lem [THEN iffD1]) simp_all
  have "unat ?start + k * 4096 + 4096 \<le> unat ULIM"
    by (rule page_below) (use sm lt v in \<open>simp_all add: word_less_nat_alt ULIM_def mod_add_left_eq [symmetric]\<close>)
  then have "unat ?stop \<le> unat ULIM" using total_pages k by simp
  moreover have "unat e = unat ptr + unat nbytes" using safe_add64_exact [OF e] f(1) by simp
  ultimately show ?thesis using up(1) by simp
qed

text \<open>A state with one page of user memory, page 30 at address 0x5000, writable.\<close>

definition table_page :: "nat \<Rightarrow> u64 \<Rightarrow> page" where
  "table_page i pte = page0\<lparr> pg_words := (replicate 512 0)[i := pte] \<rparr>"

definition one_page :: kstate where
  "one_page = kstate0\<lparr> cur_thread := 3, cur_as := 7, cur_pgmap := 20,
     ks_obj := (\<lambda>_. kobject0)(7 := kobject0\<lparr> aspace := as0\<lparr> as_pgmap := 20 \<rparr> \<rparr>),
     ks_page := (\<lambda>_. page0)(20 := table_page 0 0x15007, 21 := table_page 0 0x16007, 22 := table_page 0 0x17007, 23 := table_page 5 0x1e007) \<rparr>"

lemma one_page_words:
  "pg_words (ks_page one_page 20) ! 0 = 0x15007" "pg_words (ks_page one_page 21) ! 0 = 0x16007"
  "pg_words (ks_page one_page 22) ! 0 = 0x17007" "pg_words (ks_page one_page 23) ! 5 = 0x1e007"
  by (simp_all add: one_page_def table_page_def)

lemma kfold_single: "kfold f [i..<Suc i] a = f i a"
  by (rule ext) (simp add: kbind_def kret_def split: outcome.splits prod.splits)

text \<open>One level of the page map for a single address.\<close>

lemma traverse_level:
  assumes "pg_words (ks_page s pg) ! PDX (Suc n) va = ent" "pte_has ent PTE_P" "\<not> (Suc n = 1 \<and> pte_has ent PTE_PS)"
  shows "page_map_traverse_internal pg (Suc n) va va create cb b a s =
    page_map_traverse_internal (pa2kva (PTE_ADDR ent)) n va va create cb (b + push_bit (PDSHIFT (Suc n)) (of_nat (PDX (Suc n) va))) a s"
  using assms by (simp only: page_map_traverse_internal.simps kfold_single) (auto simp del: page_map_traverse_internal.simps simp: kbind_get pte_read_def Let_def)

lemma traverse_leaf:
  assumes "pg_words (ks_page s pg) ! PDX 0 va = ent" "create \<or> pte_has ent PTE_P"
  shows "page_map_traverse_internal pg 0 va va create (\<lambda>ptep _ _. kret (Some ptep)) b a s = (Ret (Some (pg, PDX 0 va)), s)"
  using assms by (simp only: page_map_traverse_internal.simps kfold_single) (simp add: kbind_get pte_read_def Let_def kret_def)

lemma one_page_walk: "pgdir_walk 20 0x5000 False one_page = (Ret (Some (23, 5)), one_page)"
proof -
  have d: "PDX (Suc (Suc (Suc 0))) 0x5000 = 0" "PDX (Suc (Suc 0)) 0x5000 = 0" "PDX (Suc 0) 0x5000 = 0" "PDX 0 0x5000 = 5"
    by (simp_all add: PDX_def PDSHIFT_def)
  note e = pte_has_def PTE_P_def PTE_PS_def PTE_ADDR_def pa2kva_def
  have "page_map_traverse_internal 20 3 0x5000 0x5000 False (\<lambda>ptep _ _. kret (Some ptep)) 0 None one_page = (Ret (Some (23, 5)), one_page)"
    by (simp only: numeral_3_eq_3) (simp del: page_map_traverse_internal.simps add: traverse_level traverse_leaf d one_page_words e)
  then show ?thesis
    by (simp add: pgdir_walk_def page_map_traverse_def NPTLVLS_def ULIM_def kbind_def kret_def)
qed

lemma one_page_state: "as_pgmap (aspace (ks_obj one_page 7)) = 20" "cur_as one_page = 7" "cur_thread one_page = 3"
  by (simp_all add: one_page_def)

lemma one_page_access: "check_user_access2 0x5010 8 0 one_page = (Ret (), one_page)"
proof -
  have l: "page_lookup 20 0x5000 one_page = (Ret (30, Some (23, 5)), one_page)"
    by (simp add: page_lookup_def ktry_def one_page_walk ULIM_def pte_read_def kbind_get one_page_words pte_has_def PTE_P_def kret_def PTE_ADDR_def pa2kva_def)
  have p: "access_page 0 0x5000 False one_page = (Ret False, one_page)"
    by (simp add: access_page_def user_page_ok_def one_page_state l kbind_def kret_def kget_def pte_read_def one_page_words PTE_P_def PTE_U_def ULIM_def)
  show ?thesis
    by (simp add: check_user_access2_def one_page_state kbind_get kassert_def kwhen_def kbind_def kthen_case kret_def Let_def
      safe_add64_def ROUNDDOWN_def ROUNDUP_def PGSIZE_def p)
qed

theorem check_user_access_below_witness:
  "check_user_access2 0x5010 8 0 one_page = (Ret (), one_page) \<and> unat (0x5010 :: u64) + unat (8 :: u64) \<le> unat ULIM"
  using check_user_access_below [OF one_page_access] one_page_access by simp

subsection \<open>Words and mappings as bytes and words\<close>

lemma bit_join_split:
  "m \<le> 8 \<Longrightarrow> bit (join_bytes (map (\<lambda>i. ucast (drop_bit (8 * i) w)) [k..<k + m])) n \<longleftrightarrow> n < 8 * m \<and> bit (w :: u64) (8 * k + n)"
proof (induction m arbitrary: k n)
  case 0
  then show ?case by simp
next
  case (Suc m)
  have "bit (join_bytes (map (\<lambda>i. ucast (drop_bit (8 * i) w)) [Suc k..<Suc k + m])) (n - 8) \<longleftrightarrow> n - 8 < 8 * m \<and> bit w (8 * Suc k + (n - 8))"
    by (rule Suc.IH) (use Suc.prems in simp)
  moreover have "[k..<k + Suc m] = k # [Suc k..<Suc k + m]" by (simp add: upt_conv_Cons del: upt_Suc)
  ultimately show ?case
    using Suc.prems by (cases "n < 8") (auto simp: bit_simps add.commute simp del: upt_Suc)
qed

lemma join_split_bytes: "join_bytes (split_bytes 8 w) = w"
  using bit_join_split [of 8 w 0] by (intro bit_eqI) (auto simp: split_bytes_def dest: bit_imp_le_length)

lemma usm_decode_encode: "usm_decode (usm_encode u) = u"
proof -
  have "ucast (ucast (usm_kslot u) OR push_bit 32 (ucast (usm_flags u)) :: u64) = usm_kslot u"
    "ucast (drop_bit 32 (ucast (usm_kslot u) OR push_bit 32 (ucast (usm_flags u)) :: u64)) = usm_flags u"
    by (rule bit_word_eqI; auto simp: bit_simps dest: bit_imp_le_length)+
  then show ?thesis by (simp add: usm_decode_def usm_encode_def)
qed

lemma usm_write_read:
  assumes "6 * snd l + 6 \<le> length (pg_words (ks_page s (fst l)))"
  shows "kthen (usm_write l u) (usm_read l) s = (Ret u, snd (usm_write l u s))"
  using assms by (simp add: usm_write_def usm_read_def upd_page_def kthen_case kget_def usm_decode_encode min_def usm_encode_def [of u, THEN arg_cong, of length])

end
