(* ===== verification/Threadops.thy ===== *)
theory Threadops
  imports Uaccess
begin

unbundle bit_operations_syntax

text \<open>
  The operations of threads that need labels, segments and address spaces (\<^verbatim>\<open>src/kern/kern/thread.c\<close>), their processor-specific parts
  (\<^verbatim>\<open>src/kern/arch/amd64/trap.c\<close>), the scheduler's loop (\<^verbatim>\<open>sched.c\<close>) and gates (\<^verbatim>\<open>gate.c\<close>). Changing the label of a thread replaces its
  thread-local segment by a copy, since a segment's label does not change.
  The theory has the definitions only; the results about thread lists and the scheduler's choice are in the theories on threads and on the scheduler.
\<close>

subsection \<open>Life of a thread\<close>

definition UTLS_DEFSIZE :: u64 where "UTLS_DEFSIZE = PGSIZE"

definition thread_alloc :: "ptr \<Rightarrow> ptr \<Rightarrow> ptr kernel" where
  "thread_alloc tracking clearance =
     kbind (kobject_alloc kobj_thread tracking clearance) (\<lambda>t.
     kthen (upd_th t (\<lambda>x. x\<lparr> th_sched_tickets := 1024, th_status := thread_not_started \<rparr>))
    (kthen (upd_hdr t (\<lambda>h. h\<lparr> ko_flags := ko_flags h OR KOBJ_LABEL_MUTABLE \<rparr>))
    (kbind (segment_alloc tracking) (\<lambda>sg.
     kthen (segment_set_nbytes sg UTLS_DEFSIZE)
    (kthen (kobject_incref sg t)
    (kbind (hd_of sg) (\<lambda>sh.
     kthen (upd_th t (\<lambda>x. x\<lparr> th_sg := ko_id sh \<rparr>))
    (kthen (thread_swapin t)
       (kret t)))))))))"

definition thread_gc :: "ptr \<Rightarrow> unit kernel" where
  "thread_gc t =
     kbind (obj t) (\<lambda>ko.
     kthen (kwhen (th_sg (th ko) \<noteq> 0)
       (kbind (kobject_get (th_sg (th ko)) kobj_segment iflow_none) (\<lambda>sg.
        kthen (kobject_decref sg t) (upd_th t (\<lambda>x. x\<lparr> th_sg := 0 \<rparr>)))))
       (thread_swapout t))"

text \<open>\<^verbatim>\<open>struct Fpregs\<close> has 512 bytes; the first word holds \<^verbatim>\<open>cwd\<close>, the fourth \<^verbatim>\<open>mxcsr\<close>.\<close>

definition FPREGS_SIZE :: u64 where "FPREGS_SIZE = 512"

definition karch_fp_init :: "ptr \<Rightarrow> unit kernel" where
  "karch_fp_init fpreg =
     upd_page fpreg (\<lambda>pg. pg\<lparr> pg_words := (replicate 64 0)[0 := 0x37f, 3 := 0x1f80] @ drop 64 (pg_words pg) \<rparr>)"

definition thread_enable_fp :: "ptr \<Rightarrow> unit kernel" where
  "thread_enable_fp t =
     kthen (kobject_dirty t)
    (kbind (obj t) (\<lambda>ko.
     if th_fp_enabled (th ko) then kret ()
     else
       kthen (kwhen (\<not> th_fp_space (th ko))
         (kthen (kobject_set_nbytes t FPREGS_SIZE) (upd_th t (\<lambda>x. x\<lparr> th_fp_space := True \<rparr>))))
      (kbind (kobject_get_page t 0 page_excl_dirty) (\<lambda>fpreg.
       kthen (karch_fp_init fpreg) (upd_th t (\<lambda>x. x\<lparr> th_fp_enabled := True \<rparr>))))))"

definition SYNC_WAIT_SLOT_SIZE :: u64 where "SYNC_WAIT_SLOT_SIZE = 88"

definition thread_set_waitslots :: "ptr \<Rightarrow> u64 \<Rightarrow> unit kernel" where
  "thread_set_waitslots t nslots =
     (let (len, ov1) = safe_mul64 SYNC_WAIT_SLOT_SIZE nslots; (nbytes, ov2) = safe_add64 PGSIZE len
      in if ov1 \<or> ov2 then kerr E_INVAL
         else
           kthen (kobject_dirty t)
          (kthen (kobject_set_nbytes t nbytes)
             (upd_th t (\<lambda>x. x\<lparr> th_multi_slots := nslots, th_fp_space := True \<rparr>))))"

subsection \<open>Changing labels\<close>

text \<open>
  The three reservations of \<^verbatim>\<open>thread_change_label\<close>; \<open>Inl\<close> is the error with the reservations made so far, which the
  caller gives back.
\<close>

definition reserve_labels :: "kobject_quota_resv \<Rightarrow> kobject_quota_resv \<Rightarrow> ptr \<Rightarrow> ptr \<Rightarrow>
    (err \<times> kobject_quota_resv \<times> kobject_quota_resv + kobject_quota_resv \<times> kobject_quota_resv) kernel" where
  "reserve_labels qr_th qr_sg sg_new new_label =
     ktry (kobject_qres_reserve qr_sg new_label) (\<lambda>r. case r of Inl e \<Rightarrow> kret (Inl (e, qr_th, qr_sg)) | Inr qr_sg \<Rightarrow>
     ktry (kobject_qres_reserve qr_th sg_new) (\<lambda>r. case r of Inl e \<Rightarrow> kret (Inl (e, qr_th, qr_sg)) | Inr qr_th \<Rightarrow>
     ktry (kobject_qres_reserve qr_th new_label) (\<lambda>r. case r of Inl e \<Rightarrow> kret (Inl (e, qr_th, qr_sg)) | Inr qr_th \<Rightarrow>
     kret (Inr (qr_th, qr_sg)))))"

definition thread_change_label :: "ptr \<Rightarrow> ptr \<Rightarrow> unit kernel" where
  "thread_change_label t new_label =
     kthen (kobject_dirty t)
    (kbind (kget (\<lambda>s. th_sg (th (ks_obj s t)))) (\<lambda>old_sg.
     kbind (kobject_get old_sg kobj_segment iflow_rw) (\<lambda>ko_sg.
     kbind (kobject_get_label t kolabel_tracking) (\<lambda>cur_th_label.
     kbind (kobject_get_label ko_sg kolabel_tracking) (\<lambda>cur_sg_label.
     kbind (segment_copy ko_sg cur_th_label) (\<lambda>sg_new.
     kthen (segment_set_nbytes sg_new UTLS_DEFSIZE)
    (kbind (kobject_qres_init t) (\<lambda>qr_th.
     kbind (kobject_qres_init sg_new) (\<lambda>qr_sg.
     kbind (reserve_labels qr_th qr_sg sg_new new_label) (\<lambda>r.
     case r of
       Inl (e, qr_th, qr_sg) \<Rightarrow>
         kthen (kobject_qres_release qr_th) (kthen (kobject_qres_release qr_sg) (kerr e))
     | Inr (qr_th, qr_sg) \<Rightarrow>
         kbind (hd_of sg_new) (\<lambda>sh.
         kthen (upd_th t (\<lambda>x. x\<lparr> th_sg := ko_id sh \<rparr>))
        (kthen (kobject_decref ko_sg t)
        (kbind (kobject_incref_resv sg_new (Some qr_th)) (\<lambda>qr_th.
         kthen (kobject_set_label_prepared t kolabel_tracking cur_th_label new_label qr_th)
        (kthen (kobject_set_label_prepared sg_new kolabel_tracking cur_sg_label new_label (Some qr_sg))
           (thread_check_sched_parents t))))))))))))))))"

subsection \<open>Registers\<close>

definition GD_UD :: "16 word" where "GD_UD = 0x23"
definition GD_UT_NMASK :: "16 word" where "GD_UT_NMASK = 0x2b"
definition GD_UT_MASK :: "16 word" where "GD_UT_MASK = 0x33"
definition FL_TF :: u64 where "FL_TF = 0x100"
definition FL_IF :: u64 where "FL_IF = 0x200"

definition entry_frame :: "thread_entry \<Rightarrow> Trapframe" where
  "entry_frame te = tf0\<lparr> tf_rflags := FL_IF, tf_cs := GD_UT_NMASK OR 3, tf_ss := GD_UD OR 3, tf_ds := GD_UD OR 3,
     tf_es := GD_UD OR 3, tf_fs := GD_UD OR 3, tf_gs := GD_UD OR 3, tf_rip := te_entry te, tf_rsp := te_stack te,
     tf_rdi := te_arg te ! 0, tf_rsi := te_arg te ! 1, tf_rdx := te_arg te ! 2, tf_rcx := te_arg te ! 3,
     tf_r8 := te_arg te ! 4, tf_r9 := te_arg te ! 5 \<rparr>"

definition thread_arch_jump :: "ptr \<Rightarrow> thread_entry \<Rightarrow> unit kernel" where
  "thread_arch_jump t te =
     kthen (kmod (\<lambda>s. if t = trap_thread s then s\<lparr> trap_thread_syscall_writeback := False \<rparr> else s))
       (upd_th t (\<lambda>x. x\<lparr> th_tf := entry_frame te \<rparr>))"

definition thread_jump :: "ptr \<Rightarrow> ptr \<Rightarrow> ptr \<Rightarrow> thread_entry \<Rightarrow> unit kernel" where
  "thread_jump t label clearance te =
     kthen (kobject_dirty t)
    (kbind (kobject_get_label t kolabel_clearance) (\<lambda>cur_clearance.
     kbind (kobject_qres_init t) (\<lambda>qr_th.
     kbind (kobject_qres_reserve qr_th clearance) (\<lambda>qr_th.
     ktry (thread_change_label t label) (\<lambda>r.
     case r of
       Inl e \<Rightarrow> kthen (kobject_qres_release qr_th) (kerr e)
     | Inr _ \<Rightarrow>
         kthen (kobject_set_label_prepared t kolabel_clearance cur_clearance clearance (Some qr_th))
        (kthen (thread_change_as t (te_as te))
        (kthen (upd_th t (\<lambda>x. x\<lparr> th_cache_flush := False \<rparr>))
           (thread_arch_jump t te))))))))"

definition thread_switch :: "ptr \<Rightarrow> unit kernel" where
  "thread_switch t =
     kbind (kget (\<lambda>s. let as = th_as (th (ks_obj s t)) in as \<noteq> 0 \<and> ko_ref (hdr (ks_obj s as)) = 0)) (\<lambda>dead.
     kthen (kwhen dead (thread_clear_as t))
    (kthen (kmod (\<lambda>s. s\<lparr> cur_thread := t \<rparr>))
       (kbind (kget (\<lambda>s. th_as (th (ks_obj s t)))) as_switch)))"

definition thread_pagefault :: "ptr \<Rightarrow> u64 \<Rightarrow> u32 \<Rightarrow> unit kernel" where
  "thread_pagefault t fault_va reqflags =
     kthen (thread_load_as t)
       (kbind (kget (\<lambda>s. th_as (th (ks_obj s t)))) (\<lambda>as. as_pagefault as fault_va reqflags))"

subsection \<open>Traps of the user\<close>

definition thread_arch_is_masked :: "kstate \<Rightarrow> ptr \<Rightarrow> bool" where
  "thread_arch_is_masked s t \<longleftrightarrow> tf_cs (th_tf (th (ks_obj s t))) = GD_UT_MASK"

text \<open>\<^verbatim>\<open>struct UTrapframe\<close> is twenty words; the last but one holds the source and the number.\<close>

definition UTF_SIZE :: u64 where "UTF_SIZE = 160"

definition utf_words :: "Trapframe \<Rightarrow> u32 \<Rightarrow> u32 \<Rightarrow> u64 \<Rightarrow> u64 list" where
  "utf_words tf src num arg =
     [tf_rax tf, tf_rbx tf, tf_rcx tf, tf_rdx tf, tf_rsi tf, tf_rdi tf, tf_rbp tf, tf_rsp tf,
      tf_r8 tf, tf_r9 tf, tf_r10 tf, tf_r11 tf, tf_r12 tf, tf_r13 tf, tf_r14 tf, tf_r15 tf,
      tf_rip tf, tf_rflags tf, ucast src OR push_bit 32 (ucast num), arg]"

definition thread_arch_utrap :: "ptr \<Rightarrow> u32 \<Rightarrow> u32 \<Rightarrow> u64 \<Rightarrow> unit kernel" where
  "thread_arch_utrap t src num arg =
     kbind (kget (\<lambda>s. (th_tf (th (ks_obj s t)), aspace (ks_obj s (th_as (th (ks_obj s t))))))) (\<lambda>(tf, a).
     let rsp = tf_rsp tf;
         stacktop = (if rsp > as_utrap_stack_base a \<and> rsp \<le> as_utrap_stack_top a then rsp - 128 else as_utrap_stack_top a);
         utf = stacktop - UTF_SIZE
     in kthen (check_user_access2 utf UTF_SIZE SEGMAP_WRITE)
       (kbind (kget (\<lambda>s. t = trap_thread s \<and> trap_thread_syscall_writeback s)) (\<lambda>writeback.
        kthen (kwhen writeback (kmod (\<lambda>s. s\<lparr> trap_thread_syscall_writeback := False \<rparr>)))
       (kthen (user_stores64 utf (utf_words (if writeback then tf\<lparr> tf_rip := tf_rip tf + 2, tf_rax := 0 \<rparr> else tf) src num arg))
       (kbind (kget (\<lambda>s. as_utrap_entry (aspace (ks_obj s (th_as (th (ks_obj s t))))))) (\<lambda>entry.
        upd_th t (\<lambda>x. x\<lparr> th_tf := (th_tf x)\<lparr> tf_rsp := utf, tf_rip := entry,
                    tf_rflags := tf_rflags (th_tf x) AND NOT FL_TF, tf_cs := GD_UT_MASK \<rparr> \<rparr>)))))))"

text \<open>The current thread is switched to the target for the time of the delivery.\<close>

definition thread_utrap :: "ptr \<Rightarrow> u32 \<Rightarrow> u32 \<Rightarrow> u64 \<Rightarrow> unit kernel" where
  "thread_utrap t src num arg =
     kbind (kget (\<lambda>s. (th_status (th (ks_obj s t)), thread_arch_is_masked s t))) (\<lambda>(status, masked).
     if status \<noteq> thread_runnable \<and> status \<noteq> thread_suspended then kerr E_INVAL
     else if masked then kerr E_BUSY
     else
       kthen (kobject_dirty t)
      (kthen (thread_load_as t)
      (kbind (kget cur_thread) (\<lambda>saved_t.
       kthen (thread_switch t)
      (ktry (thread_arch_utrap t src num arg) (\<lambda>r.
       kthen (case r of Inl _ \<Rightarrow> kret () | Inr _ \<Rightarrow> thread_set_runnable t)
      (kthen (thread_switch saved_t)
         (case r of Inl e \<Rightarrow> kerr e | Inr _ \<Rightarrow> kret ()))))))))"

subsection \<open>The scheduler's choice\<close>

text \<open>
  \<open>notify\<close> stands for \<^verbatim>\<open>timer_periodic_notify\<close>, which calls back into drivers. Every round that does not end the loop
  takes the thread it has chosen off the list, hence the bound of as many rounds as there are runnable threads, and one more.
\<close>

fun schedule_from :: "nat \<Rightarrow> unit kernel" where
  "schedule_from n =
     kbind (kget (\<lambda>s. sched_min_pass (\<lambda>p. th_sched_pass (th (ks_obj s p))) (thread_list s thread_list_runnable) 0)) (\<lambda>t.
     kthen (kmod (\<lambda>s. s\<lparr> cur_thread := t \<rparr>))
    (if t = 0 then kret ()
     else
       kthen (kbind (kget (\<lambda>s. th_status (th (ks_obj s t)))) (\<lambda>st. kassert (st = thread_runnable)))
      (kthen (thread_check_sched_parents t)
      (kbind (kget (\<lambda>s. (cur_thread s, ks_obj s (cur_thread s)))) (\<lambda>(cur, ko).
       if cur = 0 \<or> th_status (th ko) \<noteq> thread_runnable
       then (case n of 0 \<Rightarrow> knofuel | Suc m \<Rightarrow> schedule_from m)
       else global_pass_update (th_sched_pass (th ko)))))))"

declare schedule_from.simps [simp del]

definition schedule :: "unit kernel \<Rightarrow> unit kernel" where
  "schedule notify =
     kthen sync_wakeup_timer
    (kthen notify
       (kbind (kget (\<lambda>s. length (thread_list s thread_list_runnable))) schedule_from))"

subsection \<open>Gates\<close>

definition gate_alloc :: "ptr \<Rightarrow> ptr \<Rightarrow> ptr \<Rightarrow> ptr kernel" where
  "gate_alloc l clearance verify =
     kbind (kobject_alloc kobj_gate l clearance) (\<lambda>ko.
     kthen (kobject_set_label ko kolabel_verify_tracking verify) (kret ko))"

end
