(* ===== verification/Kobjlife.thy ===== *)
theory Kobjlife
  imports Threadops
begin

unbundle bit_operations_syntax

text \<open>
  The life of kernel objects in memory (\<^verbatim>\<open>src/kern/kern/kobj.c\<close>): entering an object read from disk, garbage collection, writing
  back, snapshots and reclaiming memory. Checksums are switched off in the source (\<^verbatim>\<open>kobject_checksum_enable\<close> is 0, the
  sum is 0) and a mismatch is only printed.

  Results: entering an object of a type without a handler of its own (label, container, gate) makes it the one that is found by its id, clean and without
  pins, and a second object of the same id is never entered; the loop that wakes the threads waiting for a snapshot ends with all of them
  runnable.
\<close>

subsection \<open>Dirty pages\<close>

definition set_flags :: "ptr \<Rightarrow> u32 \<Rightarrow> unit kernel" where
  "set_flags ko bits = upd_hdr ko (\<lambda>h. h\<lparr> ko_flags := ko_flags h OR bits \<rparr>)"

definition clear_flags :: "ptr \<Rightarrow> u32 \<Rightarrow> unit kernel" where
  "clear_flags ko bits = upd_hdr ko (\<lambda>h. h\<lparr> ko_flags := ko_flags h AND NOT bits \<rparr>)"

definition kobject_dirty_eval :: "ptr \<Rightarrow> unit kernel" where
  "kobject_dirty_eval ko =
     kbind (hd_of ko) (\<lambda>h.
     if \<not> has_flag (ko_flags h) KOBJ_DIRTY_LATER then kret ()
     else
       kthen (clear_flags ko KOBJ_DIRTY_LATER)
      (if ko_type h \<noteq> kobj_segment then kpanic
       else
         kthen (segment_collect_dirty ko)
        (kbind (hd_of ko) (\<lambda>h.
         kbind (kfind (\<lambda>i.
             kbind (kmust (kobject_get_page ko (of_nat i) page_shared_ro)) (\<lambda>p.
             kbind (pi_of p) (\<lambda>pi.
             if pi_dirty pi then kthen (set_flags ko KOBJ_DIRTY) (kret (Some ())) else kret None)))
           [0..<unat (kobject_npages h)]) (\<lambda>_. kret ())))))"

subsection \<open>Entering and leaving memory\<close>

definition device_swapin :: "ptr \<Rightarrow> unit kernel" where
  "device_swapin d = upd_obj d (\<lambda>k. k\<lparr> dv := (dv k)\<lparr> dv_segmap_list := [] \<rparr> \<rparr>)"

definition kobject_swapin :: "ptr \<Rightarrow> unit kernel" where
  "kobject_swapin ko =
     kbind (hd_of ko) (\<lambda>h.
     kthen (kassert (ko_id h \<noteq> 0))
    (kbind (kget (\<lambda>s. ko_find s (ko_id h))) (\<lambda>dup.
     kthen (kassert (dup = None))
    (kthen (kobject_negative_remove (ko_id h))
    (kthen (kmod (\<lambda>s. let slot = ko_id h AND (kobj_hash_size - 1)
        in s\<lparr> ko_list := ko # ko_list s, ko_hash := (ko_hash s)(slot := ko # ko_hash s slot),
              ko_gc_list := (if ko_ref h = 0 then ko # ko_gc_list s else ko_gc_list s) \<rparr>))
    (kthen (upd_hdr ko (\<lambda>h. h\<lparr> ko_pin := 0, ko_pin_pg := 0,
        ko_flags := ko_flags h AND NOT (KOBJ_SNAPSHOTING OR KOBJ_DIRTY OR KOBJ_SHARED_MAPPINGS OR KOBJ_SNAPSHOT_DIRTY) \<rparr>))
       (case ko_type h of
          kobj_thread \<Rightarrow> thread_swapin ko
        | kobj_address_space \<Rightarrow> as_swapin ko
        | kobj_segment \<Rightarrow> segment_swapin ko
        | kobj_device \<Rightarrow> device_swapin ko
        | _ \<Rightarrow> kret ())))))))"

definition kobject_swapout :: "ptr \<Rightarrow> unit kernel" where
  "kobject_swapout ko =
     kbind (hd_of ko) (\<lambda>h.
     kthen (kassert (ko_pin h = 0))
    (kthen (kassert (\<not> has_flag (ko_flags h) KOBJ_SNAPSHOTING))
    (kthen (kwhen (ko_type h = kobj_thread) (thread_swapout ko))
    (kthen (kwhen (ko_type h = kobj_address_space) (as_swapout ko))
    (kthen (kfor (\<lambda>i. kobj_weak_put ko i 0) kolabels)
    (kthen (kobj_weak_drop ko)
    (kbind (hd_of ko) (\<lambda>h.
     kthen (kmod (\<lambda>s. let slot = ko_id h AND (kobj_hash_size - 1)
        in s\<lparr> ko_list := remove1 ko (ko_list s), ko_hash := (ko_hash s)(slot := remove1 ko (ko_hash s slot)),
              ko_gc_list := (if ko_ref h = 0 \<and> ko_pin h = 0 then remove1 ko (ko_gc_list s) else ko_gc_list s) \<rparr>))
    (kthen (pagetree_free (PtActive ko) False)
       (page_free ko))))))))))"

subsection \<open>Garbage collection\<close>

definition kobject_gc_type :: "ptr \<Rightarrow> unit kernel" where
  "kobject_gc_type ko =
     kbind (hd_of ko) (\<lambda>h.
     case ko_type h of
       kobj_thread \<Rightarrow> thread_gc ko
     | kobj_container \<Rightarrow> container_gc ko
     | kobj_address_space \<Rightarrow> as_gc ko
     | kobj_gate \<Rightarrow> kret ()
     | kobj_device \<Rightarrow> kret ()
     | kobj_segment \<Rightarrow> kret ()
     | kobj_label \<Rightarrow> kret ()
     | _ \<Rightarrow> kpanic)"

definition kobject_gc :: "ptr \<Rightarrow> unit kernel" where
  "kobject_gc ko =
     kbind (kfold (\<lambda>i ls. kbind (kobject_get_label ko i) (\<lambda>l. kret (ls @ [(i, l)]))) kolabels []) (\<lambda>ls.
     kbind (hd_of ko) (\<lambda>h.
     kthen (kwhen (has_flag (ko_flags h) KOBJ_DIRTY_LATER) (kobject_dirty_eval ko))
    (kthen (kobject_gc_type ko)
    (kthen (kfor (\<lambda>(i, l). kthen (kobject_set_label_prepared ko i l 0 None) (kret ())) ls)
    (kthen (pagetree_free (PtActive ko) False)
       (upd_hdr ko (\<lambda>h. h\<lparr> ko_nbytes := 0, ko_type := kobj_dead \<rparr>)))))))"

text \<open>One object of the list; the result says whether there was progress.\<close>

definition kobject_gc_one :: "ptr \<Rightarrow> bool \<Rightarrow> bool kernel" where
  "kobject_gc_one ko progress =
     kbind (hd_of ko) (\<lambda>h.
     if ko_ref h \<noteq> 0 \<or> ko_pin h \<noteq> 0 then kret progress
     else if ko_type h = kobj_dead
     then kthen (kwhen (\<not> has_flag (ko_flags h) KOBJ_ON_DISK) (kobject_swapout ko)) (kret progress)
     else
       kthen (kobject_dirty ko)
      (ktry (kobject_gc ko) (\<lambda>r. case r of Inl _ \<Rightarrow> kret progress | Inr _ \<Rightarrow> kret True)))"

text \<open>
  A pass over the list: what becomes garbage meanwhile is put at the front, and only the object at hand is taken off, so
  the pass sees the objects that were on the list when it began. Passes are repeated while they make progress; each such pass
  makes an object dead, hence the bound of as many passes as there are objects in memory, and one more.
\<close>

fun gc_passes :: "nat \<Rightarrow> unit kernel" where
  "gc_passes n =
     kbind (kget ko_gc_list) (\<lambda>kos.
     kbind (kfold kobject_gc_one kos False) (\<lambda>progress.
     if \<not> progress then kret ()
     else case n of 0 \<Rightarrow> knofuel | Suc m \<Rightarrow> gc_passes m))"

declare gc_passes.simps [simp del]

definition kobject_gc_scan :: "unit kernel" where
  "kobject_gc_scan =
     kbind (kget (\<lambda>s. (cur_thread s, length (ko_list s)))) (\<lambda>(t, n).
     kthen (kmod (\<lambda>s. s\<lparr> cur_thread := 0 \<rparr>))
    (kthen (gc_passes n)
       (kmod (\<lambda>s. s\<lparr> cur_thread := t \<rparr>))))"

subsection \<open>Snapshots\<close>

text \<open>\<^verbatim>\<open>memcpy(snap, ko, KOBJ_DISK_SIZE)\<close>: the header and the union of the object types.\<close>

definition copy_persistent :: "kobject \<Rightarrow> kobject \<Rightarrow> kobject" where
  "copy_persistent ko snap = snap\<lparr> hdr := hdr ko, lb := lb ko, ct := ct ko, th := th ko, gt := gt ko,
     sg_segmap_list := sg_segmap_list ko, aspace := aspace ko, dv := dv ko \<rparr>"

definition upd_snap :: "ptr \<Rightarrow> (kobject \<Rightarrow> kobject) \<Rightarrow> unit kernel" where
  "upd_snap p f = kmod (\<lambda>s. s\<lparr> ks_snap := (ks_snap s)(p := f (ks_snap s p)) \<rparr>)"

definition kobject_snapshot :: "ptr \<Rightarrow> unit kernel" where
  "kobject_snapshot ko =
     kbind (hd_of ko) (\<lambda>h.
     kthen (kassert (\<not> has_flag (ko_flags h) KOBJ_SNAPSHOTING))
    (kthen (kwhen (ko_type h = kobj_segment) (segment_map_ro ko))
    (kthen (clear_flags ko (KOBJ_DIRTY OR KOBJ_SNAP_SHARE_PIN))
    (kthen (upd_hdr ko (\<lambda>h. h\<lparr> ko_cksum := 0 \<rparr>))
    (kthen (kobject_pin_hdr ko)
    (kbind (obj ko) (\<lambda>k.
     kthen (upd_snap ko (copy_persistent k))
    (kbind (kmust (pagetree_copy (PtActive ko) (PtSnap ko) ParNull True)) (\<lambda>share_pinned.
     kthen (kwhen share_pinned
              (upd_snap ko (\<lambda>k. k\<lparr> hdr := (hdr k)\<lparr> ko_flags := ko_flags (hdr k) OR KOBJ_SNAP_SHARE_PIN \<rparr> \<rparr>)))
       (set_flags ko KOBJ_SNAPSHOTING))))))))))"

definition kobject_get_snapshot :: "ptr \<Rightarrow> kobject kernel" where
  "kobject_get_snapshot ko =
     kbind (hd_of ko) (\<lambda>h.
     kthen (kassert (has_flag (ko_flags h) KOBJ_SNAPSHOTING)) (kget (\<lambda>s. ks_snap s ko)))"

text \<open>Waking a thread takes it off the list.\<close>

fun wake_all :: "nat \<Rightarrow> waitq \<Rightarrow> unit kernel" where
  "wake_all n q =
     kbind (kget (\<lambda>s. thread_list s q)) (\<lambda>ts.
     case ts of
       [] \<Rightarrow> kret ()
     | t # _ \<Rightarrow> (case n of 0 \<Rightarrow> knofuel | Suc m \<Rightarrow> kthen (thread_set_runnable t) (wake_all m q)))"

declare wake_all.simps [simp del]

definition kobject_snapshot_release :: "ptr \<Rightarrow> unit kernel" where
  "kobject_snapshot_release ko =
     kbind (kobject_get_snapshot ko) (\<lambda>snap.
     kthen (clear_flags ko KOBJ_SNAPSHOTING)
    (kthen (kobject_unpin_hdr ko)
    (kthen (pagetree_free (PtSnap ko) (has_flag (ko_flags (hdr snap)) KOBJ_SNAP_SHARE_PIN))
       (kbind (kget (\<lambda>s. length (thread_list s kobj_snapshot_waiting))) (\<lambda>n. wake_all n kobj_snapshot_waiting)))))"

subsection \<open>Reclaiming memory\<close>

definition kobject_reclaim :: "unit kernel" where
  "kobject_reclaim =
     kbind (kget (\<lambda>s. (cur_thread s, ko_list s))) (\<lambda>(t, kos).
     kthen (kmod (\<lambda>s. s\<lparr> cur_thread := 0 \<rparr>))
    (kthen (kfor (\<lambda>ko. kbind (obj ko) (\<lambda>k.
        kwhen (\<not> (ko_pin (hdr k) \<noteq> 0 \<or> kobject_initial k \<or> has_flag (ko_flags (hdr k)) (KOBJ_DIRTY OR KOBJ_SNAPSHOT_DIRTY)))
          (kobject_swapout ko))) kos)
       (kmod (\<lambda>s. s\<lparr> cur_thread := t \<rparr>))))"

subsection \<open>What is found after an object was entered\<close>

lemma kobject_swapin_duplicate:
  "ko_find s (ko_id (hdr (ks_obj s ko))) \<noteq> None \<Longrightarrow> kobject_swapin ko s = (Panic, s)"
  by (auto simp: kobject_swapin_def hd_of_def obj_def kbind_get kthen_case kassert_def kret_def kpanic_def)

lemma kobject_swapin_found:
  assumes "kobject_swapin ko s = (Ret (), t)" "ko_type (hdr (ks_obj s ko)) \<in> {kobj_label, kobj_container, kobj_gate}"
  shows "ko_find s (ko_id (hdr (ks_obj s ko))) = None \<and> ko_find t (ko_id (hdr (ks_obj s ko))) = Some ko \<and>
    fst (kobject_negative_contains (ko_id (hdr (ks_obj s ko))) t) = Ret False \<and> ko_pin (hdr (ks_obj t ko)) = 0 \<and>
    \<not> has_flag (ko_flags (hdr (ks_obj t ko))) KOBJ_DIRTY"
proof -
  let ?h = "hdr (ks_obj s ko)"
  have fl: "(x AND - 157) AND 8 = 0" for x :: u32 by (simp add: and.assoc)
  have "ko_id ?h \<noteq> 0" "ko_find s (ko_id ?h) = None" using assms
    by (auto simp: kobject_swapin_def hd_of_def obj_def kbind_get kthen_case kassert_def kret_def kpanic_def split: if_splits)
  then show ?thesis
    using assms
    by (auto simp: kobject_swapin_def hd_of_def obj_def kbind_get kthen_case kassert_def kret_def kobject_negative_remove_def upd_neg_def
      upd_hdr_def upd_obj_def ko_find_def ko_chain_def kobject_negative_contains_def kget_def has_flag_def KOBJ_DIRTY_def Let_def
      KOBJ_SNAPSHOTING_def KOBJ_SHARED_MAPPINGS_def KOBJ_SNAPSHOT_DIRTY_def fl)
qed

subsection \<open>Waking the threads that wait for a snapshot\<close>

lemma wake_all_ends:
  assumes "thread_inv s" "0 \<notin> set (thread_list s q)" "q \<noteq> thread_list_runnable"
  shows "\<exists>s'. wake_all (length (thread_list s q)) q s = (Ret (), s') \<and> thread_inv s' \<and> thread_list s' q = [] \<and>
    set (thread_list s' thread_list_runnable) = set (thread_list s q) \<union> set (thread_list s thread_list_runnable)"
  using assms(1,2)
proof (induction "thread_list s q" arbitrary: s)
  case Nil
  then show ?case by (simp add: wake_all.simps kbind_get kret_def)
next
  case (Cons t ts)
  have l: "thread_list s q = t # ts" and t0: "t \<noteq> 0" using Cons.hyps(2) [symmetric] Cons.prems(2) by auto
  have disj: "\<And>a b. a \<noteq> b \<Longrightarrow> set (thread_list s a) \<inter> set (thread_list s b) = {}" using Cons.prems(1) by (simp add: thread_inv_def)
  have "where_is s t = Some q" using where_is_Some [OF disj] l by simp
  then have lk: "th_linked (th (ks_obj s t))" using Cons.prems(1) by (simp add: thread_inv_def thread_ok_def)
  obtain s1 where s1: "thread_set_runnable t s = (Ret (), s1)"
    "tview s1 = (tview s)(t := place_view (Some thread_list_runnable) (status_of (Some thread_list_runnable)) (v_tickets (tview s t)))"
    "thread_list s1 = (\<lambda>q. if Some thread_list_runnable = Some q then t # unlinked s t q else unlinked s t q)"
    using thread_step_effect [OF t0, of SetRunnable s] by auto
  have inv: "thread_inv s1" using thread_place [OF Cons.prems(1) s1(2,3)] by blast
  have q1: "ts = thread_list s1 q" "0 \<notin> set (thread_list s1 q)" using s1(3) assms(3) Cons.prems(2) l lk by (auto simp: unlinked_def)
  have run: "set (thread_list s1 thread_list_runnable) = insert t (set (thread_list s thread_list_runnable))"
    using s1(3) lk disj [OF assms(3)] l by (auto simp: unlinked_def set_remove1_eq dest: notin_set_remove1 intro: in_set_remove1 [THEN iffD2])
  obtain s' where "wake_all (length ts) q s1 = (Ret (), s')" "thread_inv s'" "thread_list s' q = []"
    "set (thread_list s' thread_list_runnable) = set ts \<union> set (thread_list s1 thread_list_runnable)"
    using Cons.hyps(1) [OF q1(1) inv q1(2)] q1(1) by auto
  moreover have "wake_all (length (t # ts)) q s = wake_all (length ts) q s1"
    by (subst wake_all.simps) (simp add: kbind_get l kthen_case s1(1))
  ultimately show ?case using run l by auto
qed

end
