(* ===== verification/Syscall.thy ===== *)
theory Syscall
  imports Kobjlife
begin

unbundle bit_operations_syntax

text \<open>
  The system calls (\<^verbatim>\<open>src/kern/kern/syscall.c\<close>). \<open>cl\<close> and \<open>cc\<close> are the variables \<^verbatim>\<open>cur_th_label\<close> and \<^verbatim>\<open>cur_th_clearance\<close>, which
  \<^verbatim>\<open>syscall_exec\<close> sets before it calls a handler. A handler returns a signed 64-bit number, negative for errors; here it is the word of
  the result, or an error. A pointer of the user is the word that the user passed, and 0 is the null pointer.

  The calls that end in a device driver (console, frame buffer, network, mouse and reboot) are an argument of the dispatcher.

  The theory has the definitions only. The call that moves quota is treated in the theory on moving quota and the dispatcher in the theory on traps; what the
  handlers rely on (finding objects with the flow check, labels, containers, quotas) is proved in the theories of those parts.
\<close>

subsection \<open>Helper functions\<close>

definition KOBJ_NAME_LEN :: nat where "KOBJ_NAME_LEN = 32"
definition KOBJ_META_LEN :: nat where "KOBJ_META_LEN = 64"

text \<open>The loop of \<^verbatim>\<open>strncpy\<close> (\<^verbatim>\<open>string.c\<close>), which stays on the terminating zero; \<open>src\<close> has at least \<open>n\<close> bytes here.\<close>

fun strncpy :: "nat \<Rightarrow> u8 list \<Rightarrow> u8 list" where
  "strncpy 0 src = []"
| "strncpy (Suc n) [] = 0 # strncpy n []"
| "strncpy (Suc n) (c # src) = c # strncpy n (if c \<noteq> 0 then src else c # src)"

definition alloc_set_name :: "ptr \<Rightarrow> u64 \<Rightarrow> unit kernel" where
  "alloc_set_name ko name =
     kwhen (name \<noteq> 0)
       (kthen (check_user_access2 name (of_nat KOBJ_NAME_LEN) 0)
       (kbind (user_load name (KOBJ_NAME_LEN - 1)) (\<lambda>bs.
        upd_hdr ko (\<lambda>h. h\<lparr> ko_name := strncpy (KOBJ_NAME_LEN - 1) bs @ drop (KOBJ_NAME_LEN - 1) (ko_name h) \<rparr>))))"

definition alloc_ulabel :: "u64 \<Rightarrow> ptr \<Rightarrow> ptr kernel" where
  "alloc_ulabel ul inherit_from =
     (if ul \<noteq> 0 then ulabel_to_label ul
      else if inherit_from \<noteq> 0
      then kbind (hd_of inherit_from) (\<lambda>h.
           kbind (if ko_type h = kobj_label then kret inherit_from else kobject_get_label inherit_from kolabel_tracking) (\<lambda>l.
           if l = 0 then kerr E_INVAL else kret l))
      else kerr E_INVAL)"

text \<open>Putting a new object into a container, as all calls that make objects end.\<close>

definition put_new :: "ptr \<Rightarrow> ptr \<Rightarrow> u64 kernel" where
  "put_new c ko =
     kthen (kobject_dirty c)
    (kthen (container_put c ko 0)
       (kget (\<lambda>s. ko_id (hdr (ks_obj s ko)))))"

subsection \<open>Objects\<close>

definition sys_device_create :: "u64 \<Rightarrow> u64 \<Rightarrow> u64 \<Rightarrow> u64 \<Rightarrow> u8 \<Rightarrow> u64 kernel" where
  "sys_device_create container card_idx ul name type =
     kbind (kget user_root_ct) (\<lambda>root.
     kthen (kobject_get root kobj_container iflow_rw)
    (kbind (alloc_ulabel ul 0) (\<lambda>l.
     kbind (kobject_alloc kobj_device l 0) (\<lambda>ko.
     kthen (alloc_set_name ko name)
    (kthen (upd_obj ko (\<lambda>k. k\<lparr> dv := (dv k)\<lparr> dv_type := type, dv_idx := card_idx \<rparr> \<rparr>))
    (kthen (device_swapin ko)
    (kbind (container_find container iflow_rw) (\<lambda>c. put_new c ko))))))))"

definition sys_container_alloc :: "u64 \<Rightarrow> u64 \<Rightarrow> u64 \<Rightarrow> u64 \<Rightarrow> u64 \<Rightarrow> u64 kernel" where
  "sys_container_alloc parent_ct ul name avoid_types quota =
     kbind (container_find parent_ct iflow_rw) (\<lambda>parent.
     kbind (alloc_ulabel ul parent) (\<lambda>l.
     kbind (container_alloc l) (\<lambda>c.
     kthen (alloc_set_name c name)
    (kbind (kget (\<lambda>s. ct_avoid_types (ct (ks_obj s parent)))) (\<lambda>avoid.
     kthen (upd_ct c (\<lambda>x. x\<lparr> ct_avoid_types := avoid OR avoid_types \<rparr>))
    (kthen (upd_hdr c (\<lambda>h. h\<lparr> ko_quota_total := min (ko_quota_total h + min quota CT_QUOTA_INF) CT_QUOTA_INF \<rparr>))
       (put_new parent c)))))))"

definition sys_obj_unref :: "cobj_ref \<Rightarrow> u64 kernel" where
  "sys_obj_unref cobj =
     kbind (container_find (cobj_container cobj) iflow_rw) (\<lambda>c.
     kbind (cobj_get cobj kobj_any iflow_none) (\<lambda>ko.
     kthen (kobject_dirty c)
    (kthen (container_unref c ko False)
    (kthen kobject_gc_scan
       (kret 0)))))"

definition sys_container_get_slot_id :: "u64 \<Rightarrow> u64 \<Rightarrow> u64 kernel" where
  "sys_container_get_slot_id container slot = kbind (container_find container iflow_read) (\<lambda>c. container_get c slot)"

definition sys_handle_create :: "ptr \<Rightarrow> ptr \<Rightarrow> u64 kernel" where
  "sys_handle_create cl cc =
     kbind handle_alloc (\<lambda>handle.
     kbind (label_copy cl) (\<lambda>l.
     kthen (label_set l handle LB_LEVEL_STAR)
    (kbind (label_copy cc) (\<lambda>c.
     kthen (label_set c handle 3)
    (kbind (kget cur_thread) (\<lambda>cur.
     kthen (kobject_dirty cur)
    (kbind (kobject_qres_init cur) (\<lambda>qr.
     kbind (kobject_qres_reserve qr c) (\<lambda>qr.
     ktry (thread_change_label cur l) (\<lambda>r.
     case r of
       Inl e \<Rightarrow> kthen (kobject_qres_release qr) (kerr e)
     | Inr _ \<Rightarrow>
         kbind (kget cur_thread) (\<lambda>cur.
         kthen (kobject_dirty cur)
        (kthen (kobject_set_label_prepared cur kolabel_clearance cc c (Some qr))
           (kret handle)))))))))))))"

definition sys_obj_get_type :: "cobj_ref \<Rightarrow> u64 kernel" where
  "sys_obj_get_type cobj =
     kbind (cobj_get cobj kobj_any iflow_none) (\<lambda>ko. kget (\<lambda>s. of_nat (kobject_type_num (ko_type (hdr (ks_obj s ko))))))"

definition sys_obj_get_label :: "cobj_ref \<Rightarrow> u64 \<Rightarrow> u64 kernel" where
  "sys_obj_get_label cobj ul =
     kbind (cobj_get cobj kobj_any iflow_none) (\<lambda>ko.
     kbind (hd_of ko) (\<lambda>h.
     kbind (if has_flag (ko_flags h) KOBJ_LABEL_MUTABLE then cobj_get cobj kobj_any iflow_read else kret ko) (\<lambda>ko.
     kbind (kobject_get_label ko kolabel_tracking) (\<lambda>l.
     kthen (label_to_ulabel l ul) (kret 0)))))"

definition sys_obj_get_name :: "cobj_ref \<Rightarrow> u64 \<Rightarrow> u64 kernel" where
  "sys_obj_get_name cobj name =
     kbind (cobj_get cobj kobj_any iflow_none) (\<lambda>ko.
     kthen (check_user_access2 name (of_nat KOBJ_NAME_LEN) SEGMAP_WRITE)
    (kbind (hd_of ko) (\<lambda>h.
     kthen (user_store name (strncpy KOBJ_NAME_LEN (ko_name h))) (kret 0))))"

definition sys_obj_get_quota_total :: "cobj_ref \<Rightarrow> u64 kernel" where
  "sys_obj_get_quota_total ref =
     kbind (cobj_get ref kobj_any iflow_none) (\<lambda>ko. kget (\<lambda>s. ko_quota_total (hdr (ks_obj s ko))))"

definition sys_obj_get_quota_avail :: "cobj_ref \<Rightarrow> u64 kernel" where
  "sys_obj_get_quota_avail ref =
     kbind (cobj_get ref kobj_any iflow_read) (\<lambda>ko.
     kbind (hd_of ko) (\<lambda>h. kret (if ko_quota_total h = CT_QUOTA_INF then CT_QUOTA_INF else quota_avail h)))"

definition sys_obj_get_meta :: "cobj_ref \<Rightarrow> u64 \<Rightarrow> u64 kernel" where
  "sys_obj_get_meta cobj meta =
     kbind (cobj_get cobj kobj_any iflow_read) (\<lambda>ko.
     kthen (check_user_access2 meta (of_nat KOBJ_META_LEN) SEGMAP_WRITE)
    (kbind (hd_of ko) (\<lambda>h.
     kthen (user_store meta (ko_meta h)) (kret 0))))"

definition sys_obj_set_meta :: "cobj_ref \<Rightarrow> u64 \<Rightarrow> u64 \<Rightarrow> u64 kernel" where
  "sys_obj_set_meta cobj oldm newm =
     kbind (cobj_get cobj kobj_any iflow_rw) (\<lambda>ko.
     kthen (check_user_access2 newm (of_nat KOBJ_META_LEN) 0)
    (kthen (if oldm = 0 then kret ()
       else kthen (check_user_access2 oldm (of_nat KOBJ_META_LEN) 0)
           (kbind (user_load oldm KOBJ_META_LEN) (\<lambda>old.
            kbind (hd_of ko) (\<lambda>h. if old \<noteq> ko_meta h then kerr E_AGAIN else kret ()))))
    (kthen (kobject_dirty ko)
    (kbind (user_load newm KOBJ_META_LEN) (\<lambda>new.
     kthen (upd_hdr ko (\<lambda>h. h\<lparr> ko_meta := new \<rparr>)) (kret 0))))))"

definition sys_obj_set_fixedquota :: "cobj_ref \<Rightarrow> u64 kernel" where
  "sys_obj_set_fixedquota cobj =
     kbind (cobj_get cobj kobj_any iflow_rw) (\<lambda>ko.
     kthen (kobject_dirty ko) (kthen (set_flags ko KOBJ_FIXED_QUOTA) (kret 0)))"

definition sys_obj_set_readonly :: "cobj_ref \<Rightarrow> u64 kernel" where
  "sys_obj_set_readonly cobj =
     kbind (cobj_get cobj kobj_any iflow_rw) (\<lambda>ko.
     kbind (hd_of ko) (\<lambda>h.
     if ko_type h = kobj_thread then kerr E_INVAL
     else kthen (kobject_dirty ko) (kthen (set_flags ko KOBJ_READONLY) (kret 0))))"

definition sys_obj_get_readonly :: "cobj_ref \<Rightarrow> u64 kernel" where
  "sys_obj_get_readonly cobj =
     kbind (cobj_get cobj kobj_any iflow_read) (\<lambda>ko.
     kbind (hd_of ko) (\<lambda>h. kret (if has_flag (ko_flags h) KOBJ_READONLY then 1 else 0)))"

definition sys_container_get_nslots :: "u64 \<Rightarrow> u64 kernel" where
  "sys_container_get_nslots container = kbind (container_find container iflow_read) container_nslots"

definition sys_container_get_parent :: "u64 \<Rightarrow> u64 kernel" where
  "sys_container_get_parent container =
     kbind (container_find container iflow_read) (\<lambda>c. kget (\<lambda>s. ko_parent (hdr (ks_obj s c))))"

text \<open>The new total of the child: \<open>Inl\<close> is the error. \<open>nbytes\<close> is read as a signed number.\<close>

definition move_quota_total :: "kobject_hdr \<Rightarrow> kobject_hdr \<Rightarrow> u64 \<Rightarrow> err + u64" where
  "move_quota_total ph ch nbytes =
     (if sint nbytes > 0
      then if ko_quota_total ph \<noteq> CT_QUOTA_INF \<and> quota_avail ph < nbytes then Inl E_RESOURCE
           else Inr (if ko_quota_total ch \<ge> CT_QUOTA_INF \<or> nbytes \<ge> CT_QUOTA_INF then CT_QUOTA_INF
                     else min (ko_quota_total ch + nbytes) (CT_QUOTA_INF - 1))
      else if ko_quota_total ch = CT_QUOTA_INF then Inl E_RESOURCE
      else let new_child_total = ko_quota_total ch - (- nbytes)
           in if new_child_total < ko_quota_used ch then Inl E_RESOURCE else Inr new_child_total)"

definition sys_container_move_quota :: "u64 \<Rightarrow> u64 \<Rightarrow> u64 \<Rightarrow> u64 kernel" where
  "sys_container_move_quota parent_id child_id nbytes =
     (if nbytes = 0 then kret 0
      else
        kbind (container_find parent_id iflow_rw) (\<lambda>parent.
        kbind (cobj_get (COBJ parent_id child_id) kobj_any iflow_rw) (\<lambda>child.
        kbind (kget (\<lambda>s. (hdr (ks_obj s parent), hdr (ks_obj s child)))) (\<lambda>(ph, ch).
        if has_flag (ko_flags ch) KOBJ_FIXED_QUOTA then kerr E_FIXED_QUOTA
        else case move_quota_total ph ch nbytes of
          Inl e \<Rightarrow> kerr e
        | Inr new_child_total \<Rightarrow>
            kthen (kobject_dirty parent)
           (kthen (upd_hdr parent (\<lambda>h. h\<lparr> ko_quota_used := ko_quota_used h + nbytes \<rparr>))
           (kthen (kobject_dirty child)
           (kthen (upd_hdr child (\<lambda>h. h\<lparr> ko_quota_total := new_child_total \<rparr>))
              (kret 0))))))))"

definition sys_obj_move :: "cobj_ref \<Rightarrow> u64 \<Rightarrow> u64 \<Rightarrow> u64 kernel" where
  "sys_obj_move ref new_parent ancestor =
     kbind (cobj_get ref kobj_any iflow_none) (\<lambda>ko.
     kbind (container_find (cobj_container ref) iflow_rw) (\<lambda>src.
     kbind (container_find new_parent iflow_rw) (\<lambda>dst.
     kthen (container_has_ancestor src ancestor)
    (kthen (container_has_ancestor dst ancestor)
    (kthen (kobject_dirty src)
    (kthen (container_unref src ko True)
    (kthen (kobject_dirty dst)
    (kthen (container_put dst ko 1)
    (kthen (kobject_dirty src)
    (kthen (kmust (container_unref src ko False))
       (kret 0)))))))))))"

subsection \<open>Gates and threads\<close>

definition TE_SIZE :: u64 where "TE_SIZE = 80"

definition te_decode :: "u64 list \<Rightarrow> thread_entry" where
  "te_decode w = \<lparr> te_as = COBJ (w ! 0) (w ! 1), te_entry = w ! 2, te_stack = w ! 3, te_arg = drop 4 w \<rparr>"

definition te_encode :: "thread_entry \<Rightarrow> u64 list" where
  "te_encode te = [cobj_container (te_as te), cobj_object (te_as te), te_entry te, te_stack te] @ te_arg te"

definition user_load_te :: "u64 \<Rightarrow> thread_entry kernel" where
  "user_load_te ute =
     kthen (check_user_access2 ute TE_SIZE 0)
       (kbind (user_loads64 ute 10) (\<lambda>ws. kret (te_decode ws)))"

definition upd_gt :: "ptr \<Rightarrow> (Gate \<Rightarrow> Gate) \<Rightarrow> unit kernel" where
  "upd_gt p f = upd_obj p (\<lambda>ko. ko\<lparr> gt := f (gt ko) \<rparr>)"

definition sys_gate_create :: "ptr \<Rightarrow> ptr \<Rightarrow> u64 \<Rightarrow> u64 \<Rightarrow> u64 \<Rightarrow> u64 \<Rightarrow> u64 \<Rightarrow> u64 \<Rightarrow> u32 \<Rightarrow> u64 kernel" where
  "sys_gate_create cl cc container ute u_label u_clear u_guard name entry_visible =
     kbind (container_find container iflow_rw) (\<lambda>c.
     kbind (alloc_ulabel u_label cl) (\<lambda>g_label.
     kbind (alloc_ulabel u_clear cc) (\<lambda>g_clear.
     kbind (if u_guard \<noteq> 0 then alloc_ulabel u_guard 0 else kret 0) (\<lambda>g_guard.
     kbind (gate_alloc g_label g_clear g_guard) (\<lambda>g.
     kthen (alloc_set_name g name)
    (kthen (upd_gt g (\<lambda>x. x\<lparr> gt_te_unspec := (ute = 0), gt_te_visible := (entry_visible \<noteq> 0) \<rparr>))
    (kthen (if ute \<noteq> 0
            then kbind (user_load_te ute) (\<lambda>te. upd_gt g (\<lambda>x. x\<lparr> gt_te := te, gt_te_unspec := False \<rparr>))
            else if entry_visible \<noteq> 0 then kerr E_INVAL else kret ())
       (put_new c g))))))))"

definition sys_gate_clearance :: "cobj_ref \<Rightarrow> u64 \<Rightarrow> u64 kernel" where
  "sys_gate_clearance gate ul =
     kbind (cobj_get gate kobj_gate iflow_none) (\<lambda>ko.
     kbind (kobject_get_label ko kolabel_clearance) (\<lambda>clear.
     kthen (label_to_ulabel clear ul) (kret 0)))"

definition sys_gate_get_entry :: "cobj_ref \<Rightarrow> u64 \<Rightarrow> u64 kernel" where
  "sys_gate_get_entry gate te =
     kbind (cobj_get gate kobj_gate iflow_none) (\<lambda>ko.
     kbind (kget (\<lambda>s. gt (ks_obj s ko))) (\<lambda>g.
     if \<not> gt_te_visible g then kerr E_INVAL
     else
       kthen (check_user_access2 te TE_SIZE SEGMAP_WRITE)
      (kbind (kget (\<lambda>s. gt_te (gt (ks_obj s ko)))) (\<lambda>gte.
       kthen (user_stores64 te (te_encode gte)) (kret 0)))))"

definition sys_thread_create :: "ptr \<Rightarrow> ptr \<Rightarrow> u64 \<Rightarrow> u64 \<Rightarrow> u64 kernel" where
  "sys_thread_create cl cc container name =
     kbind (container_find container iflow_rw) (\<lambda>c.
     kbind (thread_alloc cl cc) (\<lambda>t.
     kthen (alloc_set_name t name)
       (put_new c t)))"

text \<open>
  The labels with which a thread comes out of a gate, and the checks on them: the guard of the gate, and the bounds given by the gate and
  by the thread.
\<close>

definition gate_labels :: "ptr \<Rightarrow> ptr \<Rightarrow> ptr \<Rightarrow> u64 \<Rightarrow> u64 \<Rightarrow> (ptr \<times> ptr) kernel" where
  "gate_labels cl cc g ulabel uclear =
     kbind (kobject_get_label g kolabel_tracking) (\<lambda>gt_label.
     kbind (kobject_get_label g kolabel_clearance) (\<lambda>gt_clear.
     kbind (kobject_get_label g kolabel_verify_tracking) (\<lambda>gt_verify.
     kthen (kwhen (gt_verify \<noteq> 0) (label_compare cl gt_verify label_leq_starlo False))
    (kbind (label_max gt_label cl label_leq_starhi) (\<lambda>label_bound.
     kbind (label_max gt_clear cc label_leq_starlo) (\<lambda>clear_bound.
     kbind (alloc_ulabel ulabel 0) (\<lambda>new_label.
     kbind (alloc_ulabel uclear 0) (\<lambda>new_clear.
     kthen (label_compare label_bound new_label label_leq_starlo False)
    (kthen (label_compare new_label new_clear label_leq_starlo False)
    (kthen (label_compare new_clear clear_bound label_leq_starhi False)
       (kret (new_label, new_clear))))))))))))"

text \<open>For a gate with a fixed entry the thread's own verify labels have to hold.\<close>

definition verify_labels :: "ptr \<Rightarrow> ptr \<Rightarrow> unit kernel" where
  "verify_labels cl cc =
     kbind (kget cur_thread) (\<lambda>cur.
     kbind (kobject_get_label cur kolabel_verify_tracking) (\<lambda>vl.
     kbind (kobject_get_label cur kolabel_verify_clearance) (\<lambda>vc.
     kthen (kwhen (vl \<noteq> 0) (label_compare cl vl label_leq_starlo False))
       (kwhen (vc \<noteq> 0) (label_compare vc cc label_leq_starhi False)))))"

definition sys_gate_enter :: "ptr \<Rightarrow> ptr \<Rightarrow> cobj_ref \<Rightarrow> u64 \<Rightarrow> u64 \<Rightarrow> u64 \<Rightarrow> u64 kernel" where
  "sys_gate_enter cl cc gate ulabel uclear ute =
     kbind (cobj_get gate kobj_gate iflow_none) (\<lambda>g.
     kbind (gate_labels cl cc g ulabel uclear) (\<lambda>(new_label, new_clear).
     kbind (kget (\<lambda>s. gt_te_unspec (gt (ks_obj s g)))) (\<lambda>unspec.
     if (ute \<noteq> 0 \<and> \<not> unspec) \<or> (ute = 0 \<and> unspec) then kerr E_INVAL
     else
       kthen (kwhen (ute = 0) (verify_labels cl cc))
      (kbind (if ute \<noteq> 0 then user_load_te ute else kget (\<lambda>s. gt_te (gt (ks_obj s g)))) (\<lambda>te.
       kbind (kget cur_thread) (\<lambda>cur.
       kthen (thread_jump cur new_label new_clear te) (kret 0)))))))"

text \<open>The labels with which a new thread starts, checked against those of the thread that starts it.\<close>

definition start_labels :: "ptr \<Rightarrow> ptr \<Rightarrow> u64 \<Rightarrow> u64 \<Rightarrow> (ptr \<times> ptr) kernel" where
  "start_labels cl cc ul uclear =
     kbind (alloc_ulabel ul cl) (\<lambda>new_label.
     kbind (alloc_ulabel uclear cc) (\<lambda>new_clearance.
     kthen (label_compare cl new_label label_leq_starlo False)
    (kthen (label_compare new_label new_clearance label_leq_starlo False)
    (kthen (label_compare new_clearance cc label_leq_starhi False)
       (kret (new_label, new_clearance))))))"

definition sys_thread_start :: "ptr \<Rightarrow> ptr \<Rightarrow> cobj_ref \<Rightarrow> u64 \<Rightarrow> u64 \<Rightarrow> u64 \<Rightarrow> u64 kernel" where
  "sys_thread_start cl cc thread ute ul uclear =
     kbind (user_load_te ute) (\<lambda>te.
     kbind (cobj_get thread kobj_thread iflow_rw) (\<lambda>t.
     kthen (kobject_dirty t)
    (kbind (kget (\<lambda>s. th_status (th (ks_obj s t)))) (\<lambda>status.
     if status \<noteq> thread_not_started then kerr E_INVAL
     else
       kbind (start_labels cl cc ul uclear) (\<lambda>(new_label, new_clearance).
       kthen (thread_jump t new_label new_clearance te)
      (kthen (thread_set_sched_parents t (cobj_container thread) 0)
      (kthen (thread_set_runnable t)
         (kret 0))))))))"

definition UTRAP_SRC_USER :: u32 where "UTRAP_SRC_USER = 2"

definition sys_thread_trap :: "ptr \<Rightarrow> cobj_ref \<Rightarrow> cobj_ref \<Rightarrow> u32 \<Rightarrow> u64 \<Rightarrow> u64 kernel" where
  "sys_thread_trap cl thread asref trapno arg =
     kbind (cobj_get thread kobj_thread iflow_none) (\<lambda>t.
     kthen (cobj_get asref kobj_address_space iflow_rw)
    (kbind (kobject_get_label t kolabel_tracking) (\<lambda>th_label.
     kbind (label_max th_label cl label_leq_starhi) (\<lambda>lmax.
     kthen (label_compare lmax cl label_leq_starlo False)
    (kbind (kget (\<lambda>s. th_asref (th (ks_obj s t)))) (\<lambda>r.
     if cobj_object r \<noteq> cobj_object asref then kerr E_INVAL
     else kthen (thread_utrap t UTRAP_SRC_USER trapno arg) (kret 0)))))))"

subsection \<open>The current thread\<close>

definition sys_self_yield :: "unit kernel \<Rightarrow> u64 kernel" where
  "sys_self_yield notify = kthen (schedule notify) (kret 0)"

definition sys_self_halt :: "u64 kernel" where
  "sys_self_halt = kbind (kget cur_thread) (\<lambda>cur. kthen (thread_halt cur) (kret 0))"

definition sys_self_id :: "u64 kernel" where
  "sys_self_id = kget (\<lambda>s. ko_id (hdr (ks_obj s (cur_thread s))))"

definition sys_self_addref :: "u64 \<Rightarrow> u64 kernel" where
  "sys_self_addref container =
     kbind (container_find container iflow_rw) (\<lambda>c.
     kthen (kobject_dirty c)
    (kbind (kget cur_thread) (\<lambda>cur.
     kthen (container_put c cur 0) (kret 0))))"

definition sys_self_get_as :: "u64 \<Rightarrow> u64 kernel" where
  "sys_self_get_as as_ref =
     kthen (check_user_access2 as_ref 16 SEGMAP_WRITE)
    (kbind (kget (\<lambda>s. th_asref (th (ks_obj s (cur_thread s))))) (\<lambda>r.
     kthen (user_stores64 as_ref [cobj_container r, cobj_object r]) (kret 0)))"

definition sys_self_set_as :: "cobj_ref \<Rightarrow> u64 kernel" where
  "sys_self_set_as as_ref = kbind (kget cur_thread) (\<lambda>cur. kthen (thread_change_as cur as_ref) (kret 0))"

definition sys_self_set_label :: "ptr \<Rightarrow> ptr \<Rightarrow> u64 \<Rightarrow> u64 kernel" where
  "sys_self_set_label cl cc ul =
     kbind (alloc_ulabel ul 0) (\<lambda>l.
     kthen (label_compare cl l label_leq_starlo False)
    (kthen (label_compare l cc label_leq_starlo False)
    (kbind (kget cur_thread) (\<lambda>cur.
     kthen (thread_change_label cur l) (kret 0)))))"

definition sys_self_set_clearance :: "ptr \<Rightarrow> ptr \<Rightarrow> u64 \<Rightarrow> u64 kernel" where
  "sys_self_set_clearance cl cc uclear =
     kbind (alloc_ulabel uclear 0) (\<lambda>clearance.
     kbind (label_max cc cl label_leq_starhi) (\<lambda>clearance_bound.
     kthen (label_compare cl clearance label_leq_starlo False)
    (kthen (label_compare clearance clearance_bound label_leq_starhi False)
    (kbind (kget cur_thread) (\<lambda>cur.
     kthen (kobject_dirty cur)
    (kthen (kobject_set_label cur kolabel_clearance clearance) (kret 0)))))))"

definition sys_self_get_clearance :: "ptr \<Rightarrow> u64 \<Rightarrow> u64 kernel" where
  "sys_self_get_clearance cc uclear = kthen (label_to_ulabel cc uclear) (kret 0)"

definition sys_self_set_verify :: "u64 \<Rightarrow> u64 \<Rightarrow> u64 kernel" where
  "sys_self_set_verify uvl uvc =
     kbind (alloc_ulabel uvl 0) (\<lambda>vl.
     kbind (alloc_ulabel uvc 0) (\<lambda>vc.
     kbind (kget cur_thread) (\<lambda>tko.
     kthen (kobject_dirty tko)
    (kbind (kobject_get_label tko kolabel_verify_tracking) (\<lambda>ovl.
     kbind (kobject_get_label tko kolabel_verify_clearance) (\<lambda>ovc.
     kbind (kobject_qres_init tko) (\<lambda>qr.
     kbind (kobject_qres_reserve qr vl) (\<lambda>qr.
     ktry (kobject_qres_reserve qr vc) (\<lambda>r.
     case r of
       Inl e \<Rightarrow> kthen (kobject_qres_release qr) (kerr e)
     | Inr qr \<Rightarrow>
         kbind (kobject_set_label_prepared tko kolabel_verify_tracking ovl vl (Some qr)) (\<lambda>qr.
         kthen (kobject_set_label_prepared tko kolabel_verify_clearance ovc vc qr) (kret 0)))))))))))"

definition sys_self_get_verify :: "u64 \<Rightarrow> u64 \<Rightarrow> u64 kernel" where
  "sys_self_get_verify uvl uvc =
     kbind (kget cur_thread) (\<lambda>cur.
     kbind (kobject_get_label cur kolabel_verify_tracking) (\<lambda>vl.
     kbind (kobject_get_label cur kolabel_verify_clearance) (\<lambda>vc.
     kbind (if vl = 0 then label_alloc 3 else kret vl) (\<lambda>vl.
     kbind (if vc = 0 then label_alloc 0 else kret vc) (\<lambda>vc.
     kthen (label_to_ulabel vl uvl) (kthen (label_to_ulabel vc uvc) (kret 0)))))))"

definition sys_self_fp_enable :: "u64 kernel" where
  "sys_self_fp_enable = kbind (kget cur_thread) (\<lambda>cur. kthen (thread_enable_fp cur) (kret 0))"

definition sys_self_fp_disable :: "u64 kernel" where
  "sys_self_fp_disable = kbind (kget cur_thread) (\<lambda>cur. kthen (thread_disable_fp cur) (kret 0))"

definition sys_self_set_waitslots :: "u64 \<Rightarrow> u64 kernel" where
  "sys_self_set_waitslots nslots = kbind (kget cur_thread) (\<lambda>cur. kthen (thread_set_waitslots cur nslots) (kret 0))"

definition sys_self_set_sched_parents :: "u64 \<Rightarrow> u64 \<Rightarrow> u64 kernel" where
  "sys_self_set_sched_parents p0 p1 = kbind (kget cur_thread) (\<lambda>cur. kthen (thread_set_sched_parents cur p0 p1) (kret 0))"

definition sys_self_set_cflush :: "u32 \<Rightarrow> u64 kernel" where
  "sys_self_set_cflush cflush =
     kbind (kget cur_thread) (\<lambda>cur.
     kthen (kobject_dirty cur) (kthen (upd_th cur (\<lambda>x. x\<lparr> th_cache_flush := (cflush \<noteq> 0) \<rparr>)) (kret 0)))"

text \<open>On amd64 the arguments are in registers and \<^verbatim>\<open>thread_arch_get_entry_args\<close> always fails.\<close>

definition sys_self_get_entry_args :: "u64 \<Rightarrow> u64 kernel" where
  "sys_self_get_entry_args targ = kthen (check_user_access2 targ 48 SEGMAP_WRITE) (kerr E_INVAL)"

subsection \<open>Synchronization and time\<close>

definition sys_sync_wait :: "u64 \<Rightarrow> u64 \<Rightarrow> u64 \<Rightarrow> u64 kernel" where
  "sys_sync_wait addr val wakeup_at_nsec = kthen (sync_wait (\<lambda>_. kret (addr, val, 0)) 1 wakeup_at_nsec) (kret 0)"

definition sys_sync_wait_multi :: "u64 \<Rightarrow> u64 \<Rightarrow> u64 \<Rightarrow> u64 \<Rightarrow> u64 \<Rightarrow> u64 kernel" where
  "sys_sync_wait_multi addrs vals refcts num nsec =
     (let (len, ov) = safe_mul64 8 num
      in kthen (check_user_access2 vals len 0)
        (kthen (check_user_access2 addrs len 0)
        (kthen (check_user_access2 refcts len 0)
        (if ov then kerr E_INVAL
         else
           kthen (sync_wait (\<lambda>i.
               kbind (user_load64 (addrs + 8 * i)) (\<lambda>addr.
               kbind (user_load64 (vals + 8 * i)) (\<lambda>val.
               kbind (if refcts \<noteq> 0 then user_load64 (refcts + 8 * i) else kret 0) (\<lambda>refct.
               kret (addr, val, refct))))) num nsec)
             (kret 0)))))"

definition sys_sync_wakeup :: "u64 \<Rightarrow> u64 kernel" where
  "sys_sync_wakeup addr = kthen (check_user_access2 addr 8 SEGMAP_WRITE) (kthen (sync_wakeup_addr addr) (kret 0))"

definition sys_clock_nsec :: "u64 kernel" where
  "sys_clock_nsec = timer_user_nsec"

subsection \<open>Segments and address spaces\<close>

definition sys_segment_create :: "u64 \<Rightarrow> u64 \<Rightarrow> u64 \<Rightarrow> u64 \<Rightarrow> u64 kernel" where
  "sys_segment_create container num_bytes ul name =
     kbind (container_find container iflow_rw) (\<lambda>c.
     kbind (alloc_ulabel ul c) (\<lambda>l.
     kbind (segment_alloc l) (\<lambda>sg.
     kthen (alloc_set_name sg name)
    (kthen (segment_set_nbytes sg num_bytes)
       (put_new c sg)))))"

definition sys_segment_copy :: "cobj_ref \<Rightarrow> u64 \<Rightarrow> u64 \<Rightarrow> u64 \<Rightarrow> u64 kernel" where
  "sys_segment_copy seg container ul name =
     kbind (container_find container iflow_rw) (\<lambda>c.
     kbind (cobj_get seg kobj_segment iflow_read) (\<lambda>src.
     kbind (alloc_ulabel ul c) (\<lambda>l.
     kbind (segment_copy src l) (\<lambda>sg.
     kthen (alloc_set_name sg name)
       (put_new c sg)))))"

definition sys_segment_addref :: "cobj_ref \<Rightarrow> u64 \<Rightarrow> u64 kernel" where
  "sys_segment_addref seg container =
     kbind (container_find container iflow_rw) (\<lambda>c.
     kbind (cobj_get seg kobj_segment iflow_read) (\<lambda>ko.
     kthen (kobject_dirty c)
    (kthen (container_put c ko 0) (kret 0))))"

definition sys_segment_resize :: "cobj_ref \<Rightarrow> u64 \<Rightarrow> u64 kernel" where
  "sys_segment_resize sg_cobj num_bytes =
     kbind (cobj_get sg_cobj kobj_segment iflow_rw) (\<lambda>ko.
     kthen (kobject_dirty ko)
    (kthen (segment_set_nbytes ko num_bytes) (kret 0)))"

definition sys_segment_get_nbytes :: "cobj_ref \<Rightarrow> u64 kernel" where
  "sys_segment_get_nbytes sg_cobj =
     kbind (cobj_get sg_cobj kobj_segment iflow_read) (\<lambda>ko. kget (\<lambda>s. ko_nbytes (hdr (ks_obj s ko))))"

definition sys_segment_sync :: "cobj_ref \<Rightarrow> u64 \<Rightarrow> u64 \<Rightarrow> u64 \<Rightarrow> u64 kernel" where
  "sys_segment_sync seg start nbytes pstate_ts =
     kbind (cobj_get seg kobj_segment iflow_rw) (\<lambda>ko.
     kthen (pstate_sync_object pstate_ts ko start nbytes) (kret 0))"

definition sys_as_create :: "u64 \<Rightarrow> u64 \<Rightarrow> u64 \<Rightarrow> u64 kernel" where
  "sys_as_create container ul name =
     kbind (container_find container iflow_rw) (\<lambda>c.
     kbind (alloc_ulabel ul c) (\<lambda>l.
     kbind (as_alloc l) (\<lambda>as.
     kthen (alloc_set_name as name)
       (put_new c as))))"

definition sys_as_copy :: "cobj_ref \<Rightarrow> u64 \<Rightarrow> u64 \<Rightarrow> u64 \<Rightarrow> u64 kernel" where
  "sys_as_copy as container ul name =
     kbind (container_find container iflow_rw) (\<lambda>c.
     kbind (cobj_get as kobj_address_space iflow_read) (\<lambda>src.
     kbind (alloc_ulabel ul c) (\<lambda>l.
     kbind (as_copy src l) (\<lambda>nas.
     kthen (alloc_set_name nas name)
       (put_new c nas)))))"

definition sys_as_get :: "cobj_ref \<Rightarrow> u64 \<Rightarrow> u64 kernel" where
  "sys_as_get asref uas =
     kbind (cobj_get asref kobj_address_space iflow_read) (\<lambda>ko. kthen (as_to_user ko uas) (kret 0))"

definition sys_as_set :: "cobj_ref \<Rightarrow> u64 \<Rightarrow> u64 kernel" where
  "sys_as_set asref uas =
     kbind (cobj_get asref kobj_address_space iflow_rw) (\<lambda>ko.
     kthen (kobject_dirty ko) (kthen (as_from_user ko uas) (kret 0)))"

definition sys_as_get_slot :: "cobj_ref \<Rightarrow> u64 \<Rightarrow> u64 kernel" where
  "sys_as_get_slot asref usm =
     kbind (cobj_get asref kobj_address_space iflow_read) (\<lambda>ko.
     kthen (kobject_dirty ko) (kthen (as_get_uslot ko usm) (kret 0)))"

definition sys_as_set_slot :: "cobj_ref \<Rightarrow> u64 \<Rightarrow> u64 kernel" where
  "sys_as_set_slot asref usm =
     kbind (cobj_get asref kobj_address_space iflow_rw) (\<lambda>ko.
     kthen (kobject_dirty ko) (kthen (as_set_uslot ko usm) (kret 0)))"

definition sys_pstate_timestamp :: "u64 kernel" where
  "sys_pstate_timestamp = pstate_ts_alloc"

definition sys_pstate_sync :: "u64 \<Rightarrow> u64 kernel" where
  "sys_pstate_sync timestamp = kthen (pstate_sync_user timestamp) (kret 0)"

end
