(* ===== verification/Quotamove.thy ===== *)
theory Quotamove
  imports Borrow Syscall
begin

text \<open>
  The quota system call \<^verbatim>\<open>sys_container_move_quota\<close> (\<^verbatim>\<open>src/kern/kern/syscall.c\<close>): what it does to the books of the parent and of the
  child, that quota is conserved as long as no more is taken from the child than it has, and that it is not otherwise.
\<close>

subsection \<open>Looking up leaves the books alone\<close>

lemma same_books_slot_find: "same_books (container_slot_find c kid page_shared_ro)"
  unfolding container_slot_find_def slot_search_def paged_search_def hd_of_def kobject_get_page_shared_ro
  by (intro same_books_intros same_books_page_ro) (auto intro!: same_books_intros same_books_page_ro same_books_flags split: option.split)

lemma same_books_ktry_plain:
  assumes m: "same_books m" and f: "\<And>e. e \<noteq> E_AGAIN \<Longrightarrow> same_books (f (Inl e))" "\<And>a. same_books (f (Inr a))"
  shows "same_books (ktry m f)"
proof (rule same_booksI)
  fix s r s' assume run: "ktry m f s = (r, s')"
  obtain rm s1 where rm: "m s = (rm, s1)" by fastforce
  then have v: "plain rm" "quota_view s1 = quota_view s" using same_booksD [OF m] by blast+
  show "plain r \<and> quota_view s' = quota_view s"
    using run rm v same_booksD [OF f(1)] same_booksD [OF f(2)] by (cases rm) (fastforce simp: ktry_def plain_def)+
qed

lemma same_books_cobj_get: "same_books (cobj_get ref ty iflow)"
  unfolding cobj_get_def container_find_def hd_of_def Let_def
  by (rule same_books_kbind same_books_ktry_plain)+
    (auto intro!: same_books_kbind same_books_ktry_plain same_books_control(1-3) same_books_prims same_books_get same_books_slot_find split: sum.split)

lemma cobj_get_found:
  assumes "cobj_get ref ty iflow s = (Ret ko, s')" "cobj_object ref \<noteq> kobject_id_thread_sg"
  shows "ko_find s (cobj_object ref) = Some ko"
proof -
  obtain s1 where "kobject_get (cobj_object ref) ty iflow s = (Ret ko, s1)" using assms(1) by (rule cobj_get_steps) blast+
  then show ?thesis using kobject_get_found assms(2) by blast
qed

subsection \<open>What a move of quota does\<close>

text \<open>The new total of the child as a function of the books.\<close>

definition book_total :: "book \<Rightarrow> book \<Rightarrow> u64 \<Rightarrow> err + u64" where
  "book_total p c n =
     (if sint n > 0
      then if short_of p n then Inl E_RESOURCE
           else Inr (if b_total c \<ge> CT_QUOTA_INF \<or> n \<ge> CT_QUOTA_INF then CT_QUOTA_INF else min (b_total c + n) (CT_QUOTA_INF - 1))
      else if b_total c = CT_QUOTA_INF \<or> b_total c + n < b_used c then Inl E_RESOURCE else Inr (b_total c + n))"

lemma move_quota_total_books: "move_quota_total (hdr (ks_obj s p)) (hdr (ks_obj s c)) n = book_total (books s p) (books s c) n"
  by (simp add: move_quota_total_def book_total_def books_sel short_of_def quota_avail_def Let_def)

lemma upd_hdr_total_books:
  "upd_hdr p (\<lambda>h. h\<lparr> ko_quota_total := v \<rparr>) s = (Ret (), s') \<Longrightarrow>
    books s' = (books s)(p := (books s p)\<lparr> b_total := v \<rparr>) \<and> ko_list s' = ko_list s"
  by (auto simp: upd_hdr_def upd_obj_def books_def hdr_book_def fun_eq_iff)

lemma dirty_books: "kobject_dirty p s = (r, s') \<Longrightarrow> books s' = books s \<and> ko_list s' = ko_list s"
  using same_booksD [OF same_books_flags(1)] same_books_core by blast

lemma move_quota_run:
  assumes "sys_container_move_quota pid cid n s = (Ret r, t)" "n \<noteq> 0"
    "pid \<noteq> kobject_id_thread_sg" "cid \<noteq> kobject_id_thread_sg"
  obtains p c v where "ko_find s pid = Some p" "ko_find s cid = Some c" "\<not> b_fixed (books s c)"
    "book_total (books s p) (books s c) n = Inr v"
    "books t = (charge p n (books s))(c := (charge p n (books s) c)\<lparr> b_total := v \<rparr>)" "ko_list t = ko_list s"
proof -
  from assms(1,2) obtain p c v s1 s2 s3 s4 s5 s6 where
    run: "container_find pid iflow_rw s = (Ret p, s1)" "cobj_get (COBJ pid cid) kobj_any iflow_rw s1 = (Ret c, s2)"
      "\<not> has_flag (ko_flags (hdr (ks_obj s2 c))) KOBJ_FIXED_QUOTA"
      "move_quota_total (hdr (ks_obj s2 p)) (hdr (ks_obj s2 c)) n = Inr v"
      "kobject_dirty p s2 = (Ret (), s3)" "upd_hdr p (\<lambda>h. h\<lparr> ko_quota_used := ko_quota_used h + n \<rparr>) s3 = (Ret (), s4)"
      "kobject_dirty c s4 = (Ret (), s5)" "upd_hdr c (\<lambda>h. h\<lparr> ko_quota_total := v \<rparr>) s5 = (Ret (), t)"
    by (auto simp: sys_container_move_quota_def kbind_get kret_def kerr_def elim!: kbind_RetE kthen_RetE split: if_splits sum.splits)
  have v: "quota_view s1 = quota_view s" "quota_view s2 = quota_view s1"
    using same_booksD [OF same_books_get run(1) [unfolded container_find_def]] same_booksD [OF same_books_cobj_get run(2)] by simp_all
  note b = same_books_core [OF v(1)] same_books_core [OF v(2)]
  have p: "ko_find s pid = Some p" using kobject_get_found [OF run(1) [unfolded container_find_def] assms(3)] by blast
  have c: "ko_find s cid = Some c" using cobj_get_found [OF run(2)] assms(4) b by simp
  have f: "\<not> b_fixed (books s c)" using run(3) b by (metis books_sel(6))
  have m: "book_total (books s p) (books s c) n = Inr v" using run(4) b by (simp add: move_quota_total_books)
  have "books s4 = charge p n (books s)" "ko_list s4 = ko_list s"
    using upd_used_books [OF run(6)] dirty_books [OF run(5)] b by simp_all
  then have "books t = (charge p n (books s))(c := (charge p n (books s) c)\<lparr> b_total := v \<rparr>)" "ko_list t = ko_list s"
    using upd_hdr_total_books [OF run(8)] dirty_books [OF run(7)] by simp_all
  with p c f m show thesis by (rule that)
qed

lemma sint_unat: "sint w = int (unat w) - 2 ^ 64 * of_bool (bit (uint (w :: u64)) 63)"
  using signed_take_bit_eq_take_bit_minus [of 63 "uint w"] take_bit_int_eq_self [of "uint w" 64] uint_lt2p [of w]
  by (simp add: sint_uint)

lemma sint_pos_unat: "0 < sint n \<Longrightarrow> unat (n :: u64) = nat (sint n)"
  using sint_unat [of n] uint_lt2p [of n] by (cases "bit (uint n) 63") simp_all

lemma sint_neg_unat: "sint n < 0 \<Longrightarrow> int (unat (n :: u64)) = sint n + 2 ^ 64"
  using sint_unat [of n] by (cases "bit (uint n) 63") simp_all

lemma give_total:
  assumes "unat (a :: u64) \<le> m" "0 < sint n" "m + nat (sint n) < 2 ^ 62"
  shows "\<not> CT_QUOTA_INF \<le> a" "\<not> CT_QUOTA_INF \<le> n" "min (a + n) (CT_QUOTA_INF - 1) = a + n" "unat n = nat (sint n)"
proof -
  show n: "unat n = nat (sint n)" using assms(2) by (rule sint_pos_unat)
  have i: "unat CT_QUOTA_INF = 2 ^ 62" "unat (CT_QUOTA_INF - 1) = 2 ^ 62 - 1" by (simp_all add: CT_QUOTA_INF_def)
  show "\<not> CT_QUOTA_INF \<le> a" "\<not> CT_QUOTA_INF \<le> n" using assms i n by (simp_all add: word_le_nat_alt)
  have "unat a + unat n < 2 ^ LENGTH(64)" using assms n by simp
  then have "unat (a + n) = unat a + unat n" by (simp add: unat_add_lem [symmetric])
  then have "a + n \<le> CT_QUOTA_INF - 1" using assms n i by (simp add: word_le_nat_alt)
  then show "min (a + n) (CT_QUOTA_INF - 1) = a + n" by simp
qed

lemma add_neg:
  assumes "sint n < 0" "0 \<le> int (unat (a :: u64)) + sint n"
  shows "int (unat (a + n)) = int (unat a) + sint n"
proof -
  have "int (unat (a + n)) = (int (unat a) + (sint n + 2 ^ 64)) mod 2 ^ 64"
    using sint_neg_unat [OF assms(1)] by (simp add: unat_word_ariths zmod_int)
  also have "\<dots> = (int (unat a) + sint n) mod 2 ^ 64" by (metis add.assoc mod_add_self2)
  also have "\<dots> = int (unat a) + sint n" using assms uint_lt2p [of a] by (intro mod_pos_pos_trivial) simp_all
  finally show ?thesis .
qed

lemma take_total:
  assumes "sint n < 0" "0 \<le> int (unat (a :: u64)) + sint n" "a \<le> u" "u \<le> b"
  shows "u + n \<le> b" "a + n \<le> a"
  using add_neg [OF assms(1,2)] add_neg [OF assms(1), of u] assms by (simp_all add: word_le_def)

text \<open>C14: Moving quota between a container and another object in it, an object of finite quota, conserves quota, as long as no more is taken from the object than
  it has: what the object gains in total the container has in use more, to the byte and in both directions, and in every object in core the use stays within the
  total. The call has succeeded for \<open>n\<close> other than 0; both objects are named by their own ids, not by the id that stands for the thread's own segment; the total of the object is part
  of what the container has in use; and all finite totals, with what is moved, are below \<^verbatim>\<open>CT_QUOTA_INF\<close>. (An object of infinite quota is not covered:
  its total stays infinite while the container is charged.)\<close>

theorem move_quota_conserves:
  assumes "sys_container_move_quota pid cid n s = (Ret r, t)" "n \<noteq> 0" "core_ok s" "pid \<noteq> cid"
    "pid \<noteq> kobject_id_thread_sg" "cid \<noteq> kobject_id_thread_sg"
    "ko_find s pid = Some p" "ko_find s cid = Some c"
    "quota_ok (set (ko_list s)) (books s) m" "m + nat \<bar>sint n\<bar> < 2 ^ 62"
    "b_total (books s c) \<noteq> CT_QUOTA_INF" "b_total (books s c) \<le> b_used (books s p)"
    "0 \<le> int (unat (b_total (books s c))) + sint n"
  shows "books t = grow c n (charge p n (books s)) \<and> quota_ok (set (ko_list t)) (books t) (m + nat \<bar>sint n\<bar>)"
proof -
  let ?L = "set (ko_list s)" and ?b = "books s"
  obtain v where v: "book_total (?b p) (?b c) n = Inr v"
    "books t = (charge p n ?b)(c := (charge p n ?b c)\<lparr> b_total := v \<rparr>)" "ko_list t = ko_list s"
    by (rule move_quota_run [OF assms(1,2,5,6)]) (use assms(7,8) in simp)
  have pc: "p \<noteq> c" "p \<in> ?L" "c \<in> ?L" using assms(3,4,7,8) ko_find_id [OF assms(7)] ko_find_id [OF assms(8)] by (auto simp: core_ok_def)
  have c: "unat (b_total (?b c)) \<le> m" "b_used (?b c) \<le> b_total (?b c)" using assms(9,11) pc by (simp_all add: quota_ok_def)
  show ?thesis
  proof (cases "0 < sint n")
    case True
    then have a: "nat \<bar>sint n\<bar> = nat (sint n)" by simp
    note g = give_total [OF c(1) True assms(10) [unfolded a]]
    have "v = b_total (?b c) + n" "\<not> short_of (?b p) n" using v(1) True g by (auto simp: book_total_def split: if_splits)
    then have t: "books t = grow c n (charge p n ?b)" and s: "b_total (?b p) = CT_QUOTA_INF \<or> n \<le> b_total (?b p) - b_used (?b p)"
      using v(2) pc by (auto simp: grow_def charge_def short_of_def)
    have "quota_ok ?L (charge p n ?b) m" by (rule quota_ok_charge [OF assms(9) s])
    then have "quota_ok ?L (grow c n (charge p n ?b)) (m + unat n)"
      by (rule quota_ok_grow [where nb = n]) (use pc assms(10,11) g a in \<open>simp_all add: charge_def\<close>)
    then show ?thesis using t v(3) g a by simp
  next
    case False
    then have neg: "sint n < 0" using assms(2) sint_0 signed_word_eqI [of n 0] by (metis linorder_cases)
    have "v = b_total (?b c) + n" "b_used (?b c) \<le> b_total (?b c) + n" using v(1) False by (auto simp: book_total_def split: if_splits)
    moreover have "b_used (?b p) + n \<le> b_total (?b p)" if "b_total (?b p) \<noteq> CT_QUOTA_INF"
      using take_total(1) [OF neg assms(13,12)] that assms(9) pc by (simp add: quota_ok_def)
    moreover have "b_total (?b c) + n \<le> b_total (?b c)" using take_total(2) [OF neg assms(13,12) order_refl] .
    ultimately show ?thesis using v(2,3) assms(9) pc c by (auto simp: grow_def charge_def quota_ok_def word_le_nat_alt)
  qed
qed

lemma move_quota_succeeds:
  assumes "container_find pid iflow_rw s = (Ret p, s1)" "cobj_get (COBJ pid cid) kobj_any iflow_rw s1 = (Ret c, s2)" "p \<noteq> 0" "c \<noteq> 0" "n \<noteq> 0"
    "\<not> b_fixed (books s c)" "book_total (books s p) (books s c) n = Inr v"
  shows "\<exists>t. sys_container_move_quota pid cid n s = (Ret 0, t) \<and> books t = (charge p n (books s))(c := (charge p n (books s) c)\<lparr> b_total := v \<rparr>)"
proof -
  have "quota_view s1 = quota_view s" "quota_view s2 = quota_view s1"
    using same_booksD [OF same_books_get assms(1) [unfolded container_find_def]] same_booksD [OF same_books_cobj_get assms(2)] by simp_all
  then have b: "books s2 = books s" by (simp add: quota_view_def)
  have "\<not> has_flag (ko_flags (hdr (ks_obj s2 c))) KOBJ_FIXED_QUOTA" using assms(6) unfolding b [symmetric] by (simp add: books_sel)
  moreover obtain s3 where s3: "kobject_dirty p s2 = (Ret (), s3)" using assms(3) by (simp add: kobject_dirty_def kthen_case kassert_def kret_def upd_hdr_def upd_obj_def)
  moreover obtain s4 where s4: "upd_hdr p (\<lambda>h. h\<lparr> ko_quota_used := ko_quota_used h + n \<rparr>) s3 = (Ret (), s4)" by (simp add: upd_hdr_def upd_obj_def)
  moreover obtain s5 where s5: "kobject_dirty c s4 = (Ret (), s5)" using assms(4) by (simp add: kobject_dirty_def kthen_case kassert_def kret_def upd_hdr_def upd_obj_def)
  moreover obtain t where t: "upd_hdr c (\<lambda>h. h\<lparr> ko_quota_total := v \<rparr>) s5 = (Ret (), t)" by (simp add: upd_hdr_def upd_obj_def)
  ultimately have "sys_container_move_quota pid cid n s = (Ret 0, t)"
    using assms(1,2,5,7) by (simp add: sys_container_move_quota_def kbind_def kget_def move_quota_total_books b kthen_case kret_def)
  moreover have "books t = (charge p n (books s))(c := (charge p n (books s) c)\<lparr> b_total := v \<rparr>)"
    using upd_hdr_total_books [OF t] dirty_books [OF s5] upd_used_books [OF s4] dirty_books [OF s3] b by simp
  ultimately show ?thesis by blast
qed

text \<open>C28: Nothing stops a caller from taking more than the object has. When the container and an object in it are found (the caller may read and write both), the object's
  quota is finite and not fixed, its use is within its total, and the number asked to be taken is larger than the total, the call succeeds: the subtraction wraps around,
  the result passes the comparison with the object's use, the object is left with a total above the value that stands for infinite quota, and its
  container is credited with bytes that never were.\<close>

theorem move_quota_wraps:
  assumes "container_find pid iflow_rw s = (Ret p, s1)" "cobj_get (COBJ pid cid) kobj_any iflow_rw s1 = (Ret c, s2)" "p \<noteq> 0" "c \<noteq> 0" "p \<noteq> c"
    "\<not> b_fixed (books s c)" "b_total (books s c) \<noteq> CT_QUOTA_INF" "b_used (books s c) \<le> b_total (books s c)"
    "int (unat (b_total (books s c))) + sint n < 0"
  shows "\<exists>t. sys_container_move_quota pid cid n s = (Ret 0, t) \<and> CT_QUOTA_INF < b_total (books t c) \<and> b_used (books t p) = b_used (books s p) + n"
proof -
  let ?b = "books s" and ?v = "b_total (books s c) + n"
  have neg: "sint n < 0" using assms(9) by linarith
  then have n0: "n \<noteq> 0" by auto
  have "- (2 ^ 63) \<le> sint n" using sint_greater_eq [of n] by simp
  then have u: "(2 :: int) ^ 63 \<le> uint (b_total (?b c)) + uint n" "uint (b_total (?b c)) + uint n < 2 ^ 64" "uint (b_total (?b c)) < 2 ^ 63"
    using assms(9) sint_neg_unat [OF neg] by simp_all (use uint_ge_0 [of "b_total (?b c)"] in linarith)
  then have v: "uint ?v = uint (b_total (?b c)) + uint n" unfolding uint_word_ariths by simp
  have "CT_QUOTA_INF < ?v" "b_used (?b c) \<le> ?v" using u v assms(8) by (simp_all add: word_less_def word_le_def CT_QUOTA_INF_def)
  moreover from this have "book_total (?b p) (?b c) n = Inr ?v" using neg assms(7) by (simp add: book_total_def)
  ultimately show ?thesis using move_quota_succeeds [OF assms(1-4) n0 assms(6)] assms(5) by (fastforce simp: charge_def)
qed

lemma shared_flags: "shared_bit 0 f \<Longrightarrow> \<not> has_flag f KOBJ_READONLY \<and> \<not> has_flag f KOBJ_FIXED_QUOTA"
  by (auto simp: shared_bit_def has_flag_def KOBJ_READONLY_def KOBJ_FIXED_QUOTA_def KOBJ_SHARED_MAPPINGS_def)

lemma flow_get:
  assumes "checks n flow_state s" "cache_sound s" "n \<le> 20" "ko \<in> {8, 9}" "kid = ko_id (hdr (ks_obj flow_state ko))"
    "ty = ko_type (hdr (ks_obj flow_state ko))" "iflow \<in> {iflow_rw, iflow_read}"
  shows "\<exists>s'. kobject_get kid ty iflow s = (Ret ko, s') \<and> checks 3 s s' \<and> checks (n + 3) flow_state s' \<and> cache_sound s'"
proof -
  note f = checks_frame [OF assms(1)] flow_ok_frame [OF assms(1)]
  have id: "kid = (if ko = 8 then 22 else 23)" using assms(4,5) by (auto simp: flow_state_def)
  have r: "iflow_ready s ko" by (rule iflow_ready_after [OF _ assms(1,2)]) (use assms(3,4) flow_state_ready in \<open>auto simp: flow_state_hdr\<close>)
  have fl: "\<not> has_flag (ko_flags (hdr (ks_obj s ko))) KOBJ_READONLY"
    using checks_flags [OF assms(1), of ko] shared_flags assms(4) by (auto simp: flow_state_hdr)
  have "\<exists>s'. kobject_get kid ty iflow s = (Ret ko, s') \<and> checks 3 s s' \<and> cache_sound s'"
    using kobject_get_grants [of s kid ko ty iflow] r fl id assms(4,6,7)
    by (auto simp: f flow_state_find flow_state_hdr flow_state_ok kobject_id_thread_sg_def)
  then show ?thesis using checks_trans [OF assms(1)] by blast
qed

lemma flow_lookups:
  "\<exists>s1 s2. container_find 23 iflow_rw flow_state = (Ret 9, s1) \<and> cobj_get (COBJ 23 22) kobj_any iflow_rw s1 = (Ret 8, s2)"
proof -
  have id: "ko_id (hdr (ks_obj flow_state 8)) = 22" "ko_id (hdr (ks_obj flow_state 9)) = 23" by (simp_all add: flow_state_def)
  have z: "checks 0 flow_state flow_state" by (simp add: checks_def)
  obtain s1 where s1: "container_find 23 iflow_rw flow_state = (Ret 9, s1)" "checks 3 flow_state s1" "cache_sound s1"
    using flow_get [OF z, of 9 23 kobj_container iflow_rw] flow_state_ready(1) id
    by (auto simp: flow_state_hdr container_find_def iflow_ready_def)
  obtain s2 where s2: "kobject_get 22 kobj_segment iflow_rw s1 = (Ret 8, s2)" "checks 3 s1 s2" "checks 6 flow_state s2" "cache_sound s2"
    using flow_get [OF s1(2,3), of 8 22 kobj_segment iflow_rw] id by (auto simp: flow_state_hdr)
  obtain s3 where s3: "container_find 23 iflow_read s2 = (Ret 9, s3)" "checks 3 s2 s3"
    using flow_get [OF s2(3,4), of 9 23 kobj_container iflow_read] id by (auto simp: flow_state_hdr container_find_def)
  have any: "kobject_get 22 kobj_any iflow_rw s1 = (Ret 8, s2)"
    using kobject_get_any [of 22 s1 8 iflow_rw s2] s2(1) by (simp add: checks_frame [OF s1(2)] flow_state_hdr kobject_id_thread_sg_def)
  obtain s4 where s4: "cobj_get (COBJ 23 22) kobj_any iflow_rw s1 = (Ret 8, s4)"
    using cobj_get_holder [of "COBJ 23 22" kobj_any iflow_rw s1 8 s2 9 s3] any s2 s3 flow_state_container checks_container [OF s1(2)] by auto
  with s1(1) show ?thesis by blast
qed

lemma flow_move:
  assumes "book_total (books flow_state 9) (books flow_state 8) n = Inr v" "n \<noteq> 0"
  shows "\<exists>t. sys_container_move_quota 23 22 n flow_state = (Ret 0, t)"
proof -
  have "\<not> b_fixed (books flow_state 8)" by (simp add: books_sel flow_state_hdr has_flag_def)
  then show ?thesis using flow_lookups move_quota_succeeds [of 23 flow_state 9 _ 22 8 _ n v] assms by auto
qed

theorem move_quota_conserves_witness:
  "\<exists>t. sys_container_move_quota 23 22 100 flow_state = (Ret 0, t) \<and> books t = grow 8 100 (charge 9 100 (books flow_state))"
proof -
  have b: "b_total (books flow_state 8) = 0" "b_used (books flow_state 8) = 0" using flow_state_books(15) [of 8] by simp_all
  obtain t where run: "sys_container_move_quota 23 22 100 flow_state = (Ret 0, t)"
    using flow_move [of 100 100] by (auto simp: book_total_def b short_of_def flow_state_books CT_QUOTA_INF_def)
  show ?thesis
    using move_quota_conserves [OF run _ flow_state_core(1) _ _ _ flow_state_find(6,5) flow_state_core(3)] run
    by (auto simp: b flow_state_books CT_QUOTA_INF_def kobject_id_thread_sg_def)
qed

theorem move_quota_wraps_witness:
  "\<exists>t. sys_container_move_quota 23 22 (- 1) flow_state = (Ret 0, t) \<and> CT_QUOTA_INF < b_total (books t 8)"
proof -
  have b: "b_total (books flow_state 8) = 0" "b_used (books flow_state 8) = 0" using flow_state_books(15) [of 8] by simp_all
  obtain s1 s2 where "container_find 23 iflow_rw flow_state = (Ret 9, s1)" "cobj_get (COBJ 23 22) kobj_any iflow_rw s1 = (Ret 8, s2)"
    using flow_lookups by blast
  then show ?thesis
    using move_quota_wraps [of 23 flow_state 9 s1 22 8 s2 "- 1"] by (auto simp: b books_sel(6) flow_state_hdr has_flag_def CT_QUOTA_INF_def)
qed

end
