(* ===== verification/Trap.thy ===== *)
theory Trap
  imports Syscall
begin

unbundle bit_operations_syntax

text \<open>
  The way into the kernel: the dispatch of system calls (\<^verbatim>\<open>src/kern/kern/syscall.c\<close>, with the numbers of \<^verbatim>\<open>src/inc/syscall_num.h\<close>)
  and of traps (\<^verbatim>\<open>src/kern/arch/amd64/trap.c\<close>). The arguments \<open>dev\<close>, \<open>notify\<close> and \<open>irq\<close> stand for device drivers: the system calls that end
  in one, the notification of the timers, and the handler of an interrupt. Reading the time stamp counter for the statistics is left out.
\<close>

subsection \<open>System calls\<close>

text \<open>The handlers in the order of the numbers of \<^verbatim>\<open>syscall_num.h\<close>, applied to the arguments as \<^verbatim>\<open>syscall_exec\<close> does.\<close>

definition syscall_table ::
  "(string \<Rightarrow> u64 list \<Rightarrow> u64 kernel) \<Rightarrow> unit kernel \<Rightarrow> ptr \<Rightarrow> ptr \<Rightarrow> u64 \<Rightarrow> u64 \<Rightarrow> u64 \<Rightarrow> u64 \<Rightarrow> u64 \<Rightarrow> u64 \<Rightarrow> u64 \<Rightarrow> u64 kernel list" where
  "syscall_table dev notify cl cc a1 a2 a3 a4 a5 a6 a7 = [
     dev ''cons_puts'' [a1, a2, a3, a4, a5, a6, a7],
     dev ''cons_getc'' [a1, a2, a3, a4, a5, a6, a7],
     dev ''cons_probe'' [a1, a2, a3, a4, a5, a6, a7],
     dev ''fb_get_mode'' [a1, a2, a3, a4, a5, a6, a7],
     sys_device_create a1 a2 a3 a4 (ucast a5),
     dev ''net_wait'' [a1, a2, a3, a4, a5, a6, a7],
     dev ''net_buf'' [a1, a2, a3, a4, a5, a6, a7],
     dev ''net_macaddr'' [a1, a2, a3, a4, a5, a6, a7],
     dev ''machine_reboot'' [a1, a2, a3, a4, a5, a6, a7],
     sys_container_alloc a1 a2 a3 a4 a5,
     sys_container_get_nslots a1,
     sys_container_get_parent a1,
     sys_container_get_slot_id a1 a2,
     sys_container_move_quota a1 a2 a3,
     sys_obj_unref (COBJ a1 a2),
     sys_obj_get_type (COBJ a1 a2),
     sys_obj_get_label (COBJ a1 a2) a3,
     sys_obj_get_name (COBJ a1 a2) a3,
     sys_obj_get_quota_total (COBJ a1 a2),
     sys_obj_get_quota_avail (COBJ a1 a2),
     sys_obj_get_meta (COBJ a1 a2) a3,
     sys_obj_set_meta (COBJ a1 a2) a3 a4,
     sys_obj_set_fixedquota (COBJ a1 a2),
     sys_obj_set_readonly (COBJ a1 a2),
     sys_obj_get_readonly (COBJ a1 a2),
     sys_obj_move (COBJ a1 a2) a3 a4,
     dev ''obj_read'' [a1, a2, a3, a4, a5, a6, a7],
     dev ''obj_write'' [a1, a2, a3, a4, a5, a6, a7],
     dev ''obj_probe'' [a1, a2, a3, a4, a5, a6, a7],
     sys_gate_create cl cc a1 a2 a3 a4 a5 a6 (ucast a7),
     sys_gate_enter cl cc (COBJ a1 a2) a3 a4 a5,
     sys_gate_clearance (COBJ a1 a2) a3,
     sys_gate_get_entry (COBJ a1 a2) a3,
     sys_thread_create cl cc a1 a2,
     sys_thread_start cl cc (COBJ a1 a2) a3 a4 a5,
     sys_thread_trap cl (COBJ a1 a2) (COBJ a3 a4) (ucast a5) a6,
     sys_self_yield notify,
     sys_self_halt,
     sys_self_id,
     sys_self_addref a1,
     sys_self_set_label cl cc a1,
     sys_self_set_clearance cl cc a1,
     sys_self_get_clearance cc a1,
     sys_self_set_verify a1 a2,
     sys_self_get_verify a1 a2,
     sys_self_get_as a1,
     sys_self_set_as (COBJ a1 a2),
     sys_self_fp_enable,
     sys_self_fp_disable,
     sys_self_set_waitslots a1,
     sys_self_set_sched_parents a1 a2,
     sys_self_set_cflush (ucast a1),
     sys_self_get_entry_args a1,
     sys_sync_wait a1 a2 a3,
     sys_sync_wait_multi a1 a2 a3 a4 a5,
     sys_sync_wakeup a1,
     sys_clock_nsec,
     sys_handle_create cl cc,
     sys_pstate_timestamp,
     sys_pstate_sync a1,
     sys_segment_create a1 a2 a3 a4,
     sys_segment_copy (COBJ a1 a2) a3 a4 a5,
     sys_segment_addref (COBJ a1 a2) a3,
     sys_segment_resize (COBJ a1 a2) a3,
     sys_segment_get_nbytes (COBJ a1 a2),
     sys_segment_sync (COBJ a1 a2) a3 a4 a5,
     sys_as_create a1 a2 a3,
     sys_as_copy (COBJ a1 a2) a3 a4 a5,
     sys_as_get (COBJ a1 a2) a3,
     sys_as_set (COBJ a1 a2) a3,
     sys_as_get_slot (COBJ a1 a2) a3,
     sys_as_set_slot (COBJ a1 a2) a3]"

definition syscall_exec ::
  "(string \<Rightarrow> u64 list \<Rightarrow> u64 kernel) \<Rightarrow> unit kernel \<Rightarrow> u64 \<Rightarrow> u64 \<Rightarrow> u64 \<Rightarrow> u64 \<Rightarrow> u64 \<Rightarrow> u64 \<Rightarrow> u64 \<Rightarrow> u64 \<Rightarrow> u64 kernel" where
  "syscall_exec dev notify num a1 a2 a3 a4 a5 a6 a7 =
     kbind (kget cur_thread) (\<lambda>cur.
     kbind (kobject_get_label cur kolabel_tracking) (\<lambda>cl.
     kbind (kobject_get_label cur kolabel_clearance) (\<lambda>cc.
     let table = syscall_table dev notify cl cc a1 a2 a3 a4 a5 a6 a7
     in if unat num < length table then table ! unat num else kerr E_INVAL)))"

text \<open>What the user sees of an outcome: the result, or the negative of the number of the error (\<^verbatim>\<open>src/inc/error.h\<close>).\<close>

definition err_number :: "err \<Rightarrow> u64" where
  "err_number e = (case e of
       E_UNSPEC \<Rightarrow> 1 | E_INVAL \<Rightarrow> 2 | E_NO_MEM \<Rightarrow> 3 | E_RESTART \<Rightarrow> 4 | E_NOT_FOUND \<Rightarrow> 5 | E_LABEL \<Rightarrow> 6 | E_BUSY \<Rightarrow> 7
     | E_NO_SPACE \<Rightarrow> 8 | E_AGAIN \<Rightarrow> 9 | E_IO \<Rightarrow> 10 | E_FIXED_QUOTA \<Rightarrow> 11 | E_VAR_QUOTA \<Rightarrow> 12 | E_RESOURCE \<Rightarrow> 13
     | E_BAD_TYPE \<Rightarrow> 14 | E_READ_ONLY \<Rightarrow> 15 | E_RANGE \<Rightarrow> 16 | E_EOF \<Rightarrow> 17 | E_MAX_OPEN \<Rightarrow> 18 | E_BAD_OP \<Rightarrow> 19
     | E_EXISTS \<Rightarrow> 20 | E_NOT_DIR \<Rightarrow> 21)"

definition kern_syscall ::
  "(string \<Rightarrow> u64 list \<Rightarrow> u64 kernel) \<Rightarrow> unit kernel \<Rightarrow> u64 \<Rightarrow> u64 \<Rightarrow> u64 \<Rightarrow> u64 \<Rightarrow> u64 \<Rightarrow> u64 \<Rightarrow> u64 \<Rightarrow> u64 \<Rightarrow> u64 kernel" where
  "kern_syscall dev notify num a1 a2 a3 a4 a5 a6 a7 =
     ktry (syscall_exec dev notify num a1 a2 a3 a4 a5 a6 a7) (\<lambda>r.
     kret (case r of Inl e \<Rightarrow> - err_number e | Inr v \<Rightarrow> v))"

subsection \<open>Traps\<close>

definition T_NMI :: u32 where "T_NMI = 2"
definition T_PGFLT :: u32 where "T_PGFLT = 14"
definition T_SYSCALL :: u32 where "T_SYSCALL = 48"
definition IRQ_OFFSET :: u32 where "IRQ_OFFSET = 32"
definition MAX_IRQS :: u32 where "MAX_IRQS = 16"
definition UTRAP_SRC_HW :: u32 where "UTRAP_SRC_HW = 1"
definition FEC_W :: u32 where "FEC_W = 2"
definition FEC_I :: u32 where "FEC_I = 16"

text \<open>Whether an attempt to handle a trap has succeeded, or will be made again.\<close>

definition handled :: "err + unit \<Rightarrow> bool" where
  "handled r \<longleftrightarrow> r = Inr () \<or> r = Inl E_RESTART"

definition page_fault :: "ptr \<Rightarrow> Trapframe \<Rightarrow> u64 \<Rightarrow> u32 \<Rightarrow> unit kernel" where
  "page_fault t tf fault_va e =
     (let reqflags = (if e AND FEC_W \<noteq> 0 then SEGMAP_WRITE else 0) OR (if e AND FEC_I \<noteq> 0 then SEGMAP_EXEC else 0)
      in if tf_cs tf AND 3 = 0 then kpanic
         else ktry (thread_pagefault t fault_va reqflags) (\<lambda>r.
           if handled r then kret ()
           else ktry (thread_utrap t UTRAP_SRC_HW T_PGFLT fault_va) (\<lambda>r.
             if handled r then kret () else thread_halt t)))"

definition upd_tf :: "ptr \<Rightarrow> (Trapframe \<Rightarrow> Trapframe) \<Rightarrow> unit kernel" where
  "upd_tf t f = upd_th t (\<lambda>x. x\<lparr> th_tf := f (th_tf x) \<rparr>)"

text \<open>The case \<^verbatim>\<open>T_SYSCALL\<close> of \<^verbatim>\<open>trap_dispatch\<close>.\<close>

definition trap_syscall :: "(string \<Rightarrow> u64 list \<Rightarrow> u64 kernel) \<Rightarrow> unit kernel \<Rightarrow> Trapframe \<Rightarrow> unit kernel" where
  "trap_syscall dev notify tf =
     kbind (kget trap_thread) (\<lambda>t.
     kthen (kobject_dirty t)
    (kthen (upd_tf t (\<lambda>f. f\<lparr> tf_rip := tf_rip f - 2 \<rparr>))
    (kthen (kmod (\<lambda>s. s\<lparr> trap_thread_syscall_writeback := True \<rparr>))
    (kbind (kern_syscall dev notify (tf_rdi tf) (tf_rsi tf) (tf_rdx tf) (tf_rcx tf) (tf_r8 tf) (tf_r9 tf) (tf_r10 tf) (tf_r11 tf)) (\<lambda>r.
     kbind (kget (\<lambda>s. (trap_thread_syscall_writeback s, trap_thread s))) (\<lambda>(writeback, t).
     if writeback
     then kthen (kmod (\<lambda>s. s\<lparr> trap_thread_syscall_writeback := False \<rparr>))
         (kthen (kobject_dirty t)
            (kwhen (r \<noteq> - err_number E_RESTART) (upd_tf t (\<lambda>f. f\<lparr> tf_rip := tf_rip f + 2, tf_rax := r \<rparr>))))
     else kassert (r = 0)))))))"

definition trap_dispatch ::
  "(string \<Rightarrow> u64 list \<Rightarrow> u64 kernel) \<Rightarrow> unit kernel \<Rightarrow> (u32 \<Rightarrow> unit kernel) \<Rightarrow> u32 \<Rightarrow> Trapframe \<Rightarrow> u64 \<Rightarrow> unit kernel" where
  "trap_dispatch dev notify irq trapno tf fault_va =
     (if trapno = T_NMI then kpanic
      else if IRQ_OFFSET \<le> trapno \<and> trapno < IRQ_OFFSET + MAX_IRQS then irq (trapno - IRQ_OFFSET)
      else kbind (kget trap_thread) (\<lambda>t.
        if t = 0 then kpanic
        else if trapno = T_SYSCALL then trap_syscall dev notify tf
        else if trapno = T_PGFLT then page_fault t tf fault_va (tf_err tf)
        else ktry (thread_utrap t UTRAP_SRC_HW trapno 0) (\<lambda>r.
          if handled r then kret () else thread_halt t)))"

text \<open>The thread that runs, pinned as long as it does.\<close>

definition trap_thread_set :: "ptr \<Rightarrow> unit kernel" where
  "trap_thread_set t =
     kbind (kget trap_thread) (\<lambda>cur.
     kthen (kwhen (cur \<noteq> 0) (kthen (kobject_unpin_hdr cur) (kmod (\<lambda>s. s\<lparr> trap_thread := 0 \<rparr>))))
       (kwhen (t \<noteq> 0) (kthen (kobject_pin_hdr t) (kmod (\<lambda>s. s\<lparr> trap_thread := t \<rparr>)))))"

text \<open>
  The end of every trap (\<^verbatim>\<open>thread_run\<close> of \<^verbatim>\<open>thread.c\<close>): the thread that goes back to user mode, 0 if the processor idles. \<open>op_check\<close> stands for
  \<^verbatim>\<open>pstate_op_check\<close>, which starts the delayed operations on the disk; loading the registers is left out.
\<close>

definition thread_run :: "unit kernel \<Rightarrow> unit kernel \<Rightarrow> ptr kernel" where
  "thread_run op_check notify =
     kthen op_check
    (kbind (kget (\<lambda>s. cur_thread s = 0 \<or> th_status (th (ks_obj s (cur_thread s))) \<noteq> thread_runnable)) (\<lambda>idle.
     kthen (kwhen idle (schedule notify))
    (kbind (kget (\<lambda>s. (cur_thread s, th_status (th (ks_obj s (cur_thread s)))))) (\<lambda>(t, status).
     if t = 0 then kthen (trap_thread_set 0) (kret 0)
     else if status \<noteq> thread_runnable then kpanic
     else kthen (thread_switch t) (kthen (trap_thread_set t) (kret t))))))"

subsection \<open>The result of a system call\<close>

text \<open>The state in which the system call runs: the instruction pointer of the thread is back at the instruction that made the call.\<close>

definition syscall_entry :: "ptr \<Rightarrow> kstate \<Rightarrow> kstate" where
  "syscall_entry t s = s\<lparr> ks_obj := (ks_obj s)(t := let ko = ks_obj s t in
       ko\<lparr> hdr := (hdr ko)\<lparr> ko_flags := ko_flags (hdr ko) OR KOBJ_DIRTY \<rparr>,
           th := (th ko)\<lparr> th_tf := (th_tf (th ko))\<lparr> tf_rip := tf_rip (th_tf (th ko)) - 2 \<rparr> \<rparr> \<rparr>),
     trap_thread_syscall_writeback := True \<rparr>"

abbreviation frame_of :: "kstate \<Rightarrow> ptr \<Rightarrow> Trapframe" where
  "frame_of s t \<equiv> th_tf (th (ks_obj s t))"

lemma trap_syscall_entry:
  assumes "trap_thread s = t" "t \<noteq> 0"
  shows "trap_syscall dev notify tf s =
    kbind (kern_syscall dev notify (tf_rdi tf) (tf_rsi tf) (tf_rdx tf) (tf_rcx tf) (tf_r8 tf) (tf_r9 tf) (tf_r10 tf) (tf_r11 tf)) (\<lambda>r.
     kbind (kget (\<lambda>s. (trap_thread_syscall_writeback s, trap_thread s))) (\<lambda>(writeback, t).
     if writeback
     then kthen (kmod (\<lambda>s. s\<lparr> trap_thread_syscall_writeback := False \<rparr>))
         (kthen (kobject_dirty t)
            (kwhen (r \<noteq> - err_number E_RESTART) (upd_tf t (\<lambda>f. f\<lparr> tf_rip := tf_rip f + 2, tf_rax := r \<rparr>))))
     else kassert (r = 0))) (syscall_entry t s)"
  using assms
  by (simp add: trap_syscall_def kbind_get kobject_dirty_def kthen_case kassert_def kret_def upd_hdr_def upd_obj_def upd_tf_def upd_th_def
    syscall_entry_def Let_def)

text \<open>C19: What a system call does to the frames of the threads around its handler, for every handler that returns. The handler runs with the frame of the calling thread set back to the
  instruction that made the call. If it leaves the request to write back the result standing, no frame changes after a result that asks
  for a restart, and after any other result only the frame of the thread that trapped changes from what the handler left: it goes on behind the instruction with the result, or
  the negative error number, in its result register. If the handler withdrew the request (as the calls that replace the frame do), then no frame changes after the result 0, and
  any other result is a panic. In every case the request is gone. So a caller whose frame the handler leaves alone is again at the call with all registers as they were, or
  behind it with only the result register changed.\<close>

theorem trap_syscall_restart:
  assumes "trap_thread s = t" "t \<noteq> 0"
    "kern_syscall dev notify (tf_rdi tf) (tf_rsi tf) (tf_rdx tf) (tf_rcx tf) (tf_r8 tf) (tf_r9 tf) (tf_r10 tf) (tf_r11 tf) (syscall_entry t s) = (Ret r, u)"
    "trap_thread u \<noteq> 0"
  shows "(\<forall>q. frame_of (syscall_entry t s) q = (if q = t then (frame_of s q)\<lparr> tf_rip := tf_rip (frame_of s q) - 2 \<rparr> else frame_of s q)) \<and>
    (\<exists>u'. trap_syscall dev notify tf s = (if trap_thread_syscall_writeback u \<or> r = 0 then Ret () else Panic, u') \<and> \<not> trap_thread_syscall_writeback u' \<and>
      (\<forall>q. frame_of u' q =
        (if trap_thread_syscall_writeback u \<and> r \<noteq> - err_number E_RESTART \<and> q = trap_thread u
         then (frame_of u q)\<lparr> tf_rip := tf_rip (frame_of u q) + 2, tf_rax := r \<rparr> else frame_of u q)) \<and>
      (trap_thread_syscall_writeback u \<and> trap_thread u = t \<and> frame_of u t = frame_of (syscall_entry t s) t \<longrightarrow>
        frame_of u' t = (if r = - err_number E_RESTART then (frame_of s t)\<lparr> tf_rip := tf_rip (frame_of s t) - 2 \<rparr>
                         else (frame_of s t)\<lparr> tf_rax := r \<rparr>)))"
proof (rule conjI)
  show e: "\<forall>q. frame_of (syscall_entry t s) q = (if q = t then (frame_of s q)\<lparr> tf_rip := tf_rip (frame_of s q) - 2 \<rparr> else frame_of s q)"
    by (simp add: syscall_entry_def Let_def)
  show "\<exists>u'. trap_syscall dev notify tf s = (if trap_thread_syscall_writeback u \<or> r = 0 then Ret () else Panic, u') \<and> \<not> trap_thread_syscall_writeback u' \<and>
      (\<forall>q. frame_of u' q =
        (if trap_thread_syscall_writeback u \<and> r \<noteq> - err_number E_RESTART \<and> q = trap_thread u
         then (frame_of u q)\<lparr> tf_rip := tf_rip (frame_of u q) + 2, tf_rax := r \<rparr> else frame_of u q)) \<and>
      (trap_thread_syscall_writeback u \<and> trap_thread u = t \<and> frame_of u t = frame_of (syscall_entry t s) t \<longrightarrow>
        frame_of u' t = (if r = - err_number E_RESTART then (frame_of s t)\<lparr> tf_rip := tf_rip (frame_of s t) - 2 \<rparr>
                         else (frame_of s t)\<lparr> tf_rax := r \<rparr>))"
    unfolding trap_syscall_entry [OF assms(1,2)] using assms(3,4) e
    by (cases "trap_thread_syscall_writeback u")
      (simp_all add: kbind_def kget_def kthen_case kobject_dirty_def kassert_def kret_def kpanic_def upd_hdr_def upd_obj_def upd_tf_def upd_th_def kwhen_def)
qed

definition caller :: kstate where
  "caller = kstate0\<lparr> cur_thread := 3, trap_thread := 3, ks_obj := (\<lambda>_. kobject0)(3 := kobject0\<lparr> hdr := hdr0\<lparr> ko_id := 20 \<rparr>,
     th := (th kobject0)\<lparr> th_tf := (th_tf (th kobject0))\<lparr> tf_rip := 0x1002, tf_rdi := 38 \<rparr> \<rparr> \<rparr>) \<rparr>"

theorem trap_syscall_restart_witness:
  "\<exists>u. trap_syscall (\<lambda>_ _. kerr E_INVAL) (kret ()) (frame_of caller 3) caller = (Ret (), u) \<and>
     tf_rip (frame_of u 3) = 0x1002 \<and> tf_rax (frame_of u 3) = 20"
proof -
  let ?tf = "frame_of caller 3" and ?dev = "\<lambda>_ _. kerr E_INVAL"
  have t: "trap_thread caller = 3" "tf_rdi ?tf = 38" "tf_rip ?tf = 0x1002" by (simp_all add: caller_def)
  have e: "cur_thread (syscall_entry 3 caller) = 3" "ko_label_cache (ks_obj (syscall_entry 3 caller) 3) = (\<lambda>_. 0)"
    "ko_label (hdr (ks_obj (syscall_entry 3 caller) 3)) = (\<lambda>_. 0)" "ko_id (hdr (ks_obj (syscall_entry 3 caller) 3)) = 20"
    "trap_thread (syscall_entry 3 caller) = 3" "trap_thread_syscall_writeback (syscall_entry 3 caller)"
    by (simp_all add: caller_def syscall_entry_def Let_def kobject0_def hdr0_def)
  have "kern_syscall ?dev (kret ()) 38 a1 a2 a3 a4 a5 a6 a7 (syscall_entry 3 caller) = (Ret 20, syscall_entry 3 caller)" for a1 a2 a3 a4 a5 a6 a7
    by (simp add: kern_syscall_def ktry_def syscall_exec_def kbind_get kobject_get_label_def kbind_def kget_def e kret_def syscall_table_def sys_self_id_def)
  then show ?thesis
    using trap_syscall_restart [OF t(1), of ?dev "kret ()" ?tf 20 "syscall_entry 3 caller"] e t by (auto simp: err_number_def)
qed

end
