(* ===== verification/Spec2Isabelle.thy ===== *)
theory Spec2Isabelle
  imports Prelude Bf60 Hashtable Kstate Kobjbase Sched Threads Handle Pstate Pagealloc Pmap Pagetree
    Pagecow Pagelookup Label Labelcmp Iflow Sync
    Ctslot Quota Borrow Container Labelset Dstack Writelog Logview Recovery
    Aspace Uaccess Threadops Kobjlife Syscall Quotamove Trap
begin

text \<open>
  A verification development of the HiStar kernel, an operating system kernel with labels: every kernel object has a label that says
  how information may flow to and from it, and every system call checks the labels of the objects it touches.

  \<^bold>\<open>The program.\<close> The kernel (\<^verbatim>\<open>src/kern/kern\<close>, with the amd64 parts under \<^verbatim>\<open>src/kern/arch/amd64\<close>) has six
  kinds of objects: labels, containers, threads, gates, segments, address spaces, and devices on top of them. All are reached from a root container by references, are charged to
  the quota of the container that holds them, keep their data in copy-on-write page trees, and are written to disk by snapshots through a write-ahead log. A trap enters the kernel,
  the dispatcher calls the handler of the system call, the handler gets its objects with \<^verbatim>\<open>cobj_get\<close>, which checks the flow between the thread's label and
  the object's, and a handler that has to wait (for memory, the disk or another thread) returns \<^verbatim>\<open>-E_RESTART\<close>, after which the thread makes the call again.

  \<^bold>\<open>How code becomes definitions.\<close> Machine integers are words of their width. A pointer to an object or a page is a page number with 0 as the null pointer; objects, pages and the
  kernel's global variables are one record \<open>kstate\<close>. A function with effects is a function from a state to an outcome and a state: a value, an error number, a panic (also a
  failed assertion), or the end of the fuel. Changes made before an error stay, as in the source. Intrusive lists are lists of pointers.

  \<^bold>\<open>Theories, the code they model, and what is proved.\<close>

  \<^item> \<open>Prelude\<close>: error numbers, checked arithmetic (\<^verbatim>\<open>src/inc/safeint.h\<close>), rounding (\<^verbatim>\<open>intmacro.h\<close>) and the monad with its rules.
    Proved: the checked operations are exact when they report no overflow, and the rules by which invariants pass through sequences and loops.

  \<^item> \<open>Bf60, Handle\<close>: the block cipher \<^verbatim>\<open>src/lib/bf60.c\<close> and the object ids made with it (\<^verbatim>\<open>handle.c\<close>).
    Proved: the 60- and 64-bit ciphers are inverted by their deciphering; the 61-bit one is not, and it drops two bits; ids do not repeat while the counter is below \<open>2 ^ 59\<close>, and a call always finds one.

  \<^item> \<open>Hashtable\<close>: \<^verbatim>\<open>src/lib/hashtable.c\<close>.
    Proved: a table refines a finite map for insertion and lookup, deletion and iteration are right as long as no key is stored twice, and insertion can store a key twice when a deleted slot precedes it. The interface is a locale (\<open>key_index\<close>, \<open>key_map\<close>) interpreted on the operations.

  \<^item> \<open>Kstate, Kobjbase\<close>: the structures (\<^verbatim>\<open>kobjhdr.h\<close>, \<^verbatim>\<open>kobj.h\<close>, \<^verbatim>\<open>thread.h\<close> and others) and the parts of \<^verbatim>\<open>kobj.c\<close> and \<^verbatim>\<open>kocache.c\<close> that need nothing else.
    Proved: the negative cache of ids is sound, and pins keep the garbage-collection list right.

  \<^item> \<open>Sched, Threads, Sync\<close>: \<^verbatim>\<open>sched.c\<close>, \<^verbatim>\<open>timer.c\<close>, the first half of \<^verbatim>\<open>thread.c\<close> and waking up in \<^verbatim>\<open>sync.c\<close>.
    Proved: the scheduler picks a thread with an earliest pass; the clock conversion is exact for moderate frequencies; waking, suspending and halting a thread refine a machine in which a thread is on one list or none, and keep the total of the tickets; waking up an address ends and wakes exactly the threads that wait, unless a thread has two slots in a bucket, where the loop can run for ever.

  \<^item> \<open>Pstate\<close>: the requests of the running kernel to \<^verbatim>\<open>pstate.c\<close>: timestamps, the queue of delayed operations, waiting for a snapshot.
    Proved: a thread goes on exactly if a snapshot begun after its timestamp is stable.

  \<^item> \<open>Pagealloc, Pmap, Pagetree, Pagecow, Pagelookup\<close>: \<^verbatim>\<open>pagealloc.c\<close>, the page tables of \<^verbatim>\<open>pmap-x86.c\<close>, and \<^verbatim>\<open>pagetree.c\<close>.
    Proved: allocation and freeing keep the free list consistent; the read-only lookup of a page follows the digits of its number in base 128.

  \<^item> \<open>Label, Labelcmp, Labelset\<close>: \<^verbatim>\<open>label.c\<close>.
    Proved: the comparison decides the pointwise order of labels as functions from categories to levels; both orders are partial orders with the ownership level at one end; setting a level and joining two labels have their pointwise meaning, for labels whose entries fit into the object.

  \<^item> \<open>Iflow, Ctslot\<close>: finding objects and the flow check of \<^verbatim>\<open>kobj.c\<close>, and naming objects through containers (\<^verbatim>\<open>container.c\<close>).
    Proved: the check decides the flow that the labels allow; an object is handed out only with that flow and through a readable container; a thread that reads one object and writes another moves information only upwards in the categories it does not own; the signed counter of the comparison cache overflows.

  \<^item> \<open>Quota, Borrow, Container, Quotamove\<close>: quotas and references of \<^verbatim>\<open>kobj.c\<close>, the rest of \<^verbatim>\<open>container.c\<close> and \<^verbatim>\<open>sys_container_move_quota\<close>.
    Proved: borrowing creates no quota and ends; references, and putting objects into containers and taking them out, balance for holders of finite quota and do not for infinite quota; moving quota conserves it unless more is taken than is there, where it wraps around.

  \<^item> \<open>Aspace, Uaccess\<close>: \<^verbatim>\<open>as.c\<close>, \<^verbatim>\<open>segment.c\<close>, \<^verbatim>\<open>check_user_access2\<close>, and the reads and writes of user structures.
    Proved: a mapping is used only as the labels allow; translation of addresses to pages; accepted ranges of user memory end at or below \<^verbatim>\<open>ULIM\<close>.

  \<^item> \<open>Dstack, Writelog, Logview, Recovery\<close>: \<^verbatim>\<open>dstack.c\<close> and \<^verbatim>\<open>log.c\<close>.
    Proved: the stack in pages refines a list; a written block is read back; after a crash the log area gives the disk as it was seen at the flush; applying from memory gives the same. The log results are for logs in which no block of the log area was freed since it was applied last.

  \<^item> \<open>Threadops, Kobjlife, Syscall, Trap\<close>: the rest of \<^verbatim>\<open>thread.c\<close>, \<^verbatim>\<open>sched.c\<close>, \<^verbatim>\<open>gate.c\<close>, the life of objects in \<^verbatim>\<open>kobj.c\<close>, the handlers of \<^verbatim>\<open>syscall.c\<close>, and the dispatch of \<^verbatim>\<open>src/kern/arch/amd64/trap.c\<close>.
    Proved: entering a simple object makes it the one that is found; waking all threads of a list ends; what a system call does to the frames of threads around its handler.

  \<^bold>\<open>Fuel.\<close> Loops without a bound in the source get one. For borrowing (the number of objects in memory), replaying and draining the log (the number of blocks, the size of the
  map), waking a list of threads (its length) and waking up an address, the bound is proved to be enough, under the conditions stated with each. For walks of page trees and of page tables the bound is the
  number of levels. For invalidating mappings, emptying a container slot, garbage collection, scheduling and the search for an ancestor of a container it is the length of the list, the count of the slot or the number of objects
  in memory; nothing is proved of these loops, and \<open>NoFuel\<close> marks a run that would need more.

  \<^bold>\<open>Parameters.\<close> Whether a disk request succeeds is part of the state of the log; the table of \<^verbatim>\<open>src/inc/blowfish_data.h\<close> is an argument of the cipher; the eleven system calls
  that end in a device driver, the notification of the timers and the handlers of interrupts are arguments of the dispatchers.

  \<^bold>\<open>Not modelled.\<close> The free list and the B-trees on disk (\<^verbatim>\<open>freelist.c\<close>, \<^verbatim>\<open>src/kern/btree\<close>: function pointers on packed blocks) and with them the disk side of \<^verbatim>\<open>pstate.c\<close>; the device
  drivers and the buffers they exchange with the kernel (\<^verbatim>\<open>src/kern/dev\<close>, \<^verbatim>\<open>netdev.c\<close>, \<^verbatim>\<open>disk.c\<close> and others); boot code, coroutine switching, profiling and printing; the translation
  lookaside buffer, the descriptor tables and the floating-point registers of the processor; the other architectures; and everything above the system calls: the user library (\<^verbatim>\<open>src/lib\<close>
  apart from the two files named above) and the programs under \<^verbatim>\<open>src/user\<close>.
\<close>

end
